(* ===== verification/Prelude.thy ===== *)
theory Prelude
  imports Main "HOL-Library.Multiset"
begin

text \<open>
  Shared vocabulary of the development: Go strings and byte slices as \<^typ>\<open>string\<close> (a list of
  8-bit characters), the wrap-around of Go's 64-bit integers, the parts of \<open>strconv\<close> and
  \<open>strings\<close> the library calls, a reachability predicate for step relations with the locale
  that turns a preserved predicate into an invariant, and the collections of rewrite rules the
  component theories extend.
\<close>

named_theorems go_defs \<open>definitions of the pure helper functions\<close>
named_theorems step_defs \<open>definitions of the stateful operations\<close>

type_synonym bytes = string

section \<open>64-bit integers\<close>

definition wrap64 :: "int \<Rightarrow> int" where
  "wrap64 x = (x + 2 ^ 63) mod 2 ^ 64 - 2 ^ 63"

definition int64 :: "int \<Rightarrow> bool" where
  "int64 x \<longleftrightarrow> - (2 ^ 63) \<le> x \<and> x < 2 ^ 63"

lemma wrap64_id [simp]: "int64 x \<Longrightarrow> wrap64 x = x"
  by (simp add: wrap64_def int64_def)

lemma int64_wrap64 [simp]: "int64 (wrap64 x)"
proof -
  have "0 \<le> (x + 2 ^ 63) mod 2 ^ 64" and "(x + 2 ^ 63) mod 2 ^ 64 < 2 ^ 64"
    by simp_all
  then show ?thesis unfolding wrap64_def int64_def by simp
qed

lemma int64I: "- (2 ^ 63) \<le> x \<Longrightarrow> x < 2 ^ 63 \<Longrightarrow> int64 x"
  by (simp add: int64_def)

section \<open>Characters and decimal digits\<close>

abbreviation ord :: "char \<Rightarrow> nat" where
  "ord c \<equiv> of_char c"

definition is_digit :: "char \<Rightarrow> bool" where
  "is_digit c \<longleftrightarrow> 48 \<le> ord c \<and> ord c \<le> 57"

definition digit_value :: "char \<Rightarrow> nat" where
  "digit_value c = ord c - 48"

definition digit_char :: "nat \<Rightarrow> char" where
  "digit_char d = char_of (48 + d)"

lemma ord_digit_char [simp]: "d < 10 \<Longrightarrow> ord (digit_char d) = 48 + d"
  by (simp add: digit_char_def of_char_of)

lemma is_digit_digit_char [simp]: "d < 10 \<Longrightarrow> is_digit (digit_char d)"
  by (simp add: is_digit_def)

lemma digit_value_digit_char [simp]: "d < 10 \<Longrightarrow> digit_value (digit_char d) = d"
  by (simp add: digit_value_def)

lemma digit_value_less [simp]: "is_digit c \<Longrightarrow> digit_value c < 10"
  by (auto simp: is_digit_def digit_value_def)

text \<open>The number a string of digits denotes; leading zeros are allowed.\<close>

definition decimal :: "string \<Rightarrow> nat" where
  "decimal ds = foldl (\<lambda>n c. 10 * n + digit_value c) 0 ds"

lemma decimal_Nil [simp]: "decimal [] = 0"
  by (simp add: decimal_def)

lemma decimal_snoc [simp]: "decimal (ds @ [c]) = 10 * decimal ds + digit_value c"
  by (simp add: decimal_def)

lemma decimal_append_ge: "decimal ds \<le> decimal (ds @ es)"
proof (induction es rule: rev_induct)
  case (snoc c es)
  have "decimal (ds @ es) \<le> decimal ((ds @ es) @ [c])"
    by (simp only: decimal_snoc)
  with snoc show ?case by simp
qed simp

section \<open>strconv\<close>

text \<open>\<open>strconv.FormatInt(i, 10)\<close>.\<close>

fun format_nat :: "nat \<Rightarrow> string" where
  "format_nat n =
     (if n < 10 then [digit_char n] else format_nat (n div 10) @ [digit_char (n mod 10)])"

declare format_nat.simps [simp del]

definition FormatInt :: "int \<Rightarrow> string" where
  "FormatInt i = (if i < 0 then CHR ''-'' # format_nat (nat (- i)) else format_nat (nat i))"

datatype num_error = ErrSyntax | ErrRange

text \<open>
  The digit loop of \<open>strconv.ParseUint\<close> in base 10 with 64 bits: a non-digit is a syntax
  error, a value above $2^{64}-1$ a range error, whichever comes first in the string.
\<close>

fun parse_uint_loop :: "nat \<Rightarrow> string \<Rightarrow> num_error + nat" where
  "parse_uint_loop acc [] = Inr acc"
| "parse_uint_loop acc (c # cs) =
     (if \<not> is_digit c then Inl ErrSyntax
      else if 2 ^ 64 - 1 < 10 * acc + digit_value c then Inl ErrRange
      else parse_uint_loop (10 * acc + digit_value c) cs)"

text \<open>
  \<open>strconv.ParseInt(s, 10, 64)\<close>, and \<open>strconv.Atoi\<close> where \<open>int\<close> has 64 bits: an optional
  sign, at least one digit, and a value that fits.
\<close>

definition ParseInt :: "string \<Rightarrow> num_error + int" where
  "ParseInt s =
     (case s of
        [] \<Rightarrow> Inl ErrSyntax
      | c # cs \<Rightarrow>
          let neg = (c = CHR ''-'');
              ds = (if c = CHR ''+'' \<or> c = CHR ''-'' then cs else s)
          in if ds = [] then Inl ErrSyntax
             else (case parse_uint_loop 0 ds of
                     Inl e \<Rightarrow> Inl e
                   | Inr n \<Rightarrow>
                       if \<not> neg \<and> 2 ^ 63 \<le> n then Inl ErrRange
                       else if neg \<and> 2 ^ 63 < n then Inl ErrRange
                       else Inr (if neg then - int n else int n)))"

lemma format_nat_not_Nil [simp]: "format_nat n \<noteq> []"
  by (subst format_nat.simps) simp

lemma format_nat_digits: "list_all is_digit (format_nat n)"
proof (induction n rule: format_nat.induct)
  case (1 n)
  then show ?case by (subst format_nat.simps) auto
qed

lemma decimal_format_nat [simp]: "decimal (format_nat n) = n"
proof (induction n rule: format_nat.induct)
  case (1 n)
  show ?case
  proof (cases "n < 10")
    case True
    then show ?thesis using decimal_snoc [of "[]"] by (simp add: format_nat.simps [of n])
  next
    case False
    with "1.IH" show ?thesis by (simp add: format_nat.simps [of n])
  qed
qed

definition decimal_from :: "nat \<Rightarrow> string \<Rightarrow> nat" where
  "decimal_from acc ds = foldl (\<lambda>n c. 10 * n + digit_value c) acc ds"

lemma decimal_from_simps [simp]:
  "decimal_from acc [] = acc"
  "decimal_from acc (c # cs) = decimal_from (10 * acc + digit_value c) cs"
  by (simp_all add: decimal_from_def)

lemma decimal_from_ge: "acc \<le> decimal_from acc ds"
proof (induction ds arbitrary: acc)
  case (Cons c ds)
  show ?case using Cons [of "10 * acc + digit_value c"] by simp
qed simp

lemma parse_uint_loop_digits:
  "list_all is_digit ds \<Longrightarrow>
   parse_uint_loop acc ds =
     (if decimal_from acc ds \<le> 2 ^ 64 - 1 \<or> ds = [] then Inr (decimal_from acc ds) else Inl ErrRange)"
proof (induction ds arbitrary: acc)
  case (Cons c ds)
  let ?acc = "10 * acc + digit_value c"
  have ge: "?acc \<le> decimal_from ?acc ds" by (rule decimal_from_ge)
  from Cons show ?case
  proof (cases "2 ^ 64 - 1 < ?acc")
    case True
    with ge Cons.prems show ?thesis by simp
  next
    case False
    with Cons.IH [of ?acc] Cons.prems show ?thesis by (cases ds) simp_all
  qed
qed simp

lemma parse_uint_loop_not_digits:
  "\<not> list_all is_digit ds \<Longrightarrow> \<exists>e. parse_uint_loop acc ds = Inl e"
  by (induction ds arbitrary: acc) auto

lemma decimal_from_0: "decimal_from 0 ds = decimal ds"
  by (simp add: decimal_from_def decimal_def)

lemma sign_not_digit [simp]: "\<not> is_digit (CHR ''+'')" "\<not> is_digit (CHR ''-'')" "\<not> is_digit (CHR ''.'')"
  by (simp_all add: is_digit_def)

text \<open>On a string of digits \<open>ParseInt\<close> succeeds exactly when the value fits in 63 bits.\<close>

lemma ParseInt_digits:
  assumes "ds \<noteq> []" and "list_all is_digit ds"
  shows "ParseInt ds = (if decimal ds < 2 ^ 63 then Inr (int (decimal ds)) else Inl ErrRange)"
proof -
  obtain c cs where ds: "ds = c # cs" using assms(1) by (cases ds) auto
  with assms(2) have "c \<noteq> CHR ''+''" and "c \<noteq> CHR ''-''" by auto
  with assms(1) show ?thesis
    using parse_uint_loop_digits [OF assms(2), of 0]
    by (simp add: ParseInt_def ds decimal_from_0 del: parse_uint_loop.simps decimal_from_simps)
qed

lemma ParseInt_bounds: "ParseInt s = Inr n \<Longrightarrow> int64 n"
  by (auto simp: ParseInt_def Let_def int64_def split: list.splits sum.splits if_splits)

text \<open>Formatting a 64-bit integer and parsing it back is the identity.\<close>

lemma ParseInt_FormatInt:
  assumes "int64 i"
  shows "ParseInt (FormatInt i) = Inr i"
proof (cases "i < 0")
  case True
  let ?ds = "format_nat (nat (- i))"
  have le: "nat (- i) \<le> 2 ^ 63" using assms by (auto simp: int64_def)
  have "parse_uint_loop 0 ?ds = Inr (nat (- i))"
    using le parse_uint_loop_digits [OF format_nat_digits [of "nat (- i)"], of 0]
    by (simp add: decimal_from_0)
  with True le show ?thesis by (simp add: ParseInt_def FormatInt_def Let_def)
next
  case False
  then have "nat i < 2 ^ 63" using assms by (auto simp: int64_def)
  with False show ?thesis
    using ParseInt_digits [OF format_nat_not_Nil format_nat_digits, of "nat i"]
    by (simp add: FormatInt_def)
qed

section \<open>strings\<close>

definition HasPrefix :: "string \<Rightarrow> string \<Rightarrow> bool" where
  "HasPrefix s p \<longleftrightarrow> take (length p) s = p"

fun Contains :: "string \<Rightarrow> string \<Rightarrow> bool" where
  "Contains [] sub = HasPrefix [] sub"
| "Contains (c # cs) sub = (HasPrefix (c # cs) sub \<or> Contains cs sub)"

definition TrimPrefix :: "string \<Rightarrow> string \<Rightarrow> string" where
  "TrimPrefix s p = (if HasPrefix s p then drop (length p) s else s)"

text \<open>\<open>strings.Cut(s, sep)\<close> for a one-byte separator: the part before it, the part after, found.\<close>

fun Cut :: "string \<Rightarrow> char \<Rightarrow> string \<times> string \<times> bool" where
  "Cut [] sep = ([], [], False)"
| "Cut (c # cs) sep =
     (if c = sep then ([], cs, True)
      else (case Cut cs sep of
              (before, after, True) \<Rightarrow> (c # before, after, True)
            | (before, after, False) \<Rightarrow> (c # before, [], False)))"

lemma HasPrefix_append [simp]: "HasPrefix (p @ s) p"
  by (simp add: HasPrefix_def)

lemma TrimPrefix_append [simp]: "TrimPrefix (p @ s) p = s"
  by (simp add: TrimPrefix_def)

lemma Cut_found [simp]: "sep \<notin> set s \<Longrightarrow> Cut (s @ sep # t) sep = (s, t, True)"
  by (induction s) auto

lemma Cut_not_found: "sep \<notin> set s \<Longrightarrow> Cut s sep = (s, [], False)"
  by (induction s) auto

lemma Contains_append: "Contains s sub \<Longrightarrow> Contains (r @ s) sub"
  by (induction r) auto

lemma Contains_prefix [simp]: "Contains (sub @ s) sub"
proof (cases "sub @ s")
  case (Cons c cs)
  then show ?thesis using HasPrefix_append [of sub s] by simp
qed (simp add: HasPrefix_def)

section \<open>Reachable states and invariants\<close>

inductive reach :: "('s \<Rightarrow> bool) \<Rightarrow> ('s \<Rightarrow> 's \<Rightarrow> bool) \<Rightarrow> 's \<Rightarrow> bool"
  for init step where
  reach_init: "init s \<Longrightarrow> reach init step s"
| reach_step: "reach init step s \<Longrightarrow> step s t \<Longrightarrow> reach init step t"

text \<open>
  A predicate that holds initially and is kept by every step from a reachable state holds in
  every reachable state. Components state their step relations and instantiate this locale.
\<close>

locale inductive_invariant =
  fixes init :: "'s \<Rightarrow> bool"
    and step :: "'s \<Rightarrow> 's \<Rightarrow> bool"
    and inv :: "'s \<Rightarrow> bool"
  assumes inv_init: "init s \<Longrightarrow> inv s"
    and inv_step: "inv s \<Longrightarrow> step s t \<Longrightarrow> inv t"
begin

lemma reach_inv: "reach init step s \<Longrightarrow> inv s"
  by (induction rule: reach.induct) (auto intro: inv_init inv_step)

lemma steps_inv: "step\<^sup>*\<^sup>* s t \<Longrightarrow> inv s \<Longrightarrow> inv t"
  by (induction rule: rtranclp_induct) (auto intro: inv_step)

end

text \<open>
  A system whose steps, seen through \<open>abs_of\<close>, are steps of a specification or invisible: what it
  reaches, the specification reaches.
\<close>

locale simulation = inductive_invariant init step inv
  for init :: "'s \<Rightarrow> bool" and step :: "'s \<Rightarrow> 's \<Rightarrow> bool" and inv :: "'s \<Rightarrow> bool" +
  fixes abs_of :: "'s \<Rightarrow> 'a"
    and ainit :: "'a \<Rightarrow> bool"
    and astep :: "'a \<Rightarrow> 'a \<Rightarrow> bool"
  assumes sim_init: "init s \<Longrightarrow> ainit (abs_of s)"
    and sim_step: "inv s \<Longrightarrow> step s t \<Longrightarrow> abs_of t = abs_of s \<or> astep (abs_of s) (abs_of t)"
begin

lemma reach_abs: "reach init step s \<Longrightarrow> reach ainit astep (abs_of s)"
proof (induction rule: reach.induct)
  case (reach_init s)
  then show ?case by (blast intro: reach.reach_init sim_init)
next
  case (reach_step s t)
  with sim_step [OF reach_inv [OF reach_step.hyps(1)] reach_step.hyps(2)] show ?case by (auto intro: reach.reach_step)
qed

end

end
