(* ===== verification/Regexp.thy ===== *)
theory Regexp
  imports Prelude
begin

text \<open>
  The part of Go's \<open>regexp\<close> the library uses: patterns anchored at both ends, built from byte
  classes, concatenation, star, plus and bounded repetition. \<open>MatchString\<close> is decided by
  Brzozowski derivatives and proved equal to membership in the pattern's language. The classes of
  the two patterns are ASCII, so working on bytes agrees with Go's matching on runes.
\<close>

datatype regexp =
    Fail
  | Empty
  | Class "char \<Rightarrow> bool"
  | Alt regexp regexp
  | Cat regexp regexp
  | Rep regexp

fun nullable :: "regexp \<Rightarrow> bool" where
  "nullable Fail = False"
| "nullable Empty = True"
| "nullable (Class p) = False"
| "nullable (Alt r s) = (nullable r \<or> nullable s)"
| "nullable (Cat r s) = (nullable r \<and> nullable s)"
| "nullable (Rep r) = True"

fun residual :: "char \<Rightarrow> regexp \<Rightarrow> regexp" where
  "residual c Fail = Fail"
| "residual c Empty = Fail"
| "residual c (Class p) = (if p c then Empty else Fail)"
| "residual c (Alt r s) = Alt (residual c r) (residual c s)"
| "residual c (Cat r s) =
     (if nullable r then Alt (Cat (residual c r) s) (residual c s) else Cat (residual c r) s)"
| "residual c (Rep r) = Cat (residual c r) (Rep r)"

text \<open>\<open>MatchString\<close> of a pattern written \<open>^...$\<close> (no multi-line flag): the whole text matches.\<close>

definition MatchString :: "regexp \<Rightarrow> string \<Rightarrow> bool" where
  "MatchString r s = nullable (foldl (\<lambda>q c. residual c q) r s)"

text \<open>The language of a pattern, as the specification of the matcher.\<close>

inductive matches :: "regexp \<Rightarrow> string \<Rightarrow> bool" where
  m_Empty: "matches Empty []"
| m_Class: "p c \<Longrightarrow> matches (Class p) [c]"
| m_AltL: "matches r s \<Longrightarrow> matches (Alt r q) s"
| m_AltR: "matches q s \<Longrightarrow> matches (Alt r q) s"
| m_Cat: "matches r s \<Longrightarrow> matches q t \<Longrightarrow> matches (Cat r q) (s @ t)"
| m_Rep0: "matches (Rep r) []"
| m_Rep: "matches r s \<Longrightarrow> matches (Rep r) t \<Longrightarrow> matches (Rep r) (s @ t)"

inductive_cases matches_FailE [elim!]: "matches Fail s"
inductive_cases matches_EmptyE [elim!]: "matches Empty s"
inductive_cases matches_ClassE [elim!]: "matches (Class p) s"
inductive_simps matches_Empty [simp]: "matches Empty s"
inductive_simps matches_Alt: "matches (Alt r q) s"
inductive_simps matches_Cat: "matches (Cat r q) s"

lemma nullable_iff: "nullable r \<longleftrightarrow> matches r []"
proof (induction r)
  case (Cat r q)
  then show ?case by (auto simp: matches_Cat)
qed (auto simp: matches_Alt intro: matches.intros)

lemma matches_Rep_Cons:
  "matches (Rep r) (c # s) \<Longrightarrow> \<exists>u v. s = u @ v \<and> matches r (c # u) \<and> matches (Rep r) v"
proof (induction "Rep r" "c # s" arbitrary: s rule: matches.induct)
  case (m_Rep w t)
  then show ?case by (cases w) auto
qed

lemma matches_Cat_Cons:
  "matches (Cat r q) (c # s) \<longleftrightarrow>
     (\<exists>u v. s = u @ v \<and> matches r (c # u) \<and> matches q v)
     \<or> (matches r [] \<and> matches q (c # s))"
proof
  assume "matches (Cat r q) (c # s)"
  then obtain u v where "c # s = u @ v" and "matches r u" and "matches q v"
    by (auto simp: matches_Cat)
  then show "(\<exists>u v. s = u @ v \<and> matches r (c # u) \<and> matches q v)
     \<or> (matches r [] \<and> matches q (c # s))"
    by (cases u) auto
next
  assume "(\<exists>u v. s = u @ v \<and> matches r (c # u) \<and> matches q v)
     \<or> (matches r [] \<and> matches q (c # s))"
  then show "matches (Cat r q) (c # s)"
    using m_Cat [of r _ q] by (metis append_Cons append_Nil)
qed

lemma residual_iff: "matches (residual c r) s \<longleftrightarrow> matches r (c # s)"
proof (induction r arbitrary: s)
  case (Class p)
  then show ?case by (auto intro: matches.intros)
next
  case (Alt r q)
  then show ?case by (simp add: matches_Alt)
next
  case (Cat r q)
  have "matches (Cat (residual c r) q) s \<longleftrightarrow> (\<exists>u v. s = u @ v \<and> matches r (c # u) \<and> matches q v)"
    using Cat.IH(1) by (simp add: matches_Cat)
  then show ?case
    using Cat.IH(2) nullable_iff [of r] by (auto simp: matches_Cat_Cons matches_Alt)
next
  case (Rep r)
  have "matches (Cat (residual c r) (Rep r)) s \<longleftrightarrow>
      (\<exists>u v. s = u @ v \<and> matches r (c # u) \<and> matches (Rep r) v)"
    using Rep.IH by (simp add: matches_Cat)
  then show ?case using matches_Rep_Cons m_Rep [of r "c # _"] by auto
qed auto

lemma MatchString_iff: "MatchString r s \<longleftrightarrow> matches r s"
  unfolding MatchString_def
  by (induction s arbitrary: r) (simp_all add: nullable_iff residual_iff)

section \<open>Runs of a class\<close>

lemma matches_Rep_Class: "matches (Rep (Class p)) s \<longleftrightarrow> list_all p s"
proof
  show "matches (Rep (Class p)) s \<Longrightarrow> list_all p s"
    by (induction "Rep (Class p)" s rule: matches.induct) auto
  show "list_all p s \<Longrightarrow> matches (Rep (Class p)) s"
  proof (induction s)
    case (Cons c s)
    then show ?case using m_Rep [OF m_Class [of p c], of s] by simp
  qed (rule m_Rep0)
qed

lemma matches_Cat_Class:
  "matches (Cat (Class p) q) s \<longleftrightarrow> (\<exists>c t. s = c # t \<and> p c \<and> matches q t)"
proof
  assume "\<exists>c t. s = c # t \<and> p c \<and> matches q t"
  then obtain c t where "s = [c] @ t" and "p c" and "matches q t" by auto
  then show "matches (Cat (Class p) q) s" by (metis m_Cat m_Class)
qed (auto simp: matches_Cat)

end
