(* ===== verification/Text.thy ===== *)
theory Text
  imports Prelude
begin

text \<open>
  The text functions of Go's standard library that the library's messages and encodings go
  through: UTF-8 rune boundaries (\<open>unicode/utf8\<close>), \<open>strconv.Quote\<close> for \<open>%q\<close>,
  \<open>time.Duration.String\<close> for \<open>%v\<close>, and \<open>encoding/hex\<close>. \<open>strconv.Quote\<close> consults the
  Unicode tables to decide which non-ASCII runes are printable; here every well-formed
  non-ASCII rune counts as printable.
\<close>

section \<open>UTF-8\<close>

definition is_cont :: "char \<Rightarrow> bool" where
  "is_cont c \<longleftrightarrow> 128 \<le> ord c \<and> ord c \<le> 191"

definition ord_in :: "nat \<Rightarrow> nat \<Rightarrow> char \<Rightarrow> bool" where
  "ord_in lo hi c \<longleftrightarrow> lo \<le> ord c \<and> ord c \<le> hi"

text \<open>Bytes of the well-formed rune a string starts with; 0 for none (\<open>utf8.DecodeRune\<close>).\<close>

fun rune_len :: "string \<Rightarrow> nat" where
  "rune_len [] = 0"
| "rune_len (a # r) =
     (if ord a < 128 then 1
      else if ord_in 194 223 a then
        (case r of b # _ \<Rightarrow> if is_cont b then 2 else 0 | [] \<Rightarrow> 0)
      else if ord_in 224 239 a then
        (case r of
           b # c # _ \<Rightarrow>
             if (if ord a = 224 then ord_in 160 191 b
                 else if ord a = 237 then ord_in 128 159 b else is_cont b) \<and> is_cont c
             then 3 else 0
         | _ \<Rightarrow> 0)
      else if ord_in 240 244 a then
        (case r of
           b # c # d # _ \<Rightarrow>
             if (if ord a = 240 then ord_in 144 191 b
                 else if ord a = 244 then ord_in 128 143 b else is_cont b)
                \<and> is_cont c \<and> is_cont d
             then 4 else 0
         | _ \<Rightarrow> 0)
      else 0)"

lemma rune_len_le: "rune_len s \<le> length s"
  by (induction s rule: rune_len.induct) (auto split: list.splits)

lemma rune_len_ascii [simp]: "ord c < 128 \<Longrightarrow> rune_len (c # s) = 1"
  by simp

declare rune_len.simps(2) [simp del]

section \<open>Hexadecimal\<close>

definition hex_char :: "nat \<Rightarrow> char" where
  "hex_char d = (if d < 10 then char_of (48 + d) else char_of (87 + d))"

definition hex_byte :: "char \<Rightarrow> string" where
  "hex_byte c = [hex_char (ord c div 16), hex_char (ord c mod 16)]"

text \<open>\<open>hex.EncodeToString\<close>.\<close>

definition EncodeToString :: "bytes \<Rightarrow> string" where
  "EncodeToString bs = concat (map hex_byte bs)"

lemma length_EncodeToString [simp]: "length (EncodeToString bs) = 2 * length bs"
  by (induction bs) (simp_all add: EncodeToString_def hex_byte_def)

section \<open>strconv.Quote\<close>

definition quote_char :: "char \<Rightarrow> string" where
  "quote_char c =
     (if c = CHR 0x22 \<or> c = CHR 0x5C then [CHR 0x5C, c]
      else if ord_in 32 126 c then [c]
      else if ord c = 7 then [CHR 0x5C, CHR ''a'']
      else if ord c = 8 then [CHR 0x5C, CHR ''b'']
      else if ord c = 9 then [CHR 0x5C, CHR ''t'']
      else if ord c = 10 then [CHR 0x5C, CHR ''n'']
      else if ord c = 11 then [CHR 0x5C, CHR ''v'']
      else if ord c = 12 then [CHR 0x5C, CHR ''f'']
      else if ord c = 13 then [CHR 0x5C, CHR ''r'']
      else [CHR 0x5C, CHR ''x''] @ hex_byte c)"

fun quote_body :: "string \<Rightarrow> string" where
  "quote_body [] = []"
| "quote_body (c # cs) =
     (let n = rune_len (c # cs)
      in if n \<le> 1 then quote_char c @ quote_body cs
         else take n (c # cs) @ quote_body (drop (n - 1) cs))"

definition Quote :: "string \<Rightarrow> string" where
  "Quote s = CHR 0x22 # quote_body s @ [CHR 0x22]"

section \<open>time.Duration\<close>

text \<open>Durations are int64 nanoseconds.\<close>

abbreviation Millisecond :: int where "Millisecond \<equiv> 1000000"
abbreviation Second :: int where "Second \<equiv> 1000000000"

text \<open>\<open>fmtFrac\<close>: the last \<open>prec\<close> digits as a fraction without trailing zeros.\<close>

fun fmt_frac :: "nat \<Rightarrow> nat \<Rightarrow> bool \<Rightarrow> string \<Rightarrow> string" where
  "fmt_frac v 0 print acc = (if print then CHR ''.'' # acc else acc)"
| "fmt_frac v (Suc k) print acc =
     (let digit = v mod 10; p = (print \<or> digit \<noteq> 0)
      in fmt_frac (v div 10) k p (if p then digit_char digit # acc else acc))"

definition fmt_nat_frac :: "nat \<Rightarrow> nat \<Rightarrow> string" where
  "fmt_nat_frac v prec = format_nat (v div 10 ^ prec) @ fmt_frac v prec False []"

definition Duration_String :: "int \<Rightarrow> string" where
  "Duration_String d =
     (let u = nat \<bar>d\<bar>;
          body =
            (if u = 0 then ''0s''
             else if u < 1000 then format_nat u @ ''ns''
             else if u < 1000000 then fmt_nat_frac u 3 @ [CHR 0xC2, CHR 0xB5, CHR ''s'']
             else if u < 1000000000 then fmt_nat_frac u 6 @ ''ms''
             else (let secs = u div 1000000000; mins = secs div 60; hours = mins div 60
                   in (if hours > 0 then format_nat hours @ ''h'' else '''')
                    @ (if mins > 0 then format_nat (mins mod 60) @ ''m'' else '''')
                    @ format_nat (secs mod 60) @ fmt_frac u 9 False [] @ ''s''))
      in if d < 0 then CHR ''-'' # body else body)"

end
