(* ===== verification/Errors.thy ===== *)
theory Errors
  imports Text
begin

text \<open>
  Go error values and the classification layer of \<open>errors.go\<close>. An error is a tree: leaves made
  by \<open>errors.New\<close> or \<open>fmt.Errorf\<close> without \<open>%w\<close>, package-level sentinels, wrappers made by
  \<open>fmt.Errorf\<close> with \<open>%w\<close>, multi-error nodes (several \<open>%w\<close>, \<open>errors.Join\<close>), and the
  library's own \<open>classifiedError\<close>. A nil error is \<^term>\<open>None\<close>. Errors built by the application
  or by a third-party package that carry no classification are \<open>OpaqueError\<close> leaves.
\<close>

section \<open>Error values\<close>

datatype piece =
    Lit string     \<comment> \<open>literal text of the format, or a \<open>%s\<close> argument\<close>
  | Quoted string  \<comment> \<open>\<open>%q\<close>\<close>
  | Dec int        \<comment> \<open>\<open>%d\<close>\<close>
  | Dur int        \<comment> \<open>\<open>%v\<close> of a \<open>time.Duration\<close>\<close>

datatype classification = ClassPermanent | ClassRetryable | ClassDiscard

datatype goerr =
    ErrorString "piece list"
  | OpaqueError string
  | Sentinel string
  | WrapError "piece list" goerr
  | JoinError string "goerr list"
  | ClassifiedError classification goerr

fun render_piece :: "piece \<Rightarrow> string" where
  "render_piece (Lit s) = s"
| "render_piece (Quoted s) = Quote s"
| "render_piece (Dec i) = FormatInt i"
| "render_piece (Dur d) = Duration_String d"

definition render :: "piece list \<Rightarrow> string" where
  "render ps = concat (map render_piece ps)"

fun intersperse_concat :: "string \<Rightarrow> string list \<Rightarrow> string" where
  "intersperse_concat sep [] = []"
| "intersperse_concat sep [s] = s"
| "intersperse_concat sep (s # t # r) = s @ sep @ intersperse_concat sep (t # r)"

text \<open>The \<open>Error()\<close> text. Every \<open>%w\<close> of the sources is the last verb of its format.\<close>

fun Error :: "goerr \<Rightarrow> string" where
  "Error (ErrorString ps) = render ps"
| "Error (OpaqueError s) = s"
| "Error (Sentinel s) = s"
| "Error (WrapError ps e) = render ps @ Error e"
| "Error (JoinError sep es) = intersperse_concat sep (map Error es)"
| "Error (ClassifiedError c e) = Error e"

text \<open>\<open>errors.Is(err, target)\<close> for a sentinel: pre-order, depth-first through \<open>Unwrap\<close>.\<close>

fun Is_sentinel :: "string \<Rightarrow> goerr \<Rightarrow> bool" where
  "Is_sentinel t (ErrorString ps) = False"
| "Is_sentinel t (OpaqueError s) = False"
| "Is_sentinel t (Sentinel s) = (s = t)"
| "Is_sentinel t (WrapError ps e) = Is_sentinel t e"
| "Is_sentinel t (JoinError sep es) = list_ex (Is_sentinel t) es"
| "Is_sentinel t (ClassifiedError c e) = Is_sentinel t e"

fun first_Some :: "'a option list \<Rightarrow> 'a option" where
  "first_Some [] = None"
| "first_Some (x # xs) = (case x of None \<Rightarrow> first_Some xs | Some v \<Rightarrow> Some v)"

text \<open>\<open>errors.As(err, &ce)\<close> for \<open>ce *classifiedError\<close>: the first one in pre-order, as its class.\<close>

fun As_classified :: "goerr \<Rightarrow> classification option" where
  "As_classified (ErrorString ps) = None"
| "As_classified (OpaqueError s) = None"
| "As_classified (Sentinel s) = None"
| "As_classified (WrapError ps e) = As_classified e"
| "As_classified (JoinError sep es) = first_Some (map As_classified es)"
| "As_classified (ClassifiedError c e) = Some c"

text \<open>\<open>errors.Join\<close>: nil when every argument is nil, else the non-nil ones joined by newlines.\<close>

definition Join :: "goerr option list \<Rightarrow> goerr option" where
  "Join es =
     (let ne = List.map_filter id es
      in if ne = [] then None else Some (JoinError [CHR 0x0A] ne))"

section \<open>errors.go\<close>

definition classify :: "classification \<Rightarrow> goerr option \<Rightarrow> goerr option" where
  "classify c err = (case err of None \<Rightarrow> None | Some e \<Rightarrow> Some (ClassifiedError c e))"

definition AsPermanent :: "goerr option \<Rightarrow> goerr option" where
  "AsPermanent err = classify ClassPermanent err"

definition AsRetryable :: "goerr option \<Rightarrow> goerr option" where
  "AsRetryable err = classify ClassRetryable err"

definition AsDiscard :: "goerr option \<Rightarrow> goerr option" where
  "AsDiscard err = classify ClassDiscard err"

definition classOf :: "goerr option \<Rightarrow> classification option" where
  "classOf err = (case err of None \<Rightarrow> None | Some e \<Rightarrow> As_classified e)"

definition IsPermanent :: "goerr option \<Rightarrow> bool" where
  "IsPermanent err \<longleftrightarrow> (case classOf err of Some c \<Rightarrow> c = ClassPermanent | None \<Rightarrow> False)"

definition IsDiscard :: "goerr option \<Rightarrow> bool" where
  "IsDiscard err \<longleftrightarrow> (case classOf err of Some c \<Rightarrow> c = ClassDiscard | None \<Rightarrow> False)"

definition IsRetryable :: "goerr option \<Rightarrow> bool" where
  "IsRetryable err \<longleftrightarrow>
     (case err of
        None \<Rightarrow> False
      | Some e \<Rightarrow> (case classOf err of None \<Rightarrow> True | Some c \<Rightarrow> c = ClassRetryable))"

lemmas class_defs [go_defs] =
  classify_def AsPermanent_def AsRetryable_def AsDiscard_def classOf_def IsPermanent_def
  IsDiscard_def IsRetryable_def

section \<open>Properties of classification\<close>

text \<open>Any number of \<open>fmt.Errorf("...: %w", ...)\<close> layers around an error.\<close>

fun wraps :: "piece list list \<Rightarrow> goerr \<Rightarrow> goerr" where
  "wraps [] e = e"
| "wraps (ps # pss) e = WrapError ps (wraps pss e)"

lemma As_classified_wraps [simp]: "As_classified (wraps pss e) = As_classified e"
  by (induction pss) simp_all

lemma Is_sentinel_wraps [simp]: "Is_sentinel t (wraps pss e) = Is_sentinel t e"
  by (induction pss) simp_all

lemma IsRetryable_iff:
  "IsRetryable err \<longleftrightarrow> err \<noteq> None \<and> \<not> IsPermanent err \<and> \<not> IsDiscard err"
  by (cases err; cases "classOf err"; cases "the (classOf err)") (auto simp: go_defs)

lemma permanent_not_discard: "IsPermanent err \<Longrightarrow> \<not> IsDiscard err"
  by (auto simp: IsPermanent_def IsDiscard_def split: option.splits)

lemma nil_unclassified [simp]: "\<not> IsPermanent None" "\<not> IsDiscard None" "\<not> IsRetryable None"
  by (simp_all add: go_defs)

lemma Join_eq_None: "Join es = None \<longleftrightarrow> (\<forall>e \<in> set es. e = None)"
proof (induction es)
  case (Cons e es)
  then show ?case by (cases e) (auto simp: Join_def Let_def List.map_filter_def split: if_splits)
qed (simp add: Join_def List.map_filter_def)

text \<open>
  The verdict of a handler error is one of three and never two at once: a non-nil error is
  exactly one of permanent, discard and retryable, an unclassified one being retryable; nil is
  none of them.
\<close>

lemma classification_trichotomy:
  "(IsPermanent err \<and> \<not> IsDiscard err \<and> \<not> IsRetryable err)
   \<or> (\<not> IsPermanent err \<and> IsDiscard err \<and> \<not> IsRetryable err)
   \<or> (\<not> IsPermanent err \<and> \<not> IsDiscard err \<and> (IsRetryable err = (err \<noteq> None)))"
  using IsRetryable_iff [of err] permanent_not_discard [of err] by auto

text \<open>
  Classification is additive and the outermost one wins: through any number of \<open>%w\<close> layers
  around a classified error the class read back is that of the outer wrapper, whatever the inner
  error carries; the \<open>Error()\<close> text of the wrapper is that of the error it wraps, \<open>errors.Is\<close>
  sees through it, and classifying nil yields nil.
\<close>

theorem classify_outermost:
  "classOf (map_option (wraps pss) (classify c (Some e))) = Some c
   \<and> map_option Error (classify c (Some e)) = Some (Error e)
   \<and> map_option (Is_sentinel t) (classify c (Some e)) = Some (Is_sentinel t e)
   \<and> classify c None = None"
  by (simp add: classify_def classOf_def)

end
