(* ===== verification/Config.thy ===== *)
theory Config
  imports Errors
begin

text \<open>
  \<open>config.go\<close>: the configuration records, \<open>Validate\<close> and \<open>validateConsumer\<close> with their
  defaults, and the backoff arithmetic. Both validators mutate the receiver, so each returns the
  error (or none) together with the configuration it leaves behind. Durations are int64
  nanoseconds, counts are int64; additions and doublings of the backoff arithmetic wrap.
  The results of \<open>runtime.GOMAXPROCS\<close>, \<open>os.Hostname\<close> and \<open>crypto/rand.Read\<close> are arguments.
\<close>

section \<open>Data\<close>

text \<open>A telemetry collaborator: one the library falls back to, or one the application passed.\<close>

datatype collaborator = LibraryDefault string | Application nat

record RedisConfig =
  rc_Address :: string
  rc_Username :: string
  rc_Password :: string
  rc_TLS :: "nat option"
  rc_DB :: int
  rc_PoolSize :: int

record ConsumerConfig =
  cc_Group :: string
  cc_ConsumerName :: string
  cc_Concurrency :: int
  cc_ClaimInterval :: int
  cc_ClaimMinIdle :: int
  cc_MaxDeliveryAttempts :: int
  cc_ShutdownTimeout :: int

record RetryConfig =
  rt_MaxImmediateRetries :: int
  rt_InitialBackoff :: int
  rt_MaxBackoff :: int

record TelemetryConfig =
  tc_TracerProvider :: "collaborator option"
  tc_MeterProvider :: "collaborator option"
  tc_Propagator :: "collaborator option"
  tc_Logger :: "collaborator option"
  tc_LogPayloads :: bool

record Config =
  cfg_Source :: string
  cfg_StreamPrefix :: string
  cfg_Redis :: RedisConfig
  cfg_Consumer :: ConsumerConfig
  cfg_Retry :: RetryConfig
  cfg_Telemetry :: TelemetryConfig

definition defaultPoolSizeMultiplier :: int where "defaultPoolSizeMultiplier = 10"
definition defaultConcurrency :: int where "defaultConcurrency = 1"
definition defaultClaimInterval :: int where "defaultClaimInterval = 30 * Second"
definition defaultClaimMinIdle :: int where "defaultClaimMinIdle = 60 * Second"
definition defaultMaxDeliveryAttempts :: int where "defaultMaxDeliveryAttempts = 5"
definition defaultShutdownTimeout :: int where "defaultShutdownTimeout = 30 * Second"

lemmas default_defs [go_defs] =
  defaultPoolSizeMultiplier_def defaultConcurrency_def defaultClaimInterval_def
  defaultClaimMinIdle_def defaultMaxDeliveryAttempts_def defaultShutdownTimeout_def

section \<open>Validate\<close>

definition cfg_error :: "string \<Rightarrow> goerr" where
  "cfg_error s = ErrorString [Lit s]"

definition Validate_Retry_defaults :: "RetryConfig \<Rightarrow> RetryConfig" where
  "Validate_Retry_defaults r =
     (let r = (if rt_MaxImmediateRetries r = 0 then r\<lparr>rt_MaxImmediateRetries := 3\<rparr> else r);
          r = (if rt_InitialBackoff r = 0 then r\<lparr>rt_InitialBackoff := 100 * Millisecond\<rparr> else r)
      in (if rt_MaxBackoff r = 0 then r\<lparr>rt_MaxBackoff := 5 * Second\<rparr> else r))"

definition Validate_Telemetry_defaults :: "TelemetryConfig \<Rightarrow> TelemetryConfig" where
  "Validate_Telemetry_defaults t =
     (let dflt = (\<lambda>n x. case x of None \<Rightarrow> Some (LibraryDefault n) | Some y \<Rightarrow> Some y)
      in t\<lparr>tc_TracerProvider := dflt ''otel.GetTracerProvider()'' (tc_TracerProvider t),
           tc_MeterProvider := dflt ''otel.GetMeterProvider()'' (tc_MeterProvider t),
           tc_Propagator := dflt ''propagation.TraceContext{}'' (tc_Propagator t),
           tc_Logger := dflt ''slog.Default()'' (tc_Logger t)\<rparr>)"

definition Validate :: "int \<Rightarrow> Config \<Rightarrow> goerr option \<times> Config" where
  "Validate gomaxprocs c =
     (if cfg_Source c = [] then (Some (cfg_error ''config: Source is required''), c)
      else if rc_Address (cfg_Redis c) = [] then
        (Some (cfg_error ''config: Redis.Address is required''), c)
      else
        (let c = (if cfg_StreamPrefix c = [] then c\<lparr>cfg_StreamPrefix := ''foi''\<rparr> else c);
             c = (if rc_PoolSize (cfg_Redis c) = 0
                  then c\<lparr>cfg_Redis := (cfg_Redis c)
                           \<lparr>rc_PoolSize := wrap64 (defaultPoolSizeMultiplier * gomaxprocs)\<rparr>\<rparr>
                  else c);
             r = cfg_Retry c
         in if rt_MaxImmediateRetries r < 0 then
              (Some (ErrorString [Lit ''config: Retry.MaxImmediateRetries must not be negative, got '',
                                  Dec (rt_MaxImmediateRetries r)]), c)
            else if rt_InitialBackoff r < 0 then
              (Some (ErrorString [Lit ''config: Retry.InitialBackoff must not be negative, got '',
                                  Dur (rt_InitialBackoff r)]), c)
            else if rt_MaxBackoff r < 0 then
              (Some (ErrorString [Lit ''config: Retry.MaxBackoff must not be negative, got '',
                                  Dur (rt_MaxBackoff r)]), c)
            else (None, c\<lparr>cfg_Retry := Validate_Retry_defaults r,
                          cfg_Telemetry := Validate_Telemetry_defaults (cfg_Telemetry c)\<rparr>)))"

section \<open>Backoff\<close>

text \<open>The \<open>for range i\<close> loop of \<open>backoffUpperBound\<close>: at most \<open>i\<close> doublings, leaving at the cap.\<close>

fun backoff_loop :: "RetryConfig \<Rightarrow> nat \<Rightarrow> int \<Rightarrow> int" where
  "backoff_loop r 0 d = (if d > rt_MaxBackoff r then rt_MaxBackoff r else d)"
| "backoff_loop r (Suc k) d =
     (if d \<ge> rt_MaxBackoff r then rt_MaxBackoff r else backoff_loop r k (wrap64 (d * 2)))"

text \<open>\<open>for range i\<close> with a negative \<open>i\<close> runs no iteration.\<close>

definition backoffUpperBound :: "RetryConfig \<Rightarrow> int \<Rightarrow> int" where
  "backoffUpperBound r i = backoff_loop r (nat i) (rt_InitialBackoff r)"

fun worst_case_loop :: "RetryConfig \<Rightarrow> nat \<Rightarrow> nat \<Rightarrow> int \<Rightarrow> int" where
  "worst_case_loop r i 0 tot = tot"
| "worst_case_loop r i (Suc k) tot =
     worst_case_loop r (Suc i) k (wrap64 (tot + backoffUpperBound r (int i)))"

definition worstCaseBackoff :: "RetryConfig \<Rightarrow> int" where
  "worstCaseBackoff r = worst_case_loop r 0 (nat (rt_MaxImmediateRetries r)) 0"

section \<open>validateConsumer\<close>

definition defaultConsumerName :: "goerr + string \<Rightarrow> goerr + bytes \<Rightarrow> goerr + string" where
  "defaultConsumerName hostname suffix =
     (let host = (case hostname of Inl e \<Rightarrow> ''unknown'' | Inr h \<Rightarrow> if h = [] then ''unknown'' else h)
      in case suffix of
           Inl e \<Rightarrow> Inl (WrapError [Lit ''generating consumer name suffix: ''] e)
         | Inr s \<Rightarrow> Inr (host @ ''-'' @ EncodeToString s))"

definition validateConsumer_defaults :: "ConsumerConfig \<Rightarrow> ConsumerConfig" where
  "validateConsumer_defaults k =
     (let k = (if cc_Concurrency k = 0 then k\<lparr>cc_Concurrency := defaultConcurrency\<rparr> else k);
          k = (if cc_ClaimInterval k = 0 then k\<lparr>cc_ClaimInterval := defaultClaimInterval\<rparr> else k);
          k = (if cc_ClaimMinIdle k = 0 then k\<lparr>cc_ClaimMinIdle := defaultClaimMinIdle\<rparr> else k);
          k = (if cc_MaxDeliveryAttempts k = 0
               then k\<lparr>cc_MaxDeliveryAttempts := defaultMaxDeliveryAttempts\<rparr> else k)
      in (if cc_ShutdownTimeout k = 0 then k\<lparr>cc_ShutdownTimeout := defaultShutdownTimeout\<rparr> else k))"

definition validateConsumer ::
    "goerr + string \<Rightarrow> goerr + bytes \<Rightarrow> Config \<Rightarrow> goerr option \<times> Config" where
  "validateConsumer hostname suffix c =
     (let k = cfg_Consumer c in
      if cc_Group k = [] then
        (Some (cfg_error ''config: Consumer.Group is required for consumers''), c)
      else if cc_Concurrency k < 0 then
        (Some (ErrorString [Lit ''config: Consumer.Concurrency must not be negative, got '',
                            Dec (cc_Concurrency k)]), c)
      else if cc_ClaimInterval k < 0 then
        (Some (ErrorString [Lit ''config: Consumer.ClaimInterval must not be negative, got '',
                            Dur (cc_ClaimInterval k)]), c)
      else if cc_ClaimMinIdle k < 0 then
        (Some (ErrorString [Lit ''config: Consumer.ClaimMinIdle must not be negative, got '',
                            Dur (cc_ClaimMinIdle k)]), c)
      else if cc_ShutdownTimeout k < 0 then
        (Some (ErrorString [Lit ''config: Consumer.ShutdownTimeout must not be negative, got '',
                            Dur (cc_ShutdownTimeout k)]), c)
      else
        (let k = validateConsumer_defaults k;
             c = c\<lparr>cfg_Consumer := k\<rparr>;
             wc = worstCaseBackoff (cfg_Retry c)
         in if cc_ClaimMinIdle k < cc_ClaimInterval k then
              (Some (ErrorString [Lit ''config: Consumer.ClaimMinIdle ('', Dur (cc_ClaimMinIdle k),
                 Lit '') must be >= Consumer.ClaimInterval ('', Dur (cc_ClaimInterval k), Lit '')'']), c)
            else if wc \<ge> cc_ClaimMinIdle k then
              (Some (ErrorString [Lit ''config: worst-case retry backoff ('', Dur wc,
                 Lit '') must be < Consumer.ClaimMinIdle ('', Dur (cc_ClaimMinIdle k),
                 Lit ''); lower Retry.MaxImmediateRetries or Retry.MaxBackoff, or raise Consumer.ClaimMinIdle'']), c)
            else if cc_ConsumerName k = [] then
              (case defaultConsumerName hostname suffix of
                 Inl e \<Rightarrow> (Some e, c)
               | Inr name \<Rightarrow> (None, c\<lparr>cfg_Consumer := k\<lparr>cc_ConsumerName := name\<rparr>\<rparr>))
            else (None, c)))"

lemmas validate_defs [go_defs] =
  Validate_def Validate_Retry_defaults_def Validate_Telemetry_defaults_def cfg_error_def
  validateConsumer_def validateConsumer_defaults_def

section \<open>The backoff bound and its sum\<close>

text \<open>
  What a client of a backoff policy relies on: a bound per retry that is never negative, never
  above the cap, and never shrinks. Sleeps drawn below the bounds then add up to no more than
  the sum of the bounds, whichever prefix of the retries happens.
\<close>

locale backoff_policy =
  fixes wf :: "'c \<Rightarrow> bool"
    and bound :: "'c \<Rightarrow> nat \<Rightarrow> int"
    and cap :: "'c \<Rightarrow> int"
  assumes bound_nonneg: "wf c \<Longrightarrow> 0 \<le> bound c i"
    and bound_le_cap: "wf c \<Longrightarrow> bound c i \<le> cap c"
    and bound_mono: "wf c \<Longrightarrow> i \<le> j \<Longrightarrow> bound c i \<le> bound c j"
begin

lemma sum_bound_le: "wf c \<Longrightarrow> (\<Sum>i<n. bound c i) \<le> int n * cap c"
proof -
  assume "wf c"
  then have "(\<Sum>i<n. bound c i) \<le> (\<Sum>i<n. cap c)" by (intro sum_mono) (rule bound_le_cap)
  then show ?thesis by simp
qed

lemma sum_bound_mono: "wf c \<Longrightarrow> m \<le> n \<Longrightarrow> (\<Sum>i<m. bound c i) \<le> (\<Sum>i<n. bound c i)"
  by (rule sum_mono2) (auto intro: bound_nonneg)

lemma sleeps_le_sum:
  assumes "wf c" and "length ss \<le> n" and "\<And>i. i < length ss \<Longrightarrow> ss ! i \<le> bound c i"
  shows "sum_list ss \<le> (\<Sum>i<n. bound c i)"
proof -
  have "sum_list ss = (\<Sum>i<length ss. ss ! i)"
    by (simp add: sum_list_sum_nth atLeast0LessThan)
  also have "\<dots> \<le> (\<Sum>i<length ss. bound c i)"
    using assms(3) by (intro sum_mono) simp
  also have "\<dots> \<le> (\<Sum>i<n. bound c i)"
    using assms(1,2) by (rule sum_bound_mono)
  finally show ?thesis .
qed

end

text \<open>
  The retry settings on which the arithmetic does not overflow: the cap below $2^{62}$ ns (146
  years), so that one doubling of a value under it fits.
\<close>

definition retry_wf :: "RetryConfig \<Rightarrow> bool" where
  "retry_wf r \<longleftrightarrow> 0 \<le> rt_InitialBackoff r \<and> 0 \<le> rt_MaxBackoff r \<and> rt_MaxBackoff r \<le> 2 ^ 62"

lemma backoff_loop_min:
  assumes "rt_MaxBackoff r \<le> 2 ^ 62" and "0 \<le> d"
  shows "backoff_loop r k d = min (rt_MaxBackoff r) (d * 2 ^ k)"
  using assms(2)
proof (induction k arbitrary: d)
  case 0
  then show ?case by simp
next
  case (Suc k)
  show ?case
  proof (cases "rt_MaxBackoff r \<le> d")
    case True
    have "d * 1 \<le> d * 2 ^ Suc k" using Suc.prems one_le_power [of "2 :: int" "Suc k"] by (intro mult_left_mono) simp_all
    with True show ?thesis by simp
  next
    case False
    with assms(1) have "d < 2 ^ 62" by simp
    with Suc.prems have "int64 (d * 2)" by (simp add: int64_def)
    with False Suc show ?thesis by (simp add: mult.assoc)
  qed
qed

lemma backoffUpperBound_min:
  assumes "retry_wf r"
  shows "backoffUpperBound r (int i) = min (rt_MaxBackoff r) (rt_InitialBackoff r * 2 ^ i)"
  using assms backoff_loop_min [of r "rt_InitialBackoff r" i]
  by (simp add: retry_wf_def backoffUpperBound_def)

interpretation retry: backoff_policy retry_wf "\<lambda>r i. backoffUpperBound r (int i)" rt_MaxBackoff
proof
  fix r :: RetryConfig and i j :: nat
  assume wf: "retry_wf r"
  then show "0 \<le> backoffUpperBound r (int i)" and "backoffUpperBound r (int i) \<le> rt_MaxBackoff r"
    by (simp_all add: backoffUpperBound_min) (simp add: retry_wf_def)
  assume "i \<le> j"
  then have "rt_InitialBackoff r * 2 ^ i \<le> rt_InitialBackoff r * 2 ^ j"
    using wf by (intro mult_left_mono power_increasing) (simp_all add: retry_wf_def)
  then show "backoffUpperBound r (int i) \<le> backoffUpperBound r (int j)"
    using wf by (simp add: backoffUpperBound_min)
qed

lemma worst_case_loop_sum:
  assumes "retry_wf r" and "0 \<le> tot" and "tot + int k * rt_MaxBackoff r < 2 ^ 63"
  shows "worst_case_loop r i k tot = tot + (\<Sum>j<k. backoffUpperBound r (int (i + j)))"
  using assms(2,3)
proof (induction k arbitrary: i tot)
  case 0
  then show ?case by simp
next
  case (Suc k)
  let ?b = "backoffUpperBound r (int i)"
  have b: "0 \<le> ?b" "?b \<le> rt_MaxBackoff r"
    using retry.bound_nonneg retry.bound_le_cap assms(1) by blast+
  have le: "tot + ?b + int k * rt_MaxBackoff r < 2 ^ 63"
    using Suc.prems(2) b(2) by (simp add: algebra_simps)
  moreover have "0 \<le> int k * rt_MaxBackoff r"
    using assms(1) by (simp add: retry_wf_def)
  ultimately have "int64 (tot + ?b)"
    using Suc.prems(1) b(1) by (simp add: int64_def)
  then have "worst_case_loop r i (Suc k) tot = worst_case_loop r (Suc i) k (tot + ?b)"
    by simp
  also have "\<dots> = tot + ?b + (\<Sum>j<k. backoffUpperBound r (int (Suc i + j)))"
    using Suc.IH [of "tot + ?b" "Suc i"] Suc.prems(1) b(1) le by simp
  also have "\<dots> = tot + (\<Sum>j<Suc k. backoffUpperBound r (int (i + j)))"
    by (simp add: sum.lessThan_Suc_shift ac_simps del: sum.lessThan_Suc)
  finally show ?case .
qed

section \<open>What the validators establish\<close>

definition telemetry_ok :: "TelemetryConfig \<Rightarrow> bool" where
  "telemetry_ok t \<longleftrightarrow> tc_TracerProvider t \<noteq> None \<and> tc_MeterProvider t \<noteq> None
     \<and> tc_Propagator t \<noteq> None \<and> tc_Logger t \<noteq> None"

definition retry_ok :: "RetryConfig \<Rightarrow> bool" where
  "retry_ok r \<longleftrightarrow> 1 \<le> rt_MaxImmediateRetries r \<and> 0 < rt_InitialBackoff r \<and> 0 < rt_MaxBackoff r"

definition config_ok :: "Config \<Rightarrow> bool" where
  "config_ok c \<longleftrightarrow> cfg_Source c \<noteq> [] \<and> rc_Address (cfg_Redis c) \<noteq> [] \<and> cfg_StreamPrefix c \<noteq> []
     \<and> retry_ok (cfg_Retry c) \<and> telemetry_ok (cfg_Telemetry c)"

definition consumer_ok :: "Config \<Rightarrow> bool" where
  "consumer_ok c \<longleftrightarrow>
     (let k = cfg_Consumer c in
        cc_Group k \<noteq> [] \<and> cc_ConsumerName k \<noteq> [] \<and> 1 \<le> cc_Concurrency k
        \<and> 0 < cc_ClaimInterval k \<and> cc_ClaimInterval k \<le> cc_ClaimMinIdle k
        \<and> 0 < cc_ShutdownTimeout k \<and> cc_MaxDeliveryAttempts k \<noteq> 0
        \<and> worstCaseBackoff (cfg_Retry c) < cc_ClaimMinIdle k)"

lemmas ok_defs = config_ok_def consumer_ok_def retry_ok_def telemetry_ok_def

lemma Validate_Retry_defaults_ok:
  "0 \<le> rt_MaxImmediateRetries r \<Longrightarrow> 0 \<le> rt_InitialBackoff r \<Longrightarrow> 0 \<le> rt_MaxBackoff r \<Longrightarrow>
   retry_ok (Validate_Retry_defaults r)"
  by (simp add: Validate_Retry_defaults_def retry_ok_def Let_def)

lemma Validate_Retry_defaults_idem: "retry_ok r \<Longrightarrow> Validate_Retry_defaults r = r"
  by (simp add: Validate_Retry_defaults_def retry_ok_def Let_def)

lemma Validate_Telemetry_defaults_ok: "telemetry_ok (Validate_Telemetry_defaults t)"
  by (simp add: Validate_Telemetry_defaults_def telemetry_ok_def Let_def split: option.split)

lemma Validate_Telemetry_defaults_idem: "telemetry_ok t \<Longrightarrow> Validate_Telemetry_defaults t = t"
  by (auto simp: Validate_Telemetry_defaults_def telemetry_ok_def Let_def)

lemma Validate_success:
  assumes "Validate g c = (None, c')"
  shows "config_ok c'" and "cfg_Consumer c' = cfg_Consumer c" and "cfg_Source c' = cfg_Source c"
    and "cfg_Retry c' = Validate_Retry_defaults (cfg_Retry c)"
    and "rc_PoolSize (cfg_Redis c') =
           (if rc_PoolSize (cfg_Redis c) = 0 then wrap64 (10 * g) else rc_PoolSize (cfg_Redis c))"
  using assms Validate_Retry_defaults_ok [of "cfg_Retry c"] Validate_Telemetry_defaults_ok
  by (auto simp: Validate_def config_ok_def Let_def defaultPoolSizeMultiplier_def split: if_splits)

lemma Validate_idem:
  assumes "config_ok c" and "rc_PoolSize (cfg_Redis c) = 0 \<longrightarrow> wrap64 (10 * g) = 0"
  shows "Validate g c = (None, c)"
  using assms
  by (auto simp: Validate_def config_ok_def Let_def defaultPoolSizeMultiplier_def retry_ok_def
      Validate_Retry_defaults_idem Validate_Telemetry_defaults_idem)

text \<open>
  A configuration that \<open>Validate\<close> accepts satisfies every requirement of the publish path
  (source, address and prefix non-empty; at least one immediate retry; positive backoffs; every
  telemetry collaborator set), its consumer section is untouched, and validating it again changes
  nothing.
\<close>

theorem Validate_establishes_ok:
  assumes "Validate g c = (None, c')"
  shows "config_ok c' \<and> cfg_Consumer c' = cfg_Consumer c \<and> Validate g c' = (None, c')"
  using Validate_success [OF assms] by (auto intro!: Validate_idem split: if_splits)

definition minimal_config :: Config where
  "minimal_config =
     \<lparr>cfg_Source = ''billing.service'', cfg_StreamPrefix = [],
      cfg_Redis = \<lparr>rc_Address = ''redis:6379'', rc_Username = [], rc_Password = [], rc_TLS = None,
                   rc_DB = 0, rc_PoolSize = 0\<rparr>,
      cfg_Consumer = \<lparr>cc_Group = ''billing-service'', cc_ConsumerName = [], cc_Concurrency = 0,
                      cc_ClaimInterval = 0, cc_ClaimMinIdle = 0, cc_MaxDeliveryAttempts = 0,
                      cc_ShutdownTimeout = 0\<rparr>,
      cfg_Retry = \<lparr>rt_MaxImmediateRetries = 0, rt_InitialBackoff = 0, rt_MaxBackoff = 0\<rparr>,
      cfg_Telemetry = \<lparr>tc_TracerProvider = None, tc_MeterProvider = None, tc_Propagator = None,
                       tc_Logger = None, tc_LogPayloads = False\<rparr>\<rparr>"

theorem Validate_establishes_ok_witness:
  "\<exists>c'. Validate 8 minimal_config = (None, c') \<and> config_ok c'"
proof -
  have "fst (Validate 8 minimal_config) = None"
    by (simp add: Validate_def minimal_config_def Let_def)
  then obtain c' where "Validate 8 minimal_config = (None, c')"
    by (cases "Validate 8 minimal_config") auto
  with Validate_establishes_ok [OF this] show ?thesis by blast
qed

lemma defaultConsumerName_not_Nil: "defaultConsumerName h s = Inr n \<Longrightarrow> n \<noteq> []"
  by (auto simp: defaultConsumerName_def Let_def split: sum.splits)

lemma validateConsumer_defaults_idem:
  "cc_Concurrency k \<noteq> 0 \<Longrightarrow> cc_ClaimInterval k \<noteq> 0 \<Longrightarrow> cc_ClaimMinIdle k \<noteq> 0 \<Longrightarrow>
   cc_MaxDeliveryAttempts k \<noteq> 0 \<Longrightarrow> cc_ShutdownTimeout k \<noteq> 0 \<Longrightarrow> validateConsumer_defaults k = k"
  by (simp add: validateConsumer_defaults_def Let_def)

lemma validateConsumer_defaults_fields:
  "cc_Group (validateConsumer_defaults k) = cc_Group k"
  "cc_ConsumerName (validateConsumer_defaults k) = cc_ConsumerName k"
  "cc_Concurrency (validateConsumer_defaults k) =
     (if cc_Concurrency k = 0 then 1 else cc_Concurrency k)"
  "cc_ClaimInterval (validateConsumer_defaults k) =
     (if cc_ClaimInterval k = 0 then 30 * Second else cc_ClaimInterval k)"
  "cc_ClaimMinIdle (validateConsumer_defaults k) =
     (if cc_ClaimMinIdle k = 0 then 60 * Second else cc_ClaimMinIdle k)"
  "cc_MaxDeliveryAttempts (validateConsumer_defaults k) =
     (if cc_MaxDeliveryAttempts k = 0 then 5 else cc_MaxDeliveryAttempts k)"
  "cc_ShutdownTimeout (validateConsumer_defaults k) =
     (if cc_ShutdownTimeout k = 0 then 30 * Second else cc_ShutdownTimeout k)"
  by (simp_all add: validateConsumer_defaults_def Let_def default_defs)

lemma validateConsumer_success:
  assumes "validateConsumer h s c = (None, c')"
  shows "consumer_ok c'"
    and "cfg_Retry c' = cfg_Retry c" and "cfg_Source c' = cfg_Source c"
    and "cfg_StreamPrefix c' = cfg_StreamPrefix c" and "cfg_Redis c' = cfg_Redis c"
    and "cfg_Telemetry c' = cfg_Telemetry c"
    and "cc_MaxDeliveryAttempts (cfg_Consumer c') =
           cc_MaxDeliveryAttempts (validateConsumer_defaults (cfg_Consumer c))"
  using assms defaultConsumerName_not_Nil [of h s]
  by (auto simp: validateConsumer_def consumer_ok_def Let_def validateConsumer_defaults_fields
      split: if_splits sum.splits)

lemma validateConsumer_idem: "consumer_ok c \<Longrightarrow> validateConsumer h s c = (None, c)"
  by (auto simp: validateConsumer_def consumer_ok_def Let_def validateConsumer_defaults_idem)

text \<open>
  C33. A configuration that \<open>validateConsumer\<close> accepts has a group and a consumer name, positive
  concurrency and durations, \<open>ClaimMinIdle\<close> at least \<open>ClaimInterval\<close> and above the computed
  worst-case backoff; validating it again, on any host, changes nothing.
\<close>

theorem validateConsumer_establishes_ok:
  assumes "validateConsumer h s c = (None, c')"
  shows "consumer_ok c' \<and> validateConsumer h' s' c' = (None, c')"
  using validateConsumer_success(1) [OF assms] by (auto intro: validateConsumer_idem)

definition validated_minimal :: Config where
  "validated_minimal = snd (Validate 8 minimal_config)"

definition minimal_consumer :: Config where
  "minimal_consumer = snd (validateConsumer (Inr ''host'') (Inr ''abc'') validated_minimal)"

lemma validated_minimal_simps [simp]:
  "cfg_Retry validated_minimal =
     \<lparr>rt_MaxImmediateRetries = 3, rt_InitialBackoff = 100000000, rt_MaxBackoff = 5000000000\<rparr>"
  "cfg_Consumer validated_minimal = cfg_Consumer minimal_config"
  "config_ok validated_minimal"
  by (simp_all add: validated_minimal_def go_defs minimal_config_def ok_defs)

lemma default_worstCaseBackoff [simp]:
  "worstCaseBackoff \<lparr>rt_MaxImmediateRetries = 3, rt_InitialBackoff = 100000000,
     rt_MaxBackoff = 5000000000\<rparr> = 700 * Millisecond"
  by (simp add: worstCaseBackoff_def backoffUpperBound_def eval_nat_numeral wrap64_def)

lemma validate_minimal_consumer:
  "validateConsumer (Inr ''host'') (Inr ''abc'') validated_minimal = (None, minimal_consumer)"
proof -
  have "fst (validateConsumer (Inr ''host'') (Inr ''abc'') validated_minimal) = None"
    by (simp add: validateConsumer_def validateConsumer_defaults_fields defaultConsumerName_def
        minimal_config_def Let_def)
  then show ?thesis unfolding minimal_consumer_def by (metis prod.collapse)
qed

theorem validateConsumer_establishes_ok_witness:
  "consumer_ok minimal_consumer
   \<and> validateConsumer (Inl (OpaqueError ''x'')) (Inr []) minimal_consumer = (None, minimal_consumer)"
  using validateConsumer_establishes_ok [OF validate_minimal_consumer] by blast

text \<open>
  C32. The reclaim guard is sound where the arithmetic fits: for an accepted configuration with
  \<open>MaxBackoff\<close> at most $2^{62}$ ns and \<open>MaxImmediateRetries * MaxBackoff\<close> below $2^{63}$, the
  number \<open>worstCaseBackoff\<close> computes is the exact sum of the capped exponential bounds
  \<open>min MaxBackoff (InitialBackoff * 2^i)\<close> over all retries, and it is below \<open>ClaimMinIdle\<close>.
\<close>

theorem worstCaseBackoff_exact:
  assumes "Validate g c0 = (None, c)" and "validateConsumer h s c = (None, c')"
    and "rt_MaxBackoff (cfg_Retry c') \<le> 2 ^ 62"
    and "rt_MaxImmediateRetries (cfg_Retry c') * rt_MaxBackoff (cfg_Retry c') < 2 ^ 63"
  shows "worstCaseBackoff (cfg_Retry c') =
           (\<Sum>i<nat (rt_MaxImmediateRetries (cfg_Retry c')).
              min (rt_MaxBackoff (cfg_Retry c')) (rt_InitialBackoff (cfg_Retry c') * 2 ^ i))
         \<and> worstCaseBackoff (cfg_Retry c') < cc_ClaimMinIdle (cfg_Consumer c')"
proof -
  let ?r = "cfg_Retry c'"
  have "retry_ok ?r"
    using Validate_success(1) [OF assms(1)] validateConsumer_success(2) [OF assms(2)]
    by (simp add: config_ok_def)
  then have wf: "retry_wf ?r" and n: "0 \<le> rt_MaxImmediateRetries ?r"
    using assms(3) by (simp_all add: retry_wf_def retry_ok_def)
  have "worstCaseBackoff ?r =
      (\<Sum>i<nat (rt_MaxImmediateRetries ?r). backoffUpperBound ?r (int (0 + i)))"
    unfolding worstCaseBackoff_def using worst_case_loop_sum [OF wf, of 0] n assms(4) by simp
  then show ?thesis
    using wf validateConsumer_success(1) [OF assms(2)]
    by (simp add: backoffUpperBound_min consumer_ok_def Let_def)
qed

theorem worstCaseBackoff_exact_witness:
  "worstCaseBackoff (cfg_Retry minimal_consumer) = 700 * Millisecond
   \<and> 700 * Millisecond < cc_ClaimMinIdle (cfg_Consumer minimal_consumer)"
proof -
  have v: "Validate 8 minimal_config = (None, validated_minimal)"
    by (simp add: validated_minimal_def go_defs minimal_config_def)
  have r: "cfg_Retry minimal_consumer = cfg_Retry validated_minimal"
    by (rule validateConsumer_success(2) [OF validate_minimal_consumer])
  show ?thesis using worstCaseBackoff_exact [OF v validate_minimal_consumer] by (simp add: r)
qed

definition overflow_config :: Config where
  "overflow_config = validated_minimal\<lparr>cfg_Retry :=
     \<lparr>rt_MaxImmediateRetries = 2, rt_InitialBackoff = 2 ^ 62, rt_MaxBackoff = 2 ^ 62\<rparr>\<rparr>"

text \<open>
  C34. Outside that range the guard can be bypassed: two retries of $2^{62}$ ns each add up to
  $2^{63}$, which wraps to a negative total, so a configuration whose worst-case backoff is far
  above \<open>ClaimMinIdle\<close> is accepted.
\<close>

theorem worstCaseBackoff_overflow:
  "config_ok overflow_config
   \<and> worstCaseBackoff (cfg_Retry overflow_config) = - (2 ^ 63)
   \<and> (\<exists>c'. validateConsumer (Inr ''host'') (Inr ''abc'') overflow_config = (None, c')
        \<and> cc_ClaimMinIdle (cfg_Consumer c') < (\<Sum>i<nat (rt_MaxImmediateRetries (cfg_Retry c')).
              min (rt_MaxBackoff (cfg_Retry c')) (rt_InitialBackoff (cfg_Retry c') * 2 ^ i)))"
proof -
  let ?v = "validateConsumer (Inr ''host'') (Inr ''abc'') overflow_config"
  have ok: "config_ok overflow_config"
    using validated_minimal_simps(3) by (simp add: overflow_config_def ok_defs)
  have wc: "worstCaseBackoff (cfg_Retry overflow_config) = - (2 ^ 63)"
    by (simp add: overflow_config_def worstCaseBackoff_def backoffUpperBound_def eval_nat_numeral
        wrap64_def)
  have "fst ?v = None"
    using wc by (simp add: validateConsumer_def validateConsumer_defaults_fields
        defaultConsumerName_def overflow_config_def minimal_config_def Let_def)
  then obtain c' where v: "?v = (None, c')" by (cases ?v) auto
  then have "cc_ClaimMinIdle (cfg_Consumer c') = 60 * Second"
    by (auto simp: validateConsumer_def validateConsumer_defaults_fields overflow_config_def
        minimal_config_def Let_def split: if_splits sum.splits)
  moreover have "cfg_Retry c' = cfg_Retry overflow_config"
    by (rule validateConsumer_success(2) [OF v])
  ultimately have "cc_ClaimMinIdle (cfg_Consumer c') < (\<Sum>i<nat (rt_MaxImmediateRetries (cfg_Retry c')).
              min (rt_MaxBackoff (cfg_Retry c')) (rt_InitialBackoff (cfg_Retry c') * 2 ^ i))"
    by (simp add: overflow_config_def eval_nat_numeral)
  with ok wc v show ?thesis by blast
qed

end
