(* ===== verification/Envelope.thy ===== *)
theory Envelope
  imports Regexp Config
begin

text \<open>
  \<open>eventdef.go\<close>, \<open>envelope.go\<close> and \<open>validation.go\<close>: event contracts, the envelope around a
  payload, the two format patterns, and \<open>validateEnvelope\<close>. A \<open>time.Time\<close> is its distance in
  nanoseconds from the zero time together with its zone offset in seconds, which is what
  \<open>IsZero\<close>, comparison and formatting depend on.
\<close>

section \<open>Data\<close>

record EventDef =
  def_Topic :: string
  def_Type :: string
  def_Version :: string

record gotime =
  ns_since_zero :: int
  zone_offset :: int

definition IsZero :: "gotime \<Rightarrow> bool" where
  "IsZero t \<longleftrightarrow> ns_since_zero t = 0"

definition UTC :: "gotime \<Rightarrow> gotime" where
  "UTC t = t\<lparr>zone_offset := 0\<rparr>"

definition zero_time :: gotime where
  "zero_time = \<lparr>ns_since_zero = 0, zone_offset = 0\<rparr>"

record 'p Envelope =
  ev_EventID :: string
  ev_EventType :: string
  ev_Timestamp :: gotime
  ev_SchemaVersion :: string
  ev_CorrelationID :: string
  ev_Source :: string
  ev_Payload :: 'p

text \<open>A new envelope; the results of \<open>uuid.NewV7\<close> and \<open>time.Now\<close> are arguments.\<close>

definition newEnvelope ::
    "goerr + string \<Rightarrow> gotime \<Rightarrow> EventDef \<Rightarrow> string \<Rightarrow> string \<Rightarrow> 'p \<Rightarrow> goerr + 'p Envelope" where
  "newEnvelope uuid now def source correlationID payload =
     (case uuid of
        Inl e \<Rightarrow> Inl (WrapError [Lit ''generating event id: ''] e)
      | Inr i \<Rightarrow> Inr \<lparr>ev_EventID = i, ev_EventType = def_Type def, ev_Timestamp = UTC now,
                     ev_SchemaVersion = def_Version def, ev_CorrelationID = correlationID,
                     ev_Source = source, ev_Payload = payload\<rparr>)"

section \<open>The format patterns\<close>

definition lower :: "char \<Rightarrow> bool" where
  "lower c \<longleftrightarrow> 97 \<le> ord c \<and> ord c \<le> 122"

definition word_char :: "char \<Rightarrow> bool" where
  "word_char c \<longleftrightarrow> lower c \<or> is_digit c \<or> c = CHR ''_''"

definition dot :: "char \<Rightarrow> bool" where
  "dot c \<longleftrightarrow> c = CHR ''.''"

text \<open>\<open>[a-z][a-z0-9_]*\<close>\<close>

definition segment_re :: regexp where
  "segment_re = Cat (Class lower) (Rep (Class word_char))"

text \<open>\<open>^[a-z][a-z0-9_]*(\.[a-z][a-z0-9_]*){1,2}$\<close>\<close>

definition eventTypePattern :: regexp where
  "eventTypePattern =
     (let dotted = Cat (Class dot) segment_re
      in Cat segment_re (Cat dotted (Alt Empty dotted)))"

text \<open>\<open>^\d+\.\d+\.\d+$\<close>\<close>

definition schemaVersionPattern :: regexp where
  "schemaVersionPattern =
     (let digits = Cat (Class is_digit) (Rep (Class is_digit)); d = Class dot
      in Cat digits (Cat d (Cat digits (Cat d digits))))"

section \<open>validateEnvelope\<close>

definition validateEnvelope :: "'p Envelope \<Rightarrow> goerr option" where
  "validateEnvelope e =
     (if ev_EventID e = [] then Some (ErrorString [Lit ''envelope: event_id is required''])
      else if ev_EventType e = [] then Some (ErrorString [Lit ''envelope: event_type is required''])
      else if \<not> MatchString eventTypePattern (ev_EventType e) then
        Some (ErrorString [Lit ''envelope: event_type '', Quoted (ev_EventType e),
                           Lit '' must be 2-3 dot-separated lowercase segments''])
      else if ev_SchemaVersion e = [] then
        Some (ErrorString [Lit ''envelope: schema_version is required''])
      else if \<not> MatchString schemaVersionPattern (ev_SchemaVersion e) then
        Some (ErrorString [Lit ''envelope: schema_version '', Quoted (ev_SchemaVersion e),
                           Lit '' must be MAJOR.MINOR.PATCH''])
      else if ev_Source e = [] then Some (ErrorString [Lit ''envelope: source is required''])
      else if ev_CorrelationID e = [] then
        Some (ErrorString [Lit ''envelope: correlation_id is required''])
      else if IsZero (ev_Timestamp e) then
        Some (ErrorString [Lit ''envelope: timestamp is required''])
      else None)"

section \<open>What the patterns accept\<close>

definition segment :: "string \<Rightarrow> bool" where
  "segment s \<longleftrightarrow> (\<exists>c t. s = c # t \<and> lower c \<and> list_all word_char t)"

definition number :: "string \<Rightarrow> bool" where
  "number s \<longleftrightarrow> s \<noteq> [] \<and> list_all is_digit s"

lemma matches_segment_re: "matches segment_re s \<longleftrightarrow> segment s"
  by (simp add: segment_re_def matches_Cat_Class matches_Rep_Class segment_def)

lemma matches_digits:
  "matches (Cat (Class is_digit) (Rep (Class is_digit))) s \<longleftrightarrow> number s"
  by (cases s) (auto simp: matches_Cat_Class matches_Rep_Class number_def)

lemma matches_dotted:
  "matches (Cat (Class dot) q) s \<longleftrightarrow> (\<exists>t. s = CHR ''.'' # t \<and> matches q t)"
  by (auto simp: matches_Cat_Class dot_def)

lemma matches_dotted_Cat:
  "matches (Cat (Cat (Class dot) r) q) s \<longleftrightarrow>
     (\<exists>t u. s = CHR ''.'' # t @ u \<and> matches r t \<and> matches q u)"
proof
  assume "\<exists>t u. s = CHR ''.'' # t @ u \<and> matches r t \<and> matches q u"
  then obtain t u where "s = (CHR ''.'' # t) @ u" and "matches (Cat (Class dot) r) (CHR ''.'' # t)"
    and "matches q u" by (auto simp: matches_dotted)
  then show "matches (Cat (Cat (Class dot) r) q) s" by (metis m_Cat)
qed (auto simp: matches_Cat [of "Cat (Class dot) r"] matches_dotted, blast)

lemma eventTypePattern_iff:
  "MatchString eventTypePattern s \<longleftrightarrow>
     (\<exists>a b. segment a \<and> segment b \<and> (s = a @ ''.'' @ b
        \<or> (\<exists>c. segment c \<and> s = a @ ''.'' @ b @ ''.'' @ c)))"
  unfolding MatchString_iff eventTypePattern_def Let_def
  by (auto simp: matches_Cat [of segment_re] matches_dotted_Cat matches_dotted matches_segment_re
      matches_Alt) blast+

lemma schemaVersionPattern_iff:
  "MatchString schemaVersionPattern s \<longleftrightarrow>
     (\<exists>a b c. number a \<and> number b \<and> number c \<and> s = a @ ''.'' @ b @ ''.'' @ c)"
  unfolding MatchString_iff schemaVersionPattern_def Let_def
  by (auto simp: matches_Cat [of "Cat (Class is_digit) (Rep (Class is_digit))"] matches_dotted
      matches_digits) blast+

definition event_type_ok :: "string \<Rightarrow> bool" where
  "event_type_ok s \<longleftrightarrow>
     (\<exists>a b. segment a \<and> segment b \<and> (s = a @ ''.'' @ b
        \<or> (\<exists>c. segment c \<and> s = a @ ''.'' @ b @ ''.'' @ c)))"

definition version_ok :: "string \<Rightarrow> bool" where
  "version_ok s \<longleftrightarrow> (\<exists>a b c. number a \<and> number b \<and> number c \<and> s = a @ ''.'' @ b @ ''.'' @ c)"

lemma event_type_ok_iff: "MatchString eventTypePattern s \<longleftrightarrow> event_type_ok s"
  by (simp add: eventTypePattern_iff event_type_ok_def)

lemma version_ok_iff: "MatchString schemaVersionPattern s \<longleftrightarrow> version_ok s"
  by (simp add: schemaVersionPattern_iff version_ok_def)

lemma event_type_ok_Nil [simp]: "\<not> event_type_ok []"
  by (auto simp: event_type_ok_def)

lemma version_ok_Nil [simp]: "\<not> version_ok []"
  by (auto simp: version_ok_def)

definition envelope_ok :: "'p Envelope \<Rightarrow> bool" where
  "envelope_ok e \<longleftrightarrow> ev_EventID e \<noteq> [] \<and> event_type_ok (ev_EventType e)
     \<and> version_ok (ev_SchemaVersion e) \<and> ev_Source e \<noteq> [] \<and> ev_CorrelationID e \<noteq> []
     \<and> \<not> IsZero (ev_Timestamp e)"

lemma validateEnvelope_None: "validateEnvelope e = None \<longleftrightarrow> envelope_ok e"
  by (auto simp: validateEnvelope_def envelope_ok_def event_type_ok_iff version_ok_iff)

text \<open>
  C38. \<open>validateEnvelope\<close> accepts exactly the envelopes with a non-empty id, source and correlation
  id, a non-zero timestamp, an event type of two or three dot-separated segments each starting
  with a lowercase letter and continuing with lowercase letters, digits or underscores, and a
  schema version of three dot-separated runs of digits.
\<close>

theorem validateEnvelope_accepts:
  "validateEnvelope e = None \<longleftrightarrow>
     ev_EventID e \<noteq> [] \<and> ev_Source e \<noteq> [] \<and> ev_CorrelationID e \<noteq> []
     \<and> ns_since_zero (ev_Timestamp e) \<noteq> 0
     \<and> (\<exists>a b. segment a \<and> segment b \<and>
          (ev_EventType e = a @ ''.'' @ b
           \<or> (\<exists>c. segment c \<and> ev_EventType e = a @ ''.'' @ b @ ''.'' @ c)))
     \<and> (\<exists>a b c. number a \<and> number b \<and> number c \<and> ev_SchemaVersion e = a @ ''.'' @ b @ ''.'' @ c)"
  unfolding validateEnvelope_None envelope_ok_def event_type_ok_def version_ok_def IsZero_def
  by blast

end
