(* ===== verification/Context.thy ===== *)
theory Context
  imports Errors
begin

text \<open>
  \<open>context.go\<close> and the context part of \<open>internal/testseam\<close>: the values a \<open>context.Context\<close>
  carries for the library, namely a correlation id, the trace context the propagator extracted,
  and the probe of a test delivery. Cancellation is a property of the environment, not a value,
  and is asked from it where the code reads \<open>ctx.Err\<close> or \<open>ctx.Done\<close>.
\<close>

record ctx_values =
  ctx_correlationID :: "string option"
  ctx_trace :: string

text \<open>
  The inputs of a \<open>testseam.Probe\<close>; the verdict fields a delivery writes back are part of the
  observable state (theory \<open>Telemetry\<close>). \<open>'w\<close> is the state of everything outside the library.
\<close>

record 'w probe =
  NoBackoff :: bool
  Sink :: "(ctx_values \<Rightarrow> string \<Rightarrow> bytes \<Rightarrow> 'w \<Rightarrow> goerr option \<times> 'w) option"

record 'w ctx = ctx_values +
  ctx_probe :: "'w probe option"

definition contextWithCorrelationID :: "'w ctx \<Rightarrow> string \<Rightarrow> 'w ctx" where
  "contextWithCorrelationID c i = c\<lparr>ctx_correlationID := Some i\<rparr>"

definition correlationIDFromContext :: "'w ctx \<Rightarrow> string option" where
  "correlationIDFromContext c = ctx_correlationID c"

definition NewContext :: "'w ctx \<Rightarrow> 'w probe \<Rightarrow> 'w ctx" where
  "NewContext c p = c\<lparr>ctx_probe := Some p\<rparr>"

definition FromContext :: "'w ctx \<Rightarrow> 'w probe option" where
  "FromContext c = ctx_probe c"

lemma context_values [simp]:
  "correlationIDFromContext (contextWithCorrelationID c i) = Some i"
  "FromContext (contextWithCorrelationID c i) = FromContext c"
  "FromContext (NewContext c p) = Some p"
  "correlationIDFromContext (NewContext c p) = correlationIDFromContext c"
  by (simp_all add: contextWithCorrelationID_def correlationIDFromContext_def NewContext_def
      FromContext_def)

end
