(* ===== verification/Registry.thy ===== *)
theory Registry
  imports Envelope Context
begin

text \<open>
  \<open>registry.go\<close> and \<open>handler.go\<close>: handlers as the consume path sees them, the registry, the major component of a schema version, and the erasure of a
  typed handler. Go maps are association lists with distinct keys; a handler is a function of the
  context, the envelope and the state \<open>'w\<close> of everything outside the library, which it may
  change, and which ends by returning an error value or by panicking.
\<close>

section \<open>Handlers\<close>

datatype 'a go = Ret 'a | Panic

type_synonym raw_envelope = "bytes Envelope"
type_synonym ('p, 'w) Handler = "'w ctx \<Rightarrow> 'p Envelope \<Rightarrow> 'w \<Rightarrow> goerr option go \<times> 'w"
type_synonym 'w dispatchFunc = "(bytes, 'w) Handler"

record TopicSelector =
  sel_Topic :: string

section \<open>The registry\<close>

record routeKey =
  rk_topic :: string
  rk_eventType :: string
  rk_major :: int

record 'w registry =
  reg_typed :: "(routeKey \<times> 'w dispatchFunc) list"
  reg_raw :: "(string \<times> 'w dispatchFunc) list"
  reg_topics :: "string list"

definition newRegistry :: "'w registry" where
  "newRegistry = \<lparr>reg_typed = [], reg_raw = [], reg_topics = []\<rparr>"

definition addTyped ::
    "string \<Rightarrow> string \<Rightarrow> int \<Rightarrow> 'w dispatchFunc \<Rightarrow> 'w registry \<Rightarrow> goerr option \<times> 'w registry" where
  "addTyped topic eventType major fn r =
     (if map_of (reg_raw r) topic \<noteq> None then
        (Some (ErrorString [Lit ''registry: topic '', Quoted topic, Lit '' already has a raw handler; a topic may have typed handlers or one raw handler, not both'']), r)
      else
        (let key = \<lparr>rk_topic = topic, rk_eventType = eventType, rk_major = major\<rparr> in
         if map_of (reg_typed r) key \<noteq> None then
           (Some (ErrorString [Lit ''registry: a handler is already registered for topic '', Quoted topic,
              Lit '', event type '', Quoted eventType, Lit '', major version '', Dec major]), r)
         else (None, r\<lparr>reg_typed := (key, fn) # reg_typed r,
                       reg_topics := List.insert topic (reg_topics r)\<rparr>)))"

definition addRaw :: "string \<Rightarrow> 'w dispatchFunc \<Rightarrow> 'w registry \<Rightarrow> goerr option \<times> 'w registry" where
  "addRaw topic fn r =
     (if map_of (reg_raw r) topic \<noteq> None then
        (Some (ErrorString [Lit ''registry: topic '', Quoted topic, Lit '' already has a raw handler'']), r)
      else if list_ex (\<lambda>(key, _). rk_topic key = topic) (reg_typed r) then
        (Some (ErrorString [Lit ''registry: topic '', Quoted topic, Lit '' already has typed handlers; a topic may have typed handlers or one raw handler, not both'']), r)
      else (None, r\<lparr>reg_raw := (topic, fn) # reg_raw r,
                    reg_topics := List.insert topic (reg_topics r)\<rparr>))"

datatype routeMatch = MatchNone | MatchTyped | MatchRaw

definition lookup ::
    "'w registry \<Rightarrow> string \<Rightarrow> string \<Rightarrow> int \<Rightarrow> 'w dispatchFunc option \<times> routeMatch" where
  "lookup r topic eventType major =
     (case map_of (reg_raw r) topic of
        Some fn \<Rightarrow> (Some fn, MatchRaw)
      | None \<Rightarrow>
          (case map_of (reg_typed r)
                  \<lparr>rk_topic = topic, rk_eventType = eventType, rk_major = major\<rparr> of
             Some fn \<Rightarrow> (Some fn, MatchTyped)
           | None \<Rightarrow> (None, MatchNone)))"

text \<open>Go visits the keys of a map in an unspecified order: the order is an argument.\<close>

definition topicList :: "(string list \<Rightarrow> string list) \<Rightarrow> 'w registry \<Rightarrow> string list" where
  "topicList map_order r = map_order (reg_topics r)"

definition isEmpty :: "'w registry \<Rightarrow> bool" where
  "isEmpty r \<longleftrightarrow> length (reg_topics r) = 0"

section \<open>Versions and typed handlers\<close>

definition num_error_text :: "num_error \<Rightarrow> string" where
  "num_error_text e = (case e of ErrSyntax \<Rightarrow> ''invalid syntax'' | ErrRange \<Rightarrow> ''value out of range'')"

definition majorVersion :: "string \<Rightarrow> goerr + int" where
  "majorVersion schemaVersion =
     (case Cut schemaVersion (CHR ''.'') of
        (seg, _, found) \<Rightarrow>
          if \<not> found then
            Inl (ErrorString [Lit ''schema version '', Quoted schemaVersion,
                              Lit '' is not MAJOR.MINOR.PATCH''])
          else (case ParseInt seg of
                  Inl e \<Rightarrow>
                    Inl (WrapError [Lit ''schema version '', Quoted schemaVersion,
                                    Lit '' has a non-numeric major component: '']
                          (WrapError [Lit ''strconv.Atoi: parsing '', Quoted seg, Lit '': '']
                             (Sentinel (num_error_text e))))
                | Inr major \<Rightarrow> Inr major))"

text \<open>
  \<open>typedDispatch\<close>: \<open>zero\<close> is the zero value of the payload type and \<open>unmarshal\<close> decodes JSON into
  it, both given by the application's type.
\<close>

definition typedDispatch ::
    "'p \<Rightarrow> (bytes \<Rightarrow> goerr + 'p) \<Rightarrow> ('p, 'w) Handler \<Rightarrow> 'w dispatchFunc" where
  "typedDispatch zero unmarshal h = (\<lambda>ctx raw w.
     (let payload = (if length (ev_Payload raw) > 0 then unmarshal (ev_Payload raw) else Inr zero) in
      case payload of
        Inl e \<Rightarrow> (Ret (Some (WrapError [Lit ''unmarshalling payload for event type '',
                                         Quoted (ev_EventType raw), Lit '': ''] e)), w)
      | Inr p \<Rightarrow> h ctx \<lparr>ev_EventID = ev_EventID raw, ev_EventType = ev_EventType raw,
                          ev_Timestamp = ev_Timestamp raw, ev_SchemaVersion = ev_SchemaVersion raw,
                          ev_CorrelationID = ev_CorrelationID raw, ev_Source = ev_Source raw,
                          ev_Payload = p\<rparr> w))"

section \<open>What dispatch relies on\<close>

text \<open>A registration request, and the interface of a routing table that answers such requests.\<close>

datatype 'f registration = Typed string string int 'f | Raw string 'f

locale route_table =
  fixes invar :: "'r \<Rightarrow> bool"
    and empty :: 'r
    and insert_typed :: "string \<Rightarrow> string \<Rightarrow> int \<Rightarrow> 'f \<Rightarrow> 'r \<Rightarrow> 'e option \<times> 'r"
    and insert_raw :: "string \<Rightarrow> 'f \<Rightarrow> 'r \<Rightarrow> 'e option \<times> 'r"
    and find :: "'r \<Rightarrow> string \<Rightarrow> string \<Rightarrow> int \<Rightarrow> 'f option \<times> routeMatch"
    and subjects :: "'r \<Rightarrow> string set"
  assumes invar_empty: "invar empty"
    and find_empty: "find empty t e m = (None, MatchNone)"
    and typed_ok: "invar r \<Longrightarrow> insert_typed t e m f r = (None, r') \<Longrightarrow>
          invar r' \<and> find r t e m = (None, MatchNone) \<and> subjects r' = insert t (subjects r)
          \<and> (\<forall>t' e' m'. find r' t' e' m' =
               (if (t', e', m') = (t, e, m) then (Some f, MatchTyped) else find r t' e' m'))"
    and typed_refused: "insert_typed t e m f r = (Some err, r') \<Longrightarrow> r' = r"
    and raw_ok: "invar r \<Longrightarrow> insert_raw t f r = (None, r') \<Longrightarrow>
          invar r' \<and> (\<forall>e m. find r t e m = (None, MatchNone)) \<and> subjects r' = insert t (subjects r)
          \<and> (\<forall>t' e' m'. find r' t' e' m' =
               (if t' = t then (Some f, MatchRaw) else find r t' e' m'))"
    and raw_refused: "insert_raw t f r = (Some err, r') \<Longrightarrow> r' = r"
    and find_subject: "invar r \<Longrightarrow> find r t e m = (Some f, k) \<Longrightarrow> t \<in> subjects r"
begin

fun register :: "'f registration \<Rightarrow> 'r \<Rightarrow> 'r" where
  "register (Typed t e m f) r = snd (insert_typed t e m f r)"
| "register (Raw t f) r = snd (insert_raw t f r)"

lemma register_cases:
  assumes "invar r"
  shows "invar (register q r) \<and> subjects r \<subseteq> subjects (register q r)
    \<and> (find r t e m = (Some f, k) \<longrightarrow> find (register q r) t e m = (Some f, k))"
proof (cases q)
  case (Typed t' e' m' f')
  obtain res r' where i: "insert_typed t' e' m' f' r = (res, r')" by (cases "insert_typed t' e' m' f' r")
  show ?thesis
  proof (cases res)
    case None
    with i typed_ok [OF assms] Typed show ?thesis by auto
  next
    case (Some err)
    with i typed_refused have "r' = r" by blast
    with i Typed assms show ?thesis by simp
  qed
next
  case (Raw t' f')
  obtain res r' where i: "insert_raw t' f' r = (res, r')" by (cases "insert_raw t' f' r")
  show ?thesis
  proof (cases res)
    case None
    with i raw_ok [OF assms] Raw show ?thesis by auto
  next
    case (Some err)
    with i raw_refused have "r' = r" by blast
    with i Raw assms show ?thesis by simp
  qed
qed

lemma register_all:
  assumes "invar r"
  shows "invar (fold register qs r) \<and> subjects r \<subseteq> subjects (fold register qs r)
    \<and> (find r t e m = (Some f, k) \<longrightarrow> find (fold register qs r) t e m = (Some f, k))"
  using assms
proof (induction qs arbitrary: r)
  case (Cons q qs)
  with register_cases [OF Cons.prems, of q t e m f k] show ?case by fastforce
qed simp

end

section \<open>The registry is a routing table\<close>

definition reg_wf :: "'w registry \<Rightarrow> bool" where
  "reg_wf r \<longleftrightarrow> distinct (map fst (reg_typed r)) \<and> distinct (map fst (reg_raw r))
     \<and> distinct (reg_topics r)
     \<and> set (reg_topics r) = rk_topic ` fst ` set (reg_typed r) \<union> fst ` set (reg_raw r)
     \<and> rk_topic ` fst ` set (reg_typed r) \<inter> fst ` set (reg_raw r) = {}"

lemma map_of_None_fst: "map_of xs k = None \<longleftrightarrow> k \<notin> fst ` set xs"
  by (simp add: map_of_eq_None_iff)

lemma typed_on_topic:
  "list_ex (\<lambda>(key, _). rk_topic key = t) xs \<longleftrightarrow> t \<in> rk_topic ` fst ` set xs"
  by (auto simp: list_ex_iff image_iff) force

lemma addTyped_ok:
  assumes "reg_wf r" and "addTyped t e m f r = (None, r')"
  shows "reg_wf r' \<and> lookup r t e m = (None, MatchNone)
    \<and> set (reg_topics r') = insert t (set (reg_topics r))
    \<and> (\<forall>t' e' m'. lookup r' t' e' m' =
         (if (t', e', m') = (t, e, m) then (Some f, MatchTyped) else lookup r t' e' m'))"
proof -
  have raw: "map_of (reg_raw r) t = None"
    and fresh: "map_of (reg_typed r) \<lparr>rk_topic = t, rk_eventType = e, rk_major = m\<rparr> = None"
    and r': "r' = r\<lparr>reg_typed := (\<lparr>rk_topic = t, rk_eventType = e, rk_major = m\<rparr>, f) # reg_typed r,
                 reg_topics := List.insert t (reg_topics r)\<rparr>"
    using assms(2) by (auto simp: addTyped_def Let_def split: if_splits)
  have "reg_wf r'"
    using assms(1) raw fresh
    by (auto simp: reg_wf_def r' map_of_None_fst distinct_insert)
  moreover have "lookup r t e m = (None, MatchNone)"
    by (simp add: lookup_def raw fresh)
  moreover have "lookup r' t' e' m' =
      (if (t', e', m') = (t, e, m) then (Some f, MatchTyped) else lookup r t' e' m')" for t' e' m'
    using raw by (auto simp: lookup_def r' split: option.splits)
  ultimately show ?thesis by (simp add: r')
qed

lemma addRaw_ok:
  assumes "reg_wf r" and "addRaw t f r = (None, r')"
  shows "reg_wf r' \<and> (\<forall>e m. lookup r t e m = (None, MatchNone))
    \<and> set (reg_topics r') = insert t (set (reg_topics r))
    \<and> (\<forall>t' e' m'. lookup r' t' e' m' = (if t' = t then (Some f, MatchRaw) else lookup r t' e' m'))"
proof -
  have raw: "map_of (reg_raw r) t = None" and fresh: "t \<notin> rk_topic ` fst ` set (reg_typed r)"
    and r': "r' = r\<lparr>reg_raw := (t, f) # reg_raw r, reg_topics := List.insert t (reg_topics r)\<rparr>"
    using assms(2) by (auto simp: addRaw_def typed_on_topic split: if_splits)
  have "reg_wf r'"
    using assms(1) raw fresh by (auto simp: reg_wf_def r' map_of_None_fst distinct_insert)
  moreover have "map_of (reg_typed r) \<lparr>rk_topic = t, rk_eventType = e, rk_major = m\<rparr> = None" for e m
    using fresh by (auto simp: map_of_None_fst image_iff) (metis fst_conv routeKey.select_convs(1))
  then have "lookup r t e m = (None, MatchNone)" for e m
    by (simp add: lookup_def raw)
  moreover have "lookup r' t' e' m' = (if t' = t then (Some f, MatchRaw) else lookup r t' e' m')"
    for t' e' m'
    by (auto simp: lookup_def r' split: option.split)
  ultimately show ?thesis by (simp add: r')
qed

lemma lookup_topic: "reg_wf r \<Longrightarrow> lookup r t e m = (Some f, k) \<Longrightarrow> t \<in> set (reg_topics r)"
proof -
  assume wf: "reg_wf r" and l: "lookup r t e m = (Some f, k)"
  let ?key = "\<lparr>rk_topic = t, rk_eventType = e, rk_major = m\<rparr>"
  have "map_of (reg_raw r) t = Some f \<or> map_of (reg_typed r) ?key = Some f"
    using l by (auto simp: lookup_def split: option.splits)
  then have "t \<in> fst ` set (reg_raw r) \<or> ?key \<in> fst ` set (reg_typed r)"
    by (auto dest!: map_of_SomeD intro: rev_image_eqI)
  moreover have "?key \<in> A \<Longrightarrow> t \<in> rk_topic ` A" for A
    by (erule rev_image_eqI) simp
  ultimately have "t \<in> rk_topic ` fst ` set (reg_typed r) \<union> fst ` set (reg_raw r)"
    by blast
  with wf show ?thesis by (simp add: reg_wf_def)
qed

interpretation routes: route_table reg_wf newRegistry addTyped addRaw lookup "\<lambda>r. set (reg_topics r)"
proof
  show "reg_wf newRegistry" by (simp add: reg_wf_def newRegistry_def)
  show "lookup newRegistry t e m = (None, MatchNone)" for t e m
    by (simp add: lookup_def newRegistry_def)
  show "addTyped t e m f r = (Some err, r') \<Longrightarrow> r' = r" for t e m f r err r'
    by (auto simp: addTyped_def Let_def split: if_splits)
  show "addRaw t f r = (Some err, r') \<Longrightarrow> r' = r" for t f r err r'
    by (auto simp: addRaw_def split: if_splits)
qed (use addTyped_ok addRaw_ok lookup_topic in blast)+

section \<open>Properties\<close>

fun register1 :: "'w dispatchFunc registration \<Rightarrow> 'w registry \<Rightarrow> 'w registry" where
  "register1 (Typed t e m f) r = snd (addTyped t e m f r)"
| "register1 (Raw t f) r = snd (addRaw t f r)"

text \<open>The registry after a sequence of registration attempts, refused ones included.\<close>

definition registerAll :: "'w dispatchFunc registration list \<Rightarrow> 'w registry" where
  "registerAll qs = fold register1 qs newRegistry"

lemma register1_eq: "register1 = routes.register"
proof (intro ext)
  show "register1 q r = routes.register q r" for q and r :: "'w registry"
    by (cases q) simp_all
qed

lemma registerAll_wf: "reg_wf (registerAll qs)"
  using routes.register_all [OF routes.invar_empty, of qs]
  by (simp add: registerAll_def register1_eq)

text \<open>
  C36. Registration is stable and never ambiguous. After any sequence of registration attempts no
  topic has both typed handlers and a raw handler; a handler that \<open>lookup\<close> resolves for a topic,
  event type and major version stays the one it resolves after any further attempts; and its topic
  is among the topics the consumer subscribes to, in whatever order Go visits the map.
\<close>

theorem registry_routes_stable:
  assumes "lookup (registerAll qs) t e m = (Some f, k)" and "\<And>xs. mset (map_order xs) = mset xs"
  shows "lookup (registerAll (qs @ qs')) t e m = (Some f, k)
    \<and> t \<in> set (topicList map_order (registerAll (qs @ qs')))
    \<and> rk_topic ` fst ` set (reg_typed (registerAll qs)) \<inter> fst ` set (reg_raw (registerAll qs)) = {}"
proof (intro conjI)
  show l: "lookup (registerAll (qs @ qs')) t e m = (Some f, k)"
    using routes.register_all [OF registerAll_wf, where qs = qs'] assms(1)
    by (simp add: registerAll_def register1_eq)
  have "set (map_order (reg_topics (registerAll (qs @ qs')))) = set (reg_topics (registerAll (qs @ qs')))"
    using assms(2) by (metis set_mset_mset)
  with l show "t \<in> set (topicList map_order (registerAll (qs @ qs')))"
    by (simp add: topicList_def lookup_topic [OF registerAll_wf])
  show "rk_topic ` fst ` set (reg_typed (registerAll qs)) \<inter> fst ` set (reg_raw (registerAll qs)) = {}"
    using registerAll_wf [of qs] by (simp add: reg_wf_def)
qed

definition nop_handler :: "'w dispatchFunc" where
  "nop_handler = (\<lambda>ctx e w. (Ret None, w))"

theorem registry_routes_stable_witness:
  "lookup (registerAll ([Typed ''documents'' ''document.created'' 1 (nop_handler :: unit dispatchFunc)]
     @ [Raw ''documents'' nop_handler, Raw ''users'' nop_handler])) ''documents'' ''document.created'' 1
   = (Some nop_handler, MatchTyped)"
proof -
  have "lookup (registerAll [Typed ''documents'' ''document.created'' 1 (nop_handler :: unit dispatchFunc)])
      ''documents'' ''document.created'' 1 = (Some nop_handler, MatchTyped)"
    by (simp add: registerAll_def newRegistry_def addTyped_def lookup_def Let_def)
  from registry_routes_stable [OF this, of "\<lambda>xs. xs"] show ?thesis by simp
qed

lemma number_no_dot: "number a \<Longrightarrow> CHR ''.'' \<notin> set a"
  by (auto simp: number_def list_all_iff)

lemma majorVersion_number:
  assumes "number a"
  shows "majorVersion (a @ ''.'' @ rest) =
    (if decimal a < 2 ^ 63 then Inr (int (decimal a))
     else Inl (WrapError [Lit ''schema version '', Quoted (a @ ''.'' @ rest),
                          Lit '' has a non-numeric major component: '']
               (WrapError [Lit ''strconv.Atoi: parsing '', Quoted a, Lit '': '']
                  (Sentinel ''value out of range''))))"
  using assms number_no_dot [OF assms] ParseInt_digits [of a]
  by (simp add: majorVersion_def number_def num_error_text_def)

text \<open>
  C37. On a version that passed validation, \<open>majorVersion\<close> is the number before the first dot,
  whatever minor and patch are; it fails exactly when that number does not fit in 63 bits, with an
  error that names the range problem.
\<close>

theorem majorVersion_of_valid:
  assumes "number a" and "number b" and "number c"
  shows "(majorVersion (a @ ''.'' @ b @ ''.'' @ c) = Inr m \<longleftrightarrow>
            m = int (decimal a) \<and> decimal a < 2 ^ 63)
       \<and> ((\<exists>e. majorVersion (a @ ''.'' @ b @ ''.'' @ c) = Inl e \<and> Is_sentinel ''value out of range'' e)
            \<longleftrightarrow> 2 ^ 63 \<le> decimal a)"
  using majorVersion_number [OF assms(1), of "b @ ''.'' @ c"] by auto

theorem majorVersion_of_valid_witness:
  "majorVersion ''1.4.2'' = Inr 1 \<and> majorVersion ''1.0.0'' = Inr 1"
proof -
  have n: "number ''1''" "number ''4''" "number ''2''" "number ''0''"
    by (simp_all add: number_def is_digit_def)
  have "decimal ''1'' = 1" by (simp add: decimal_def digit_value_def)
  then show ?thesis
    using majorVersion_of_valid [OF n(1) n(2) n(3), of 1] majorVersion_of_valid [OF n(1) n(4) n(4), of 1]
    by simp
qed

lemma typedDispatch_decode_error:
  assumes "ev_Payload raw \<noteq> []" and "unmarshal (ev_Payload raw) = Inl e"
  shows "\<exists>e'. typedDispatch zero unmarshal h ctx raw w = (Ret (Some e'), w)
    \<and> IsRetryable (Some e') = IsRetryable (Some e)"
  using assms by (simp add: typedDispatch_def go_defs)

end
