(* ===== verification/Json.thy ===== *)
theory Json
  imports Envelope "HOL-Library.List_Lexorder" "HOL-Library.Char_ord"
begin

text \<open>
  The parts of Go's \<open>encoding/json\<close>, \<open>encoding/base64\<close> and \<open>time\<close> (RFC 3339) that the library
  calls, on byte strings: the syntax check of \<open>json.Valid\<close>, \<open>json.Unmarshal\<close> into
  \<open>Envelope[json.RawMessage]\<close>, and \<open>json.Marshal\<close> of strings, times, raw messages and string maps.
  Errors of these packages are modelled with their kind but not their full text.
\<close>

section \<open>Lexical level\<close>

definition is_ws :: "char \<Rightarrow> bool" where
  "is_ws c \<longleftrightarrow> c = CHR '' '' \<or> c = CHR 0x09 \<or> c = CHR 0x0A \<or> c = CHR 0x0D"

definition skip_ws :: "string \<Rightarrow> string" where
  "skip_ws s = dropWhile is_ws s"

definition hex_value :: "char \<Rightarrow> nat option" where
  "hex_value c =
     (if is_digit c then Some (ord c - 48)
      else if ord_in 97 102 c then Some (ord c - 87)
      else if ord_in 65 70 c then Some (ord c - 55)
      else None)"

definition is_hex :: "char \<Rightarrow> bool" where
  "is_hex c \<longleftrightarrow> hex_value c \<noteq> None"

definition simple_escape :: "char \<Rightarrow> char option" where
  "simple_escape c =
     (if c = CHR 0x22 \<or> c = CHR 0x5C \<or> c = CHR ''/'' then Some c
      else if c = CHR ''b'' then Some (CHR 0x08)
      else if c = CHR ''f'' then Some (CHR 0x0C)
      else if c = CHR ''n'' then Some (CHR 0x0A)
      else if c = CHR ''r'' then Some (CHR 0x0D)
      else if c = CHR ''t'' then Some (CHR 0x09)
      else None)"

text \<open>The text of a string literal after its opening quote, still escaped, and what follows it.\<close>

fun scan_str :: "string \<Rightarrow> (string \<times> string) option" where
  "scan_str [] = None"
| "scan_str (c # cs) =
     (if c = CHR 0x22 then Some ([], cs)
      else if ord c < 32 then None
      else if c = CHR 0x5C then
        (case cs of
           [] \<Rightarrow> None
         | d # ds \<Rightarrow>
             if simple_escape d \<noteq> None then map_option (\<lambda>(i, r). (c # d # i, r)) (scan_str ds)
             else if d = CHR ''u'' then
               (case ds of
                  g # h # i # j # es \<Rightarrow>
                    if is_hex g \<and> is_hex h \<and> is_hex i \<and> is_hex j
                    then map_option (\<lambda>(x, r). (c # d # g # h # i # j # x, r)) (scan_str es)
                    else None
                | _ \<Rightarrow> None)
             else None)
      else map_option (\<lambda>(i, r). (c # i, r)) (scan_str cs))"

definition scan_exp :: "string \<Rightarrow> string option" where
  "scan_exp s =
     (case s of
        c # r \<Rightarrow>
          if c = CHR ''e'' \<or> c = CHR ''E'' then
            (let r' = (case r of d # t \<Rightarrow> if d = CHR ''+'' \<or> d = CHR ''-'' then t else r | [] \<Rightarrow> r)
             in case r' of
                  d # t \<Rightarrow> if is_digit d then Some (dropWhile is_digit t) else None
                | [] \<Rightarrow> None)
          else Some s
      | [] \<Rightarrow> Some s)"

definition scan_frac :: "string \<Rightarrow> string option" where
  "scan_frac s =
     (case s of
        c # r \<Rightarrow>
          if c = CHR ''.'' then
            (case r of
               d # t \<Rightarrow> if is_digit d then scan_exp (dropWhile is_digit t) else None
             | [] \<Rightarrow> None)
          else scan_exp s
      | [] \<Rightarrow> Some s)"

definition scan_number :: "string \<Rightarrow> string option" where
  "scan_number s =
     (let s' = (case s of c # r \<Rightarrow> if c = CHR ''-'' then r else s | [] \<Rightarrow> s)
      in case s' of
           [] \<Rightarrow> None
         | c # r \<Rightarrow>
             if c = CHR ''0'' then scan_frac r
             else if is_digit c then scan_frac (dropWhile is_digit r)
             else None)"

section \<open>Values\<close>

definition maxNestingDepth :: int where
  "maxNestingDepth = 10000"

text \<open>
  What follows the value a text starts with, \<open>None\<close> for a syntax error. The first argument bounds
  the recursion and is never exhausted when it exceeds twice the length of the
  text (\<open>skip_value_fuel\<close> below); the second is the number of open objects and arrays.
\<close>

fun skip_value :: "nat \<Rightarrow> int \<Rightarrow> string \<Rightarrow> string option"
  and skip_members :: "nat \<Rightarrow> int \<Rightarrow> string \<Rightarrow> string option"
  and skip_elems :: "nat \<Rightarrow> int \<Rightarrow> string \<Rightarrow> string option" where
  "skip_value 0 d s = None"
| "skip_value (Suc n) d s =
     (case s of
        [] \<Rightarrow> None
      | c # cs \<Rightarrow>
          if c = CHR ''{'' then
            (if maxNestingDepth \<le> d then None
             else if take 1 (skip_ws cs) = ''}'' then Some (drop 1 (skip_ws cs))
             else skip_members n (d + 1) (skip_ws cs))
          else if c = CHR ''['' then
            (if maxNestingDepth \<le> d then None
             else if take 1 (skip_ws cs) = '']'' then Some (drop 1 (skip_ws cs))
             else skip_elems n (d + 1) (skip_ws cs))
          else if c = CHR 0x22 then map_option snd (scan_str cs)
          else if HasPrefix s ''true'' then Some (drop 4 s)
          else if HasPrefix s ''false'' then Some (drop 5 s)
          else if HasPrefix s ''null'' then Some (drop 4 s)
          else scan_number s)"
| "skip_members 0 d s = None"
| "skip_members (Suc n) d s =
     (if take 1 s = [CHR 0x22] then
        (case scan_str (drop 1 s) of
           None \<Rightarrow> None
         | Some (k, r) \<Rightarrow>
             if take 1 (skip_ws r) = '':'' then
               (case skip_value n d (skip_ws (drop 1 (skip_ws r))) of
                  None \<Rightarrow> None
                | Some r' \<Rightarrow>
                    if take 1 (skip_ws r') = ''}'' then Some (drop 1 (skip_ws r'))
                    else if take 1 (skip_ws r') = '','' then skip_members n d (skip_ws (drop 1 (skip_ws r')))
                    else None)
             else None)
      else None)"
| "skip_elems 0 d s = None"
| "skip_elems (Suc n) d s =
     (case skip_value n d s of
        None \<Rightarrow> None
      | Some r' \<Rightarrow>
          if take 1 (skip_ws r') = '']'' then Some (drop 1 (skip_ws r'))
          else if take 1 (skip_ws r') = '','' then skip_elems n d (skip_ws (drop 1 (skip_ws r')))
          else None)"

text \<open>\<open>json.Valid\<close>.\<close>

definition Valid :: "bytes \<Rightarrow> bool" where
  "Valid s =
     (let s' = skip_ws s
      in case skip_value (2 * length s' + 1) 0 s' of
           None \<Rightarrow> False
         | Some r \<Rightarrow> skip_ws r = [])"

section \<open>Decoded strings\<close>

definition rune_error :: string where
  "rune_error = [CHR 0xEF, CHR 0xBF, CHR 0xBD]"

definition encode_rune :: "nat \<Rightarrow> string" where
  "encode_rune r =
     (if r < 0x80 then [char_of r]
      else if r < 0x800 then [char_of (0xC0 + r div 0x40), char_of (0x80 + r mod 0x40)]
      else if 0xD800 \<le> r \<and> r \<le> 0xDFFF then rune_error
      else if r < 0x10000 then
        [char_of (0xE0 + r div 0x1000), char_of (0x80 + r div 0x40 mod 0x40), char_of (0x80 + r mod 0x40)]
      else if r \<le> 0x10FFFF then
        [char_of (0xF0 + r div 0x40000), char_of (0x80 + r div 0x1000 mod 0x40),
         char_of (0x80 + r div 0x40 mod 0x40), char_of (0x80 + r mod 0x40)]
      else rune_error)"

definition hex4 :: "char \<Rightarrow> char \<Rightarrow> char \<Rightarrow> char \<Rightarrow> nat" where
  "hex4 g h i j =
     (let v = (\<lambda>c. case hex_value c of Some n \<Rightarrow> n | None \<Rightarrow> 0)
      in ((v g * 16 + v h) * 16 + v i) * 16 + v j)"

text \<open>\<open>getu4\<close> on the text after a first surrogate: the code unit of a following \<open>\uXXXX\<close>.\<close>

definition next_u4 :: "string \<Rightarrow> nat option" where
  "next_u4 s =
     (case s of
        a # b # g # h # i # j # _ \<Rightarrow>
          if a = CHR 0x5C \<and> b = CHR ''u'' then Some (hex4 g h i j) else None
      | _ \<Rightarrow> None)"

text \<open>\<open>unquote\<close> on the escaped text of a well-formed literal: invalid UTF-8 becomes U+FFFD.\<close>

fun unquote :: "string \<Rightarrow> string" where
  "unquote [] = []"
| "unquote (c # cs) =
     (if c = CHR 0x5C then
        (case cs of
           [] \<Rightarrow> []
         | d # ds \<Rightarrow>
             if d = CHR ''u'' then
               (case ds of
                  g # h # i # j # es \<Rightarrow>
                    (let r = hex4 g h i j in
                     if 0xD800 \<le> r \<and> r \<le> 0xDFFF then
                       (case next_u4 es of
                          Some r2 \<Rightarrow>
                            if r \<le> 0xDBFF \<and> 0xDC00 \<le> r2 \<and> r2 \<le> 0xDFFF
                            then encode_rune (0x10000 + (r - 0xD800) * 0x400 + (r2 - 0xDC00))
                                 @ unquote (drop 6 es)
                            else rune_error @ unquote es
                        | None \<Rightarrow> rune_error @ unquote es)
                     else encode_rune r @ unquote es)
                | _ \<Rightarrow> [])
             else (case simple_escape d of Some x \<Rightarrow> x # unquote ds | None \<Rightarrow> unquote ds))
      else if rune_len (c # cs) = 0 then rune_error @ unquote cs
      else take (rune_len (c # cs)) (c # cs) @ unquote (drop (rune_len (c # cs) - 1) cs))"

section \<open>RFC 3339 times\<close>

definition leap :: "int \<Rightarrow> bool" where
  "leap y \<longleftrightarrow> y mod 4 = 0 \<and> (y mod 100 \<noteq> 0 \<or> y mod 400 = 0)"

text \<open>Days from 1 January of year 1 to 1 January of a year.\<close>

definition days_before_year :: "int \<Rightarrow> int" where
  "days_before_year y = 365 * (y - 1) + (y - 1) div 4 - (y - 1) div 100 + (y - 1) div 400"

definition month_days :: "int \<Rightarrow> int list" where
  "month_days y = [31, if leap y then 29 else 28, 31, 30, 31, 30, 31, 31, 30, 31, 30, 31]"

definition days_before_month :: "int \<Rightarrow> nat \<Rightarrow> int" where
  "days_before_month y m = sum_list (take (m - 1) (month_days y))"

text \<open>A fixed-width decimal field within bounds (\<open>parseUint\<close> of \<open>parseRFC3339\<close>).\<close>

definition dec_field :: "string \<Rightarrow> int \<Rightarrow> int \<Rightarrow> int option" where
  "dec_field s lo hi =
     (if list_all is_digit s \<and> lo \<le> int (decimal s) \<and> int (decimal s) \<le> hi
      then Some (int (decimal s)) else None)"

text \<open>The fraction of a second in nanoseconds: further digits are dropped.\<close>

definition frac_ns :: "string \<Rightarrow> int" where
  "frac_ns ds = int (decimal (take 9 (ds @ replicate 9 (CHR ''0''))))"

definition parse_zone :: "string \<Rightarrow> int option" where
  "parse_zone s =
     (if s = ''Z'' then Some 0
      else if length s = 6 \<and> (s ! 0 = CHR ''+'' \<or> s ! 0 = CHR ''-'') \<and> s ! 3 = CHR '':'' then
        (case (dec_field (take 2 (drop 1 s)) 0 23, dec_field (drop 4 s) 0 59) of
           (Some h, Some m) \<Rightarrow> Some ((if s ! 0 = CHR ''-'' then -1 else 1) * (h * 3600 + m * 60))
         | _ \<Rightarrow> None)
      else None)"

definition parse_rfc3339 :: "string \<Rightarrow> gotime option" where
  "parse_rfc3339 s =
     (if length s < 19 \<or> s ! 4 \<noteq> CHR ''-'' \<or> s ! 7 \<noteq> CHR ''-'' \<or> s ! 10 \<noteq> CHR ''T''
         \<or> s ! 13 \<noteq> CHR '':'' \<or> s ! 16 \<noteq> CHR '':'' then None
      else
        (case (dec_field (take 4 s) 0 9999, dec_field (take 2 (drop 5 s)) 1 12) of
           (Some y, Some mo) \<Rightarrow>
             (case (dec_field (take 2 (drop 8 s)) 1 (month_days y ! nat (mo - 1)),
                    dec_field (take 2 (drop 11 s)) 0 23,
                    dec_field (take 2 (drop 14 s)) 0 59,
                    dec_field (take 2 (drop 17 s)) 0 59) of
                (Some d, Some h, Some mi, Some se) \<Rightarrow>
                  (let r = drop 19 s;
                       fr = (if take 1 r = ''.'' then takeWhile is_digit (drop 1 r) else []);
                       z = (if fr = [] then r else drop (Suc (length fr)) r)
                   in case parse_zone z of
                        None \<Rightarrow> None
                      | Some off \<Rightarrow>
                          Some \<lparr>ns_since_zero =
                                  ((days_before_year y + days_before_month y (nat mo) + d - 1) * 86400
                                   + h * 3600 + mi * 60 + se - off) * 1000000000 + frac_ns fr,
                                zone_offset = off\<rparr>)
              | _ \<Rightarrow> None)
         | _ \<Rightarrow> None))"

section \<open>json.Unmarshal into an envelope\<close>

definition value_text :: "string \<Rightarrow> (string \<times> string) option" where
  "value_text s =
     (case skip_value (2 * length s + 1) 0 s of
        None \<Rightarrow> None
      | Some r \<Rightarrow> Some (take (length s - length r) s, r))"

text \<open>Names and value texts of the members of an object, from the first name on.\<close>

fun members :: "nat \<Rightarrow> string \<Rightarrow> (string \<times> string) list" where
  "members 0 s = []"
| "members (Suc n) s =
     (case scan_str (drop 1 s) of
        None \<Rightarrow> []
      | Some (k, r) \<Rightarrow>
          (case value_text (skip_ws (drop 1 (skip_ws r))) of
             None \<Rightarrow> []
           | Some (v, r') \<Rightarrow>
               (unquote k, v)
               # (if take 1 (skip_ws r') = '','' then members n (skip_ws (drop 1 (skip_ws r'))) else [])))"

definition object_members :: "string \<Rightarrow> (string \<times> string) list" where
  "object_members s =
     (let r = skip_ws (drop 1 s)
      in if take 1 r = ''}'' then [] else members (length s) r)"

text \<open>\<open>foldName\<close>: ASCII letters in upper case; the long s and the Kelvin sign fold to S and K.\<close>

fun fold_name :: "string \<Rightarrow> string" where
  "fold_name [] = []"
| "fold_name (c # cs) =
     (if ord_in 97 122 c then char_of (ord c - 32) # fold_name cs
      else if c = CHR 0xC5 \<and> take 1 cs = [CHR 0xBF] then CHR ''S'' # fold_name (drop 1 cs)
      else if c = CHR 0xE2 \<and> take 2 cs = [CHR 0x84, CHR 0xAA] then CHR ''K'' # fold_name (drop 2 cs)
      else c # fold_name cs)"

definition envelope_fields :: "string list" where
  "envelope_fields =
     [''event_id'', ''event_type'', ''timestamp'', ''schema_version'', ''correlation_id'', ''source'',
      ''payload'']"

text \<open>
  The field of a struct a key decodes into, the members applied in order, and \<open>json.Unmarshal\<close> into
  a zero struct with fields \<open>names\<close>, where \<open>set\<close> decodes one value into one field.
\<close>

definition find_name :: "string list \<Rightarrow> string \<Rightarrow> string option" where
  "find_name names k =
     (if k \<in> set names then Some k else List.find (\<lambda>f. fold_name f = fold_name k) names)"

fun set_members ::
    "string list \<Rightarrow> (string \<Rightarrow> string \<Rightarrow> 'r \<Rightarrow> goerr + 'r) \<Rightarrow> (string \<times> string) list \<Rightarrow> 'r \<Rightarrow> goerr + 'r" where
  "set_members names set_one [] e = Inr e"
| "set_members names set_one ((k, v) # ms) e =
     (case find_name names k of
        None \<Rightarrow> set_members names set_one ms e
      | Some f \<Rightarrow> (case set_one f v e of Inl err \<Rightarrow> Inl err | Inr e' \<Rightarrow> set_members names set_one ms e'))"

definition json_error :: "string \<Rightarrow> goerr" where
  "json_error what = OpaqueError (''json: '' @ what)"

definition decode_string :: "string \<Rightarrow> string \<Rightarrow> goerr + string" where
  "decode_string v old =
     (if v = ''null'' then Inr old
      else if take 1 v = [CHR 0x22] then Inr (unquote (butlast (drop 1 v)))
      else Inl (json_error ''cannot unmarshal value into Go struct field of type string''))"

definition Unmarshal_struct ::
    "string list \<Rightarrow> (string \<Rightarrow> string \<Rightarrow> 'r \<Rightarrow> goerr + 'r) \<Rightarrow> 'r \<Rightarrow> bytes \<Rightarrow> goerr + 'r" where
  "Unmarshal_struct names set_one zero s =
     (if \<not> Valid s then Inl (json_error ''syntax error'')
      else
        (let v = skip_ws s in
         if HasPrefix v ''null'' then Inr zero
         else if take 1 v = ''{'' then set_members names set_one (object_members v) zero
         else Inl (json_error ''cannot unmarshal value into Go struct'')))"

text \<open>\<open>time.Time.UnmarshalJSON\<close>: the text between the quotes is not unescaped.\<close>

definition decode_time :: "string \<Rightarrow> gotime \<Rightarrow> goerr + gotime" where
  "decode_time v old =
     (if v = ''null'' then Inr old
      else if take 1 v = [CHR 0x22] then
        (case parse_rfc3339 (butlast (drop 1 v)) of
           None \<Rightarrow> Inl (json_error ''cannot parse time as RFC 3339'')
         | Some t \<Rightarrow> Inr t)
      else Inl (OpaqueError ''Time.UnmarshalJSON: input is not a JSON string''))"

definition set_field :: "string \<Rightarrow> string \<Rightarrow> bytes Envelope \<Rightarrow> goerr + bytes Envelope" where
  "set_field f v e =
     (if f = ''event_id'' then map_sum id (\<lambda>x. e\<lparr>ev_EventID := x\<rparr>) (decode_string v (ev_EventID e))
      else if f = ''event_type'' then
        map_sum id (\<lambda>x. e\<lparr>ev_EventType := x\<rparr>) (decode_string v (ev_EventType e))
      else if f = ''timestamp'' then
        map_sum id (\<lambda>x. e\<lparr>ev_Timestamp := x\<rparr>) (decode_time v (ev_Timestamp e))
      else if f = ''schema_version'' then
        map_sum id (\<lambda>x. e\<lparr>ev_SchemaVersion := x\<rparr>) (decode_string v (ev_SchemaVersion e))
      else if f = ''correlation_id'' then
        map_sum id (\<lambda>x. e\<lparr>ev_CorrelationID := x\<rparr>) (decode_string v (ev_CorrelationID e))
      else if f = ''source'' then
        map_sum id (\<lambda>x. e\<lparr>ev_Source := x\<rparr>) (decode_string v (ev_Source e))
      else Inr (e\<lparr>ev_Payload := v\<rparr>))"

definition zero_envelope :: "bytes Envelope" where
  "zero_envelope =
     \<lparr>ev_EventID = [], ev_EventType = [], ev_Timestamp = zero_time, ev_SchemaVersion = [],
      ev_CorrelationID = [], ev_Source = [], ev_Payload = []\<rparr>"

text \<open>\<open>json.Unmarshal(payload, &env)\<close> with \<open>env\<close> the zero envelope.\<close>

definition Unmarshal_envelope :: "bytes \<Rightarrow> goerr + bytes Envelope" where
  "Unmarshal_envelope = Unmarshal_struct envelope_fields set_field zero_envelope"

section \<open>json.Marshal\<close>

definition u00 :: "char \<Rightarrow> string" where
  "u00 c = [CHR 0x5C, CHR ''u'', CHR ''0'', CHR ''0''] @ hex_byte c"

text \<open>One ASCII byte of a string, with the HTML-safe set \<open>json.Marshal\<close> uses.\<close>

definition escape_char :: "char \<Rightarrow> string" where
  "escape_char c =
     (if c = CHR 0x22 \<or> c = CHR 0x5C then [CHR 0x5C, c]
      else if c = CHR 0x08 then [CHR 0x5C, CHR ''b'']
      else if c = CHR 0x0C then [CHR 0x5C, CHR ''f'']
      else if c = CHR 0x0A then [CHR 0x5C, CHR ''n'']
      else if c = CHR 0x0D then [CHR 0x5C, CHR ''r'']
      else if c = CHR 0x09 then [CHR 0x5C, CHR ''t'']
      else if ord c < 32 \<or> c = CHR ''<'' \<or> c = CHR ''>'' \<or> c = CHR ''&'' then u00 c
      else [c])"

text \<open>U+2028 and U+2029, which \<open>json.Marshal\<close> always escapes.\<close>

definition is_line_sep :: "string \<Rightarrow> bool" where
  "is_line_sep s \<longleftrightarrow> take 2 s = [CHR 0xE2, CHR 0x80] \<and> length s \<ge> 3
     \<and> (s ! 2 = CHR 0xA8 \<or> s ! 2 = CHR 0xA9)"

definition line_sep_escape :: "string \<Rightarrow> string" where
  "line_sep_escape s = [CHR 0x5C] @ ''u202'' @ [if s ! 2 = CHR 0xA8 then CHR ''8'' else CHR ''9'']"

fun escape_string :: "string \<Rightarrow> string" where
  "escape_string [] = []"
| "escape_string (c # cs) =
     (let n = rune_len (c # cs) in
      if n = 0 then [CHR 0x5C] @ ''ufffd'' @ escape_string cs
      else if n = 1 then escape_char c @ escape_string cs
      else if is_line_sep (c # cs) then line_sep_escape (c # cs) @ escape_string (drop 2 cs)
      else take n (c # cs) @ escape_string (drop (n - 1) cs))"

definition Marshal_string :: "string \<Rightarrow> string" where
  "Marshal_string s = CHR 0x22 # escape_string s @ [CHR 0x22]"

text \<open>
  The compaction \<open>json.Marshal\<close> applies to a \<open>json.RawMessage\<close> it has found valid: whitespace
  outside strings goes, and \<open><\<close>, \<open>>\<close>, \<open>&\<close> and the line separators are escaped.
\<close>

fun compact :: "bool \<Rightarrow> string \<Rightarrow> string" where
  "compact in_str [] = []"
| "compact in_str (c # cs) =
     (if c = CHR ''<'' \<or> c = CHR ''>'' \<or> c = CHR ''&'' then u00 c @ compact in_str cs
      else if is_line_sep (c # cs) then line_sep_escape (c # cs) @ compact in_str (drop 2 cs)
      else if in_str then
        (if c = CHR 0x22 then c # compact False cs
         else if c = CHR 0x5C then
           (case cs of [] \<Rightarrow> [c] | d # ds \<Rightarrow> c # d # compact True ds)
         else c # compact True cs)
      else if is_ws c then compact False cs
      else c # compact (c = CHR 0x22) cs)"

definition Marshal_raw :: "bytes \<Rightarrow> goerr + string" where
  "Marshal_raw s =
     (if Valid s then Inr (compact False s)
      else Inl (json_error ''error calling MarshalJSON for type json.RawMessage''))"

text \<open>\<open>base64.StdEncoding\<close>, the encoding of a \<open>[]byte\<close>.\<close>

definition b64_char :: "nat \<Rightarrow> char" where
  "b64_char n =
     (if n < 26 then char_of (65 + n) else if n < 52 then char_of (71 + n)
      else if n < 62 then char_of (n - 4) else if n = 62 then CHR ''+'' else CHR ''/'')"

fun base64 :: "bytes \<Rightarrow> string" where
  "base64 [] = []"
| "base64 [a] = [b64_char (ord a div 4), b64_char (ord a mod 4 * 16), CHR ''='', CHR ''='']"
| "base64 [a, b] =
     [b64_char (ord a div 4), b64_char (ord a mod 4 * 16 + ord b div 16),
      b64_char (ord b mod 16 * 4), CHR ''='']"
| "base64 (a # b # c # r) =
     [b64_char (ord a div 4), b64_char (ord a mod 4 * 16 + ord b div 16),
      b64_char (ord b mod 16 * 4 + ord c div 64), b64_char (ord c mod 64)] @ base64 r"

definition Marshal_bytes :: "bytes \<Rightarrow> string" where
  "Marshal_bytes bs = CHR 0x22 # base64 bs @ [CHR 0x22]"

section \<open>Formatting times\<close>

text \<open>
  Year, month and day of a day number counted from 1 January of year 1: cycles of 400, 100, 4 and 1
  years, the last century of a cycle and the last year of four taking the odd day, then the month.
\<close>

fun month_of :: "int list \<Rightarrow> int \<Rightarrow> nat \<times> int" where
  "month_of [] d = (1, d)"
| "month_of (l # ls) d = (if d < l then (1, d) else (case month_of ls (d - l) of (m, e) \<Rightarrow> (Suc m, e)))"

definition civil :: "int \<Rightarrow> int \<times> int \<times> int" where
  "civil n =
     (let n400 = n div 146097; d = n mod 146097;
          n100 = min 3 (d div 36524); d = d - 36524 * n100;
          n4 = d div 1461; d = d - 1461 * n4;
          n1 = min 3 (d div 365); d = d - 365 * n1;
          y = 400 * n400 + 100 * n100 + 4 * n4 + n1 + 1
      in case month_of (month_days y) d of (m, e) \<Rightarrow> (y, int m, e + 1))"

definition pad :: "nat \<Rightarrow> int \<Rightarrow> string" where
  "pad w n = (let s = format_nat (nat n) in replicate (w - length s) (CHR ''0'') @ s)"

definition format_frac :: "int \<Rightarrow> string" where
  "format_frac ns =
     (let ds = rev (dropWhile (\<lambda>c. c = CHR ''0'') (rev (pad 9 ns)))
      in if ds = [] then [] else CHR ''.'' # ds)"

definition format_zone :: "int \<Rightarrow> string" where
  "format_zone off =
     (if off = 0 then ''Z''
      else (let m = \<bar>off\<bar> div 60
            in (if off < 0 then ''-'' else ''+'') @ pad 2 (m div 60) @ '':'' @ pad 2 (m mod 60)))"

text \<open>\<open>t.Format(time.RFC3339Nano)\<close>\<close>

definition format_rfc3339 :: "gotime \<Rightarrow> string" where
  "format_rfc3339 t =
     (let loc = ns_since_zero t + zone_offset t * 1000000000;
          secs = loc div 1000000000; days = secs div 86400; tod = secs mod 86400
      in case civil days of
           (y, m, d) \<Rightarrow>
             pad 4 y @ ''-'' @ pad 2 m @ ''-'' @ pad 2 d @ ''T'' @ pad 2 (tod div 3600) @ '':''
             @ pad 2 (tod div 60 mod 60) @ '':'' @ pad 2 (tod mod 60)
             @ format_frac (loc mod 1000000000) @ format_zone (zone_offset t))"

text \<open>\<open>time.Time.MarshalJSON\<close> refuses a year outside 0 to 9999 and a zone of a day or more.\<close>

definition Marshal_time :: "gotime \<Rightarrow> goerr + string" where
  "Marshal_time t =
     (let y = fst (civil ((ns_since_zero t + zone_offset t * 1000000000) div 86400000000000))
      in if y < 0 \<or> 9999 < y then
           Inl (OpaqueError ''Time.MarshalJSON: year outside of range [0,9999]'')
         else if 24 * 3600 \<le> \<bar>zone_offset t\<bar> then
           Inl (OpaqueError ''Time.MarshalJSON: timezone hour outside of range [0,23]'')
         else Inr (CHR 0x22 # format_rfc3339 t @ [CHR 0x22]))"

section \<open>Objects\<close>

fun join_members :: "(string \<times> string) list \<Rightarrow> string" where
  "join_members [] = []"
| "join_members [(k, v)] = Marshal_string k @ '':'' @ v"
| "join_members ((k, v) # m # ms) = Marshal_string k @ '':'' @ v @ '','' @ join_members (m # ms)"

definition Marshal_object :: "(string \<times> string) list \<Rightarrow> string" where
  "Marshal_object ms = ''{'' @ join_members ms @ ''}''"

text \<open>\<open>json.Marshal\<close> of a map with string values: the keys in byte order.\<close>

definition Marshal_fields :: "(string \<times> string) list \<Rightarrow> string" where
  "Marshal_fields fs =
     Marshal_object (map (\<lambda>(k, v). (k, Marshal_string v)) (sort_key fst fs))"

text \<open>\<open>json.Marshal\<close> of an envelope, given the encoded payload.\<close>

definition Marshal_envelope :: "goerr + string \<Rightarrow> 'p Envelope \<Rightarrow> goerr + string" where
  "Marshal_envelope payload e =
     (case Marshal_time (ev_Timestamp e) of
        Inl err \<Rightarrow> Inl err
      | Inr ts \<Rightarrow>
          (case payload of
             Inl err \<Rightarrow> Inl err
           | Inr p \<Rightarrow>
               Inr (Marshal_object
                 [(''event_id'', Marshal_string (ev_EventID e)),
                  (''event_type'', Marshal_string (ev_EventType e)),
                  (''timestamp'', ts),
                  (''schema_version'', Marshal_string (ev_SchemaVersion e)),
                  (''correlation_id'', Marshal_string (ev_CorrelationID e)),
                  (''source'', Marshal_string (ev_Source e)),
                  (''payload'', p)])))"

section \<open>The recursion bound is enough\<close>

lemma length_skip_ws: "length (skip_ws s) \<le> length s"
  by (simp add: skip_ws_def length_dropWhile_le)

lemma length_skip_ws_drop: "length (skip_ws (drop k s)) \<le> length s - k"
  using length_skip_ws [of "drop k s"] by simp

lemma scan_str_shrinks: "scan_str s = Some (k, r) \<Longrightarrow> length r < length s"
proof (induction s arbitrary: k r rule: scan_str.induct)
  case (2 c cs)
  show ?case
    using "2.prems" "2.IH"
    by (fastforce split: if_splits list.splits option.splits)
qed simp

lemma scan_exp_le: "scan_exp s = Some r \<Longrightarrow> length r \<le> length s"
  using length_dropWhile_le [of is_digit]
  by (fastforce simp: scan_exp_def Let_def le_Suc_eq split: list.splits if_splits)

lemma scan_frac_le: "scan_frac s = Some r \<Longrightarrow> length r \<le> length s"
proof -
  assume "scan_frac s = Some r"
  then consider "scan_exp s = Some r" | "r = s"
    | d t where "s = CHR ''.'' # d # t" and "scan_exp (dropWhile is_digit t) = Some r"
    by (auto simp: scan_frac_def split: list.splits if_splits)
  then show ?thesis
  proof cases
    case 3
    then show ?thesis using scan_exp_le [OF 3(2)] length_dropWhile_le [of is_digit t] by simp
  qed (auto dest: scan_exp_le)
qed

lemma scan_number_shrinks: "scan_number s = Some r \<Longrightarrow> length r < length s"
proof -
  assume n: "scan_number s = Some r"
  define s' where "s' = (case s of c # r \<Rightarrow> if c = CHR ''-'' then r else s | [] \<Rightarrow> s)"
  have "length s' \<le> length s" by (auto simp: s'_def split: list.splits)
  moreover obtain c t where "s' = c # t" and "scan_frac t = Some r \<or> scan_frac (dropWhile is_digit t) = Some r"
    using n by (auto simp: scan_number_def s'_def [symmetric] Let_def split: list.splits if_splits)
  ultimately show ?thesis
    using scan_frac_le [of t r] scan_frac_le [of "dropWhile is_digit t" r] length_dropWhile_le [of is_digit t]
    by auto
qed

lemma drop_take1: "take 1 s = [c] \<Longrightarrow> length (drop 1 s) < length s"
  by (cases s) auto

lemma skip_shrinks:
  "skip_value n d s = Some r \<Longrightarrow> length r < length s"
  "skip_members n d s = Some r \<Longrightarrow> length r < length s"
  "skip_elems n d s = Some r \<Longrightarrow> length r < length s"
proof (induction n d s and n d s and n d s arbitrary: r and r and r
    rule: skip_value_skip_members_skip_elems.induct)
  case (2 n d s)
  show ?case
  proof (cases s)
    case (Cons c cs)
    have ws: "length (skip_ws cs) < length s" "length (drop 1 (skip_ws cs)) < length s"
      using length_skip_ws [of cs] by (auto simp: Cons)
    have str: "scan_str cs = Some (k, x) \<Longrightarrow> length x < length s" for k x
      using scan_str_shrinks [of cs k x] by (simp add: Cons)
    have lit: "HasPrefix s p \<Longrightarrow> p \<noteq> [] \<Longrightarrow> length (drop (length p) s) < length s" for p
      by (auto simp: HasPrefix_def Cons)
    have mem: "c = CHR ''{'' \<Longrightarrow> \<not> maxNestingDepth \<le> d \<Longrightarrow> take 1 (skip_ws cs) \<noteq> ''}'' \<Longrightarrow>
        skip_members n (d + 1) (skip_ws cs) = Some r \<Longrightarrow> length r < length s"
      using "2.IH"(1) [OF Cons, of r] ws(1) by linarith
    have elm: "c = CHR ''['' \<Longrightarrow> \<not> maxNestingDepth \<le> d \<Longrightarrow> take 1 (skip_ws cs) \<noteq> '']'' \<Longrightarrow>
        skip_elems n (d + 1) (skip_ws cs) = Some r \<Longrightarrow> length r < length s"
      using "2.IH"(2) [OF Cons, of r] ws(1) by fastforce
    show ?thesis
      using "2.prems" mem elm ws str lit [of "''true''"] lit [of "''false''"] lit [of "''null''"]
        scan_number_shrinks [of s r]
      by (auto simp: Cons split: if_splits)
  qed (use "2.prems" in simp)
next
  case (4 n d s)
  then obtain k r1 r2 where s1: "scan_str (drop 1 s) = Some (k, r1)"
    and v: "skip_value n d (skip_ws (drop 1 (skip_ws r1))) = Some r2"
    and fin: "r = drop 1 (skip_ws r2) \<or> (take 1 (skip_ws r2) = '','' \<and> \<not> take 1 (skip_ws r2) = ''}'' \<and>
       skip_members n d (skip_ws (drop 1 (skip_ws r2))) = Some r)"
    and t: "take 1 s = [CHR 0x22]" "take 1 (skip_ws r1) = '':''"
    by (auto split: if_splits option.splits)
  have "length r2 < length s"
    using "4.IH"(1) [OF t(1) s1 _ t(2) v] scan_str_shrinks [OF s1]
      length_skip_ws_drop [of 1 "skip_ws r1"] length_skip_ws [of r1] by simp
  with fin "4.IH"(2) [OF t(1) s1 _ t(2) v] show ?case
    using length_skip_ws [of r2] length_skip_ws_drop [of 1 "skip_ws r2"] by fastforce
next
  case (6 n d s)
  then obtain r2 where v: "skip_value n d s = Some r2"
    and fin: "r = drop 1 (skip_ws r2) \<or> (take 1 (skip_ws r2) = '','' \<and> \<not> take 1 (skip_ws r2) = '']'' \<and>
       skip_elems n d (skip_ws (drop 1 (skip_ws r2))) = Some r)"
    by (auto split: if_splits option.splits)
  then show ?case
    using "6.IH"(1) [OF v] "6.IH"(2) [OF v] length_skip_ws [of r2] length_skip_ws_drop [of 1 "skip_ws r2"]
    by fastforce
qed simp_all

lemma skip_fuel_Suc:
  "2 * length s < n \<Longrightarrow> skip_value (Suc n) d s = skip_value n d s"
  "2 * length s + 1 < n \<Longrightarrow> skip_members (Suc n) d s = skip_members n d s"
  "2 * length s + 1 < n \<Longrightarrow> skip_elems (Suc n) d s = skip_elems n d s"
proof (induction n arbitrary: s d)
  case (Suc n)
  {
    case 1
    show ?case
    proof (cases s)
      case (Cons c cs)
      have "2 * length (skip_ws cs) + 1 < n" using length_skip_ws [of cs] 1 Cons by simp
      then have "skip_members (Suc n) (d + 1) (skip_ws cs) = skip_members n (d + 1) (skip_ws cs)"
        and "skip_elems (Suc n) (d + 1) (skip_ws cs) = skip_elems n (d + 1) (skip_ws cs)"
        by (rule Suc.IH(2), rule Suc.IH(3))
      then show ?thesis
        by (simp only: skip_value.simps(2) [of "Suc n"] skip_value.simps(2) [of n] Cons list.case)
    qed simp
  next
    case 2
    have v: "skip_value (Suc n) d (skip_ws (drop 1 (skip_ws r))) = skip_value n d (skip_ws (drop 1 (skip_ws r)))"
      if "scan_str (drop 1 s) = Some (k, r)" for k r
      using scan_str_shrinks [OF that] length_skip_ws [of r] length_skip_ws_drop [of 1 "skip_ws r"] 2
      by (intro Suc.IH) simp
    have m: "skip_members (Suc n) d (skip_ws (drop 1 (skip_ws r'))) = skip_members n d (skip_ws (drop 1 (skip_ws r')))"
      if "scan_str (drop 1 s) = Some (k, r)" and "skip_value n d (skip_ws (drop 1 (skip_ws r))) = Some r'"
      for k r r'
      using scan_str_shrinks [OF that(1)] length_skip_ws [of r] length_skip_ws_drop [of 1 "skip_ws r"] 2
        skip_shrinks(1) [OF that(2)] length_skip_ws [of r'] length_skip_ws_drop [of 1 "skip_ws r'"]
      by (intro Suc.IH) simp
    show ?case
    proof (cases "scan_str (drop 1 s)")
      case (Some kr)
      then obtain k r where kr: "scan_str (drop 1 s) = Some (k, r)" by (cases kr) auto
      show ?thesis
        using v [OF kr] m [OF kr]
        by (cases "skip_value n d (skip_ws (drop 1 (skip_ws r)))")
          (simp_all add: kr skip_members.simps(2) [of "Suc n" d s] skip_members.simps(2) [of n d s]
            del: skip_value.simps skip_members.simps One_nat_def)
    qed (simp add: skip_members.simps(2) [of "Suc n" d s] skip_members.simps(2) [of n d s]
        del: skip_value.simps skip_members.simps One_nat_def)
  next
    case 3
    have v: "skip_value (Suc n) d s = skip_value n d s" using 3 by (intro Suc.IH) simp
    have m: "skip_elems (Suc n) d (skip_ws (drop 1 (skip_ws r'))) = skip_elems n d (skip_ws (drop 1 (skip_ws r')))"
      if "skip_value n d s = Some r'" for r'
      using skip_shrinks(1) [OF that] length_skip_ws [of r'] length_skip_ws_drop [of 1 "skip_ws r'"] 3
      by (intro Suc.IH) simp
    show ?case
      using m v
      by (cases "skip_value n d s")
        (simp_all add: skip_elems.simps(2) [of "Suc n" d s] skip_elems.simps(2) [of n d s]
          del: skip_value.simps skip_elems.simps One_nat_def)
  }
qed simp_all

lemma skip_value_fuel:
  assumes "2 * length s < n"
  shows "skip_value n d s = skip_value (2 * length s + 1) d s"
proof -
  have "skip_value (2 * length s + 1 + k) d s = skip_value (2 * length s + 1) d s" for k
    by (induction k) (simp_all add: skip_fuel_Suc(1) del: skip_value.simps)
  from this [of "n - (2 * length s + 1)"] show ?thesis using assms by simp
qed

lemma value_text_shrinks: "value_text s = Some (v, r) \<Longrightarrow> length r < length s"
  by (auto simp: value_text_def simp del: skip_value.simps split: option.splits
      dest!: skip_shrinks(1))

lemma members_fuel: "length s \<le> n \<Longrightarrow> members (Suc n) s = members n s"
proof (induction n arbitrary: s)
  case (Suc n)
  have m: "members (Suc n) (skip_ws (drop 1 (skip_ws r'))) = members n (skip_ws (drop 1 (skip_ws r')))"
    if "scan_str (drop 1 s) = Some (k, r)" and "value_text (skip_ws (drop 1 (skip_ws r))) = Some (v, r')"
    for k r v r'
    using scan_str_shrinks [OF that(1)] length_skip_ws [of r] length_skip_ws_drop [of 1 "skip_ws r"]
      value_text_shrinks [OF that(2)] length_skip_ws [of r'] length_skip_ws_drop [of 1 "skip_ws r'"]
      Suc.prems
    by (intro Suc.IH) simp
  show ?case
    by (simp only: members.simps(2) [of "Suc n" s] members.simps(2) [of n s])
      (auto simp: m simp del: members.simps One_nat_def split: option.split)
qed simp

end
