(* ===== verification/World.thy ===== *)
theory World
  imports Context Json
begin

text \<open>
  What the consume and publish paths can observe and cause. \<open>'w\<close> is the state of everything
  outside the library: application handlers, Redis, the clock, the random source, the scheduler.
  A \<^verbatim>\<open>runtime\<close> names the operations of the operating system, of Go's runtime and of the
  third-party packages that read or change it; the library is parametric in them. What the library
  itself issues (metric points, log lines, span operations, backoff timers, probe verdicts) is
  recorded in order in a \<^verbatim>\<open>world\<close>.
\<close>

section \<open>The runtime\<close>

type_synonym metadata = "string \<rightharpoonup> string"

record 'w runtime =
  os_now :: "'w \<Rightarrow> gotime \<times> 'w"                     \<comment> \<open>\<open>time.Now\<close>\<close>
  os_rand :: "int \<Rightarrow> 'w \<Rightarrow> int \<times> 'w"                \<comment> \<open>\<open>rand.Int64N\<close>\<close>
  os_timer :: "'w ctx \<Rightarrow> int \<Rightarrow> 'w \<Rightarrow> bool \<times> 'w"      \<comment> \<open>did the timer fire before \<open>ctx.Done\<close>?\<close>
  os_ctx_err :: "'w ctx \<Rightarrow> 'w \<Rightarrow> bool \<times> 'w"          \<comment> \<open>is \<open>ctx.Err()\<close> non-nil?\<close>
  os_uuid :: "'w \<Rightarrow> (goerr + string) \<times> 'w"          \<comment> \<open>\<open>uuid.NewV7().String()\<close>\<close>
  otel_extract :: "string \<Rightarrow> metadata \<Rightarrow> string"       \<comment> \<open>\<open>Propagator.Extract\<close>\<close>
  otel_inject :: "string \<Rightarrow> metadata \<Rightarrow> metadata"     \<comment> \<open>\<open>Propagator.Inject\<close>\<close>
  otel_start :: "string \<Rightarrow> 'w \<Rightarrow> (string \<times> string \<times> string) \<times> 'w"
    \<comment> \<open>\<open>tracer.Start\<close>: the new trace context, the trace id and the span id\<close>

text \<open>Reading a key of a Go \<open>map[string]string\<close>: the zero value when it is absent.\<close>

definition md_get :: "metadata \<Rightarrow> string \<Rightarrow> string" where
  "md_get md k = (case md k of Some v \<Rightarrow> v | None \<Rightarrow> [])"

text \<open>The transport metadata keys the subscriber stamps on a message.\<close>

definition MetadataStreamID :: string where
  "MetadataStreamID = ''_foi_stream_id''"

definition MetadataDeliveryAttempt :: string where
  "MetadataDeliveryAttempt = ''_foi_delivery_attempt''"

section \<open>What the library issues\<close>

datatype instrument =
    Published | PublishFailures | Received | Processed | Failed | Skipped | Retries | Dlq
  | DlqPublishFailures | ProcessingDuration | QueueLatency

type_synonym attrs = "(string \<times> string) list"

record point =
  pt_instrument :: instrument
  pt_value :: int
  pt_attrs :: attrs

datatype level = LDebug | LInfo | LWarn | LError

datatype attr_value = AStr string | AInt int | ADur int | AErr goerr

record log_line =
  ll_level :: level
  ll_msg :: string
  ll_attrs :: "(string \<times> attr_value) list"

datatype status_code = CodeOk | CodeError

datatype span_op =
    SpanStart string attrs
  | SpanSetAttributes "(string \<times> attr_value) list"
  | SpanAddEvent string "(string \<times> attr_value) list"
  | SpanRecordError goerr
  | SpanSetStatus status_code string
  | SpanEnd

record probe_verdict =
  pv_Kind :: string
  pv_Category :: string
  pv_Reason :: string
  pv_Err :: "goerr option"

record 'w world =
  outside :: 'w
  metrics :: "point list"
  logs :: "log_line list"
  span_ops :: "span_op list"
  sleeps :: "int list"
  probe_out :: "probe_verdict option"

definition start_world :: "'w \<Rightarrow> 'w world" where
  "start_world w = \<lparr>outside = w, metrics = [], logs = [], span_ops = [], sleeps = [], probe_out = None\<rparr>"

text \<open>Running an operation on the outside state.\<close>

definition out :: "('w \<Rightarrow> 'a \<times> 'w) \<Rightarrow> 'w world \<Rightarrow> 'a \<times> 'w world" where
  "out f w = (case f (outside w) of (a, w') \<Rightarrow> (a, w\<lparr>outside := w'\<rparr>))"

definition log_at :: "level \<Rightarrow> string \<Rightarrow> (string \<times> attr_value) list \<Rightarrow> 'w world \<Rightarrow> 'w world" where
  "log_at l m as w = w\<lparr>logs := logs w @ [\<lparr>ll_level = l, ll_msg = m, ll_attrs = as\<rparr>]\<rparr>"

definition span_op :: "span_op \<Rightarrow> 'w world \<Rightarrow> 'w world" where
  "span_op s w = w\<lparr>span_ops := span_ops w @ [s]\<rparr>"

text \<open>How many points an instrument received.\<close>

definition count_of :: "instrument \<Rightarrow> point list \<Rightarrow> nat" where
  "count_of i ps = length (filter (\<lambda>p. pt_instrument p = i) ps)"

lemma count_of_simps [simp]:
  "count_of i [] = 0"
  "count_of i (p # ps) = (if pt_instrument p = i then Suc (count_of i ps) else count_of i ps)"
  "count_of i (ps @ qs) = count_of i ps + count_of i qs"
  by (simp_all add: count_of_def)

lemma log_at_simps [simp]:
  "metrics (log_at l m as w) = metrics w" "outside (log_at l m as w) = outside w"
  "span_ops (log_at l m as w) = span_ops w" "sleeps (log_at l m as w) = sleeps w"
  "probe_out (log_at l m as w) = probe_out w"
  by (simp_all add: log_at_def)

lemma span_op_simps [simp]:
  "metrics (span_op s w) = metrics w" "outside (span_op s w) = outside w"
  "logs (span_op s w) = logs w" "sleeps (span_op s w) = sleeps w"
  "probe_out (span_op s w) = probe_out w" "span_ops (span_op s w) = span_ops w @ [s]"
  by (simp_all add: span_op_def)

lemma out_frame:
  "out f w = (a, w') \<Longrightarrow> metrics w' = metrics w \<and> logs w' = logs w \<and> span_ops w' = span_ops w
     \<and> sleeps w' = sleeps w \<and> probe_out w' = probe_out w"
  by (auto simp: out_def split: prod.splits)

end
