(* ===== verification/Telemetry.thy ===== *)
theory Telemetry
  imports World Config
begin

text \<open>
  \<open>telemetry.go\<close>: instrument construction with its no-op fallback, metric attributes, the
  \<open>published_at\<close> timestamp, and the recorder that turns the stated outcome of one delivery into
  the probe verdict, one duration observation, exactly one terminal counter and the span status.
  Histogram values are kept in nanoseconds; the code divides by a second when it records them.
\<close>

section \<open>Instruments\<close>

definition telemetryScope :: string where
  "telemetryScope = ''github.com/bcgov/foi-messaging-go''"

text \<open>Name and unit of every instrument, in the order \<open>buildInstruments\<close> creates them.\<close>

definition instrument_specs :: "(instrument \<times> string \<times> string) list" where
  "instrument_specs =
     [(Published, ''messaging.events.published'', ''{event}''),
      (PublishFailures, ''messaging.publish.failures'', ''{event}''),
      (Received, ''messaging.events.received'', ''{event}''),
      (Processed, ''messaging.events.processed'', ''{event}''),
      (Failed, ''messaging.events.failed'', ''{event}''),
      (Skipped, ''messaging.events.skipped'', ''{event}''),
      (Retries, ''messaging.retries'', ''{retry}''),
      (Dlq, ''messaging.dlq'', ''{event}''),
      (DlqPublishFailures, ''messaging.dlq.publish.failures'', ''{event}''),
      (ProcessingDuration, ''messaging.processing.duration'', ''s''),
      (QueueLatency, ''messaging.queue.latency'', ''s'')]"

text \<open>
  A set of instruments: those created, and whether they record anything (a set built from the
  no-op provider does not). \<open>create\<close> is the meter's constructor for one instrument.
\<close>

record instruments =
  inst_created :: "instrument list"
  inst_live :: bool

type_synonym meter = "string \<Rightarrow> string \<Rightarrow> goerr option"

fun create_all :: "meter \<Rightarrow> (instrument \<times> string \<times> string) list \<Rightarrow> goerr + instrument list" where
  "create_all create [] = Inr []"
| "create_all create ((i, name, u) # specs) =
     (case create name u of
        Some e \<Rightarrow> Inl e
      | None \<Rightarrow> (case create_all create specs of Inl e \<Rightarrow> Inl e | Inr is \<Rightarrow> Inr (i # is)))"

definition buildInstruments :: "bool \<Rightarrow> meter \<Rightarrow> goerr + instruments" where
  "buildInstruments live create =
     (case create_all create instrument_specs of
        Inl e \<Rightarrow> Inl e
      | Inr is \<Rightarrow> Inr \<lparr>inst_created = is, inst_live = live\<rparr>)"

definition noop_meter :: meter where
  "noop_meter = (\<lambda>_ _. None)"

definition newInstruments :: "meter option \<Rightarrow> 'w world \<Rightarrow> instruments \<times> 'w world" where
  "newInstruments mp w =
     (let noop = (case buildInstruments False noop_meter of
                    Inr i \<Rightarrow> i | Inl e \<Rightarrow> \<lparr>inst_created = [], inst_live = False\<rparr>)
      in case mp of
           None \<Rightarrow> (noop, w)
         | Some create \<Rightarrow>
             (case buildInstruments True create of
                Inr i \<Rightarrow> (i, w)
              | Inl e \<Rightarrow>
                  (noop, log_at LWarn
                     ''messaging: metric instrument creation failed; metrics are disabled for this instance''
                     [(''error'', AErr e)] w)))"

lemma newInstruments_outside: "newInstruments mp w = (i, w') \<Longrightarrow> outside w' = outside w"
  by (auto simp: newInstruments_def Let_def split: option.splits sum.splits)

text \<open>
  \<open>time.Since(t)\<close> at the instant \<open>now\<close>: the difference in nanoseconds, which saturates at the ends of
  the \<open>int64\<close> range.
\<close>

definition Since :: "gotime \<Rightarrow> gotime \<Rightarrow> int" where
  "Since now t = max (- (2 ^ 63)) (min (2 ^ 63 - 1) (ns_since_zero now - ns_since_zero t))"

text \<open>\<open>Add\<close> and \<open>Record\<close> on an instrument.\<close>

definition add_point :: "instruments \<Rightarrow> instrument \<Rightarrow> int \<Rightarrow> attrs \<Rightarrow> 'w world \<Rightarrow> 'w world" where
  "add_point inst i v as w =
     (if inst_live inst
      then w\<lparr>metrics := metrics w @ [\<lparr>pt_instrument = i, pt_value = v, pt_attrs = as\<rparr>]\<rparr>
      else w)"

definition consumeAttrs :: "string \<Rightarrow> string \<Rightarrow> string \<Rightarrow> attrs \<Rightarrow> attrs" where
  "consumeAttrs topic grp eventType extra =
     [(''topic'', topic), (''group'', grp)]
     @ (if eventType \<noteq> [] then [(''event_type'', eventType)] else []) @ extra"

section \<open>published\_at\<close>

definition publishedAtNow :: "gotime \<Rightarrow> string" where
  "publishedAtNow now = format_rfc3339 (UTC now)"

text \<open>
  \<open>time.Parse(time.RFC3339Nano, raw)\<close>; the library only reads back what \<open>publishedAtNow\<close> wrote,
  for which the strict grammar of \<^const>\<open>parse_rfc3339\<close> is the relevant part.
\<close>

definition parsePublishedAt :: "metadata \<Rightarrow> gotime option" where
  "parsePublishedAt md = (case md ''published_at'' of None \<Rightarrow> None | Some raw \<Rightarrow> parse_rfc3339 raw)"

section \<open>The delivery recorder\<close>

datatype outcomeKind = OutcomeUnset | OutcomeProcessed | OutcomeFailed | OutcomeSkipped

record 'w deliveryRecorder =
  dr_inst :: instruments
  dr_topic :: string
  dr_group :: string
  dr_start :: gotime
  dr_kind :: outcomeKind
  dr_category :: string
  dr_reason :: string
  dr_eventType :: string
  dr_err :: "goerr option"
  dr_ended :: bool
  dr_probe :: "'w probe option"

definition newDeliveryRecorder ::
    "instruments \<Rightarrow> string \<Rightarrow> string \<Rightarrow> gotime \<Rightarrow> 'w probe option \<Rightarrow> 'w deliveryRecorder" where
  "newDeliveryRecorder inst topic grp now probe =
     \<lparr>dr_inst = inst, dr_topic = topic, dr_group = grp, dr_start = now, dr_kind = OutcomeUnset,
      dr_category = [], dr_reason = [], dr_eventType = [], dr_err = None, dr_ended = False,
      dr_probe = probe\<rparr>"

definition setEventType :: "string \<Rightarrow> 'w deliveryRecorder \<Rightarrow> 'w deliveryRecorder" where
  "setEventType et r = r\<lparr>dr_eventType := et\<rparr>"

definition processed :: "'w deliveryRecorder \<Rightarrow> 'w deliveryRecorder" where
  "processed r = r\<lparr>dr_kind := OutcomeProcessed\<rparr>"

definition failed :: "string \<Rightarrow> goerr option \<Rightarrow> 'w deliveryRecorder \<Rightarrow> 'w deliveryRecorder" where
  "failed category err r = r\<lparr>dr_kind := OutcomeFailed, dr_category := category, dr_err := err\<rparr>"

definition skipped :: "string \<Rightarrow> 'w deliveryRecorder \<Rightarrow> 'w deliveryRecorder" where
  "skipped reason r = r\<lparr>dr_kind := OutcomeSkipped, dr_reason := reason\<rparr>"

definition record_retry :: "int \<Rightarrow> goerr \<Rightarrow> 'w deliveryRecorder \<Rightarrow> 'w world \<Rightarrow> 'w world" where
  "record_retry attempt err r w =
     (let w = add_point (dr_inst r) Retries 1
                (consumeAttrs (dr_topic r) (dr_group r) (dr_eventType r) []) w
      in span_op (SpanAddEvent ''retry''
           [(''messaging.foi.immediate_attempt'', AInt attempt), (''error'', AStr (Error err))]) w)"

definition kindName :: "outcomeKind \<Rightarrow> string" where
  "kindName k =
     (case k of OutcomeProcessed \<Rightarrow> ''processed'' | OutcomeSkipped \<Rightarrow> ''skipped'' | _ \<Rightarrow> ''failed'')"

definition recordFailure :: "attrs \<Rightarrow> 'w deliveryRecorder \<Rightarrow> 'w world \<Rightarrow> 'w world" where
  "recordFailure base r w =
     (let w = add_point (dr_inst r) Failed 1 (base @ [(''error_category'', dr_category r)]) w;
          w = (case dr_err r of Some e \<Rightarrow> span_op (SpanRecordError e) w | None \<Rightarrow> w)
      in span_op (SpanSetStatus CodeError (dr_category r)) w)"

definition end_delivery ::
    "'w runtime \<Rightarrow> 'w deliveryRecorder \<Rightarrow> 'w world \<Rightarrow> 'w deliveryRecorder \<times> 'w world" where
  "end_delivery rt r w =
     (if dr_ended r then (r, w)
      else
        (let r = r\<lparr>dr_ended := True\<rparr>;
             w = (case dr_probe r of
                    Some _ \<Rightarrow> w\<lparr>probe_out := Some \<lparr>pv_Kind = kindName (dr_kind r),
                       pv_Category = dr_category r, pv_Reason = dr_reason r, pv_Err = dr_err r\<rparr>\<rparr>
                  | None \<Rightarrow> w);
             (now, w) = out (os_now rt) w;
             elapsed = Since now (dr_start r);
             base = consumeAttrs (dr_topic r) (dr_group r) (dr_eventType r) [];
             w = add_point (dr_inst r) ProcessingDuration elapsed base w;
             (r, w) =
               (case dr_kind r of
                  OutcomeProcessed \<Rightarrow>
                    (r, span_op (SpanSetStatus CodeOk []) (add_point (dr_inst r) Processed 1 base w))
                | OutcomeSkipped \<Rightarrow>
                    (r, span_op (SpanSetStatus CodeOk [])
                          (add_point (dr_inst r) Skipped 1
                             (consumeAttrs (dr_topic r) (dr_group r) [] [(''reason'', dr_reason r)]) w))
                | OutcomeFailed \<Rightarrow> (r, recordFailure base r w)
                | OutcomeUnset \<Rightarrow>
                    (let w = log_at LError
                               ''messaging: delivery ended with no recorded outcome; this is a bug in the library''
                               [(''topic'', AStr (dr_topic r))] w;
                         r = r\<lparr>dr_category := ''unknown''\<rparr>
                     in (r, recordFailure base r w)))
         in (r, span_op SpanEnd w)))"

lemmas telemetry_defs [step_defs] =
  add_point_def consumeAttrs_def setEventType_def processed_def failed_def skipped_def
  record_retry_def kindName_def recordFailure_def end_delivery_def newDeliveryRecorder_def


section \<open>What one recorded delivery adds\<close>

definition terminal :: "instrument \<Rightarrow> bool" where
  "terminal i \<longleftrightarrow> i \<in> {Processed, Failed, Skipped}"

definition terminal_count :: "point list \<Rightarrow> nat" where
  "terminal_count ps = count_of Processed ps + count_of Failed ps + count_of Skipped ps"

definition terminal_of :: "outcomeKind \<Rightarrow> instrument" where
  "terminal_of k = (case k of OutcomeProcessed \<Rightarrow> Processed | OutcomeSkipped \<Rightarrow> Skipped | _ \<Rightarrow> Failed)"

lemma terminal_count_simps [simp]:
  "terminal_count [] = 0"
  "terminal_count (ps @ qs) = terminal_count ps + terminal_count qs"
  by (simp_all add: terminal_count_def)

lemma add_point_frame [simp]:
  "outside (add_point inst i v as w) = outside w" "logs (add_point inst i v as w) = logs w"
  "span_ops (add_point inst i v as w) = span_ops w" "sleeps (add_point inst i v as w) = sleeps w"
  "probe_out (add_point inst i v as w) = probe_out w"
  "metrics (add_point inst i v as w) = metrics w @
     (if inst_live inst then [\<lparr>pt_instrument = i, pt_value = v, pt_attrs = as\<rparr>] else [])"
  by (simp_all add: add_point_def)

lemma recordFailure_frame [simp]:
  "outside (recordFailure base r w) = outside w" "logs (recordFailure base r w) = logs w"
  "sleeps (recordFailure base r w) = sleeps w" "probe_out (recordFailure base r w) = probe_out w"
  "metrics (recordFailure base r w) = metrics w @
     (if inst_live (dr_inst r) then [\<lparr>pt_instrument = Failed, pt_value = 1,
        pt_attrs = base @ [(''error_category'', dr_category r)]\<rparr>] else [])"
  by (simp_all add: recordFailure_def Let_def split: option.split)

text \<open>The attributes of the terminal counter of a recorder.\<close>

definition terminal_attrs :: "'w deliveryRecorder \<Rightarrow> attrs" where
  "terminal_attrs r =
     (case dr_kind r of
        OutcomeProcessed \<Rightarrow> consumeAttrs (dr_topic r) (dr_group r) (dr_eventType r) []
      | OutcomeSkipped \<Rightarrow> consumeAttrs (dr_topic r) (dr_group r) [] [(''reason'', dr_reason r)]
      | OutcomeFailed \<Rightarrow> consumeAttrs (dr_topic r) (dr_group r) (dr_eventType r) []
                           @ [(''error_category'', dr_category r)]
      | OutcomeUnset \<Rightarrow> consumeAttrs (dr_topic r) (dr_group r) (dr_eventType r) []
                           @ [(''error_category'', ''unknown'')])"

definition verdict_of :: "'w deliveryRecorder \<Rightarrow> probe_verdict" where
  "verdict_of r = \<lparr>pv_Kind = kindName (dr_kind r), pv_Category = dr_category r,
                   pv_Reason = dr_reason r, pv_Err = dr_err r\<rparr>"

lemma end_delivery_metrics:
  assumes "end_delivery rt r w = (r', w')" and "\<not> dr_ended r" and "inst_live (dr_inst r)"
  shows "\<exists>elapsed. metrics w' = metrics w @
    [\<lparr>pt_instrument = ProcessingDuration, pt_value = elapsed,
      pt_attrs = consumeAttrs (dr_topic r) (dr_group r) (dr_eventType r) []\<rparr>,
     \<lparr>pt_instrument = terminal_of (dr_kind r), pt_value = 1, pt_attrs = terminal_attrs r\<rparr>]"
  using assms
  by (cases "dr_kind r")
    (auto simp: end_delivery_def Let_def out_def terminal_of_def terminal_attrs_def
      split: prod.splits option.splits)

lemma end_delivery_frame:
  assumes "end_delivery rt r w = (r', w')"
  shows "dr_ended r' \<and> sleeps w' = sleeps w
    \<and> (dr_kind r \<noteq> OutcomeUnset \<longrightarrow> logs w' = logs w)
    \<and> (\<not> dr_ended r \<longrightarrow> probe_out w' = (if dr_probe r = None then probe_out w else Some (verdict_of r)))"
  using assms
  by (cases "dr_kind r")
    (auto simp: end_delivery_def Let_def out_def verdict_of_def split: prod.splits option.splits if_splits)

lemma end_delivery_twice:
  "end_delivery rt r w = (r', w') \<Longrightarrow> end_delivery rt r' w' = (r', w')"
  by (drule end_delivery_frame) (simp add: end_delivery_def)

lemma terminal_of_terminal: "terminal_count [\<lparr>pt_instrument = terminal_of k, pt_value = v, pt_attrs = as\<rparr>] = 1"
  by (cases k) (simp_all add: terminal_of_def terminal_count_def)

lemma create_all_instruments: "create_all create specs = Inr is \<Longrightarrow> is = map fst specs"
  by (induction create specs arbitrary: "is" rule: create_all.induct) (auto split: option.splits sum.splits)

text \<open>
  \<open>newInstruments\<close> never leaves a gap: whatever provider it is given, failing or absent, the
  set it returns holds all eleven instruments in order; the set is live exactly when the given
  provider created every one of them; and a provider that fails costs one warning, no error.
\<close>

lemma newInstruments_total:
  "inst_created (fst (newInstruments mp w)) = map fst instrument_specs
   \<and> (inst_live (fst (newInstruments mp w)) \<longleftrightarrow>
        (\<exists>create. mp = Some create \<and> list_all (\<lambda>(i, n, u). create n u = None) instrument_specs))
   \<and> length (logs (snd (newInstruments mp w))) \<le> length (logs w) + 1"
proof -
  have total: "create_all create specs = Inr (map fst specs) \<longleftrightarrow> list_all (\<lambda>(i, n, u). create n u = None) specs"
    for create :: meter and specs
    by (induction create specs rule: create_all.induct) (auto split: option.splits sum.splits)
  have noop: "create_all noop_meter instrument_specs = Inr (map fst instrument_specs)"
    using total [of noop_meter instrument_specs] by (simp add: noop_meter_def split_beta list_all_iff)
  show ?thesis
  proof (cases mp)
    case None
    then show ?thesis by (simp add: newInstruments_def noop buildInstruments_def)
  next
    case (Some create)
    have "create_all create instrument_specs = Inr is \<Longrightarrow> is = map fst instrument_specs" for "is"
      by (rule create_all_instruments)
    then show ?thesis
      using total [of create instrument_specs]
      by (cases "create_all create instrument_specs")
        (auto simp: newInstruments_def noop Some buildInstruments_def log_at_def)
  qed
qed

end
