(* ===== verification/Dlq.thy ===== *)
theory Dlq
  imports Json
begin

text \<open>
  \<open>dlq.go\<close>: the dead-letter document, its JSON form, and the choice between \<open>event\<close> and
  \<open>event_raw\<close>. A nil byte slice and an empty one are both \<^term>\<open>[]\<close>: every use is \<open>omitempty\<close>.
\<close>

definition ReasonPermanent :: string where
  "ReasonPermanent = ''permanent''"

definition ReasonMaxAttemptsExceeded :: string where
  "ReasonMaxAttemptsExceeded = ''max_attempts_exceeded''"

definition ReasonDeserializationFailed :: string where
  "ReasonDeserializationFailed = ''deserialization_failed''"

lemmas reason_defs = ReasonPermanent_def ReasonMaxAttemptsExceeded_def ReasonDeserializationFailed_def

record DeadLetter =
  dl_DeadLetteredAt :: gotime
  dl_Reason :: string
  dl_Error :: string
  dl_DeliveryAttempts :: int
  dl_ConsumerGroup :: string
  dl_ConsumerName :: string
  dl_OriginalTopic :: string
  dl_Event :: bytes
  dl_EventRaw :: bytes

text \<open>\<open>json.Marshal(dl)\<close>: the fields in declaration order, the last two only when not empty.\<close>

definition Marshal_dead_letter :: "DeadLetter \<Rightarrow> goerr + string" where
  "Marshal_dead_letter dl =
     (case Marshal_time (dl_DeadLetteredAt dl) of
        Inl e \<Rightarrow> Inl e
      | Inr at \<Rightarrow>
          (case (if dl_Event dl = [] then Inr [] else Marshal_raw (dl_Event dl)) of
             Inl e \<Rightarrow> Inl e
           | Inr ev \<Rightarrow>
               Inr (Marshal_object
                 ([(''dead_lettered_at'', at),
                   (''reason'', Marshal_string (dl_Reason dl)),
                   (''error'', Marshal_string (dl_Error dl)),
                   (''delivery_attempts'', FormatInt (dl_DeliveryAttempts dl)),
                   (''consumer_group'', Marshal_string (dl_ConsumerGroup dl)),
                   (''consumer_name'', Marshal_string (dl_ConsumerName dl)),
                   (''original_topic'', Marshal_string (dl_OriginalTopic dl))]
                  @ (if dl_Event dl = [] then [] else [(''event'', ev)])
                  @ (if dl_EventRaw dl = [] then [] else [(''event_raw'', Marshal_bytes (dl_EventRaw dl))])))))"

definition deadLetterBody :: "bytes \<Rightarrow> bytes \<times> bytes" where
  "deadLetterBody payload = (if Valid payload then (payload, []) else ([], payload))"

end
