(* ===== verification/Consumer.thy ===== *)
theory Consumer
  imports Registry Telemetry Dlq
begin

text \<open>
  The \<open>Consumer\<close> object of \<open>consumer.go\<close>: its state, construction, handler registration, and
  \<open>Close\<close> with the reader it releases. Every operation that takes \<open>c.mu\<close> is one atomic
  function on the state; the delivery path is in theory \<open>Delivery\<close>, \<open>Run\<close> in theory \<open>Run\<close>.
\<close>

section \<open>Dead-letter sinks\<close>

text \<open>
  \<open>internalwatermill.Publisher.Publish\<close> as the sink calls it: context, stream, message id, body,
  metadata. A nil metadata map is the empty one.
\<close>

type_synonym 'w stream_publisher =
  "ctx_values \<Rightarrow> string \<Rightarrow> string \<Rightarrow> bytes \<Rightarrow> metadata \<Rightarrow> 'w \<Rightarrow> goerr option \<times> 'w"

type_synonym 'w sink_fun = "ctx_values \<Rightarrow> string \<Rightarrow> bytes \<Rightarrow> 'w \<Rightarrow> goerr option \<times> 'w"

datatype 'w deadLetterSink = RedisDeadLetterSink "'w stream_publisher" | ProbeSink "'w sink_fun"

fun publish_sink :: "'w runtime \<Rightarrow> 'w deadLetterSink \<Rightarrow> 'w sink_fun" where
  "publish_sink rt (ProbeSink f) ctx stream body w = f ctx stream body w"
| "publish_sink rt (RedisDeadLetterSink pub) ctx stream body w =
     (case os_uuid rt w of
        (Inl e, w) \<Rightarrow> (Some (WrapError [Lit ''generating dead letter id: ''] e), w)
      | (Inr i, w) \<Rightarrow> pub ctx stream i body Map.empty w)"

section \<open>State\<close>

text \<open>A reader stands for the Redis client it was built over, by number.\<close>

record 'w consumer =
  co_cfg :: Config
  co_registry :: "'w registry"
  co_running :: bool
  co_dlq :: "'w deadLetterSink option"
  co_reader :: "nat option"
  co_inst :: instruments

definition streamName :: "'w consumer \<Rightarrow> string \<Rightarrow> string" where
  "streamName c topic = cfg_StreamPrefix (co_cfg c) @ '':'' @ topic"

text \<open>
  \<open>meter_of\<close> is what the configured \<open>MeterProvider\<close> creates; the remaining arguments are those of
  the two validators.
\<close>

definition NewConsumer ::
    "(collaborator \<Rightarrow> meter) \<Rightarrow> int \<Rightarrow> goerr + string \<Rightarrow> goerr + bytes \<Rightarrow> Config \<Rightarrow> 'w world
     \<Rightarrow> (goerr + 'w consumer) \<times> 'w world" where
  "NewConsumer meter_of gomaxprocs hostname suffix cfg w =
     (case Validate gomaxprocs cfg of
        (Some e, _) \<Rightarrow> (Inl (WrapError [Lit ''invalid config: ''] e), w)
      | (None, cfg) \<Rightarrow>
          (case validateConsumer hostname suffix cfg of
             (Some e, _) \<Rightarrow> (Inl (WrapError [Lit ''invalid config: ''] e), w)
           | (None, cfg) \<Rightarrow>
               (let (inst, w) = newInstruments (map_option meter_of (tc_MeterProvider (cfg_Telemetry cfg))) w
                in (Inr \<lparr>co_cfg = cfg, co_registry = newRegistry, co_running = False, co_dlq = None,
                         co_reader = None, co_inst = inst\<rparr>, w))))"

section \<open>Registration\<close>

definition validateEventDef :: "EventDef \<Rightarrow> goerr option" where
  "validateEventDef def =
     (if def_Topic def = [] then Some (ErrorString [Lit ''event def: Topic is required''])
      else if def_Type def = [] then Some (ErrorString [Lit ''event def: Type is required''])
      else if \<not> MatchString eventTypePattern (def_Type def) then
        Some (ErrorString [Lit ''event def: Type '', Quoted (def_Type def),
                           Lit '' must be 2-3 dot-separated lowercase segments''])
      else if def_Version def = [] then Some (ErrorString [Lit ''event def: Version is required''])
      else if \<not> MatchString schemaVersionPattern (def_Version def) then
        Some (ErrorString [Lit ''event def: Version '', Quoted (def_Version def),
                           Lit '' must be MAJOR.MINOR.PATCH''])
      else None)"

definition after_run_error :: goerr where
  "after_run_error = ErrorString [Lit ''consumer: handlers cannot be registered after Run has started'']"

text \<open>\<open>RegisterHandler\<close> with the typed handler already erased by \<open>typedDispatch\<close>.\<close>

definition register_typed :: "EventDef \<Rightarrow> 'w dispatchFunc \<Rightarrow> 'w consumer \<Rightarrow> goerr option \<times> 'w consumer" where
  "register_typed def fn c =
     (case validateEventDef def of
        Some e \<Rightarrow> (Some e, c)
      | None \<Rightarrow>
          (case majorVersion (def_Version def) of
             Inl e \<Rightarrow> (Some (WrapError [Lit ''event def: ''] e), c)
           | Inr major \<Rightarrow>
               if co_running c then (Some after_run_error, c)
               else (case addTyped (def_Topic def) (def_Type def) major fn (co_registry c) of
                       (err, r) \<Rightarrow> (err, c\<lparr>co_registry := r\<rparr>))))"

definition RegisterHandler ::
    "'p \<Rightarrow> (bytes \<Rightarrow> goerr + 'p) \<Rightarrow> EventDef \<Rightarrow> ('p, 'w) Handler \<Rightarrow> 'w consumer
     \<Rightarrow> goerr option \<times> 'w consumer" where
  "RegisterHandler zero unmarshal def h c = register_typed def (typedDispatch zero unmarshal h) c"

definition RegisterRawHandler ::
    "TopicSelector \<Rightarrow> (bytes, 'w) Handler \<Rightarrow> 'w consumer \<Rightarrow> goerr option \<times> 'w consumer" where
  "RegisterRawHandler sel h c =
     (if sel_Topic sel = [] then (Some (ErrorString [Lit ''topic selector: Topic is required'']), c)
      else if co_running c then (Some after_run_error, c)
      else (case addRaw (sel_Topic sel) (\<lambda>ctx env. h ctx env) (co_registry c) of
              (err, r) \<Rightarrow> (err, c\<lparr>co_registry := r\<rparr>)))"

section \<open>Lifecycle\<close>

definition markRunning :: "'w consumer \<Rightarrow> bool \<times> 'w consumer" where
  "markRunning c = (if co_running c then (False, c) else (True, c\<lparr>co_running := True\<rparr>))"

text \<open>\<open>close_client\<close> is \<open>StreamReader.Close\<close>, which closes the Redis client.\<close>

definition closeReader ::
    "(nat \<Rightarrow> 'w \<Rightarrow> goerr option \<times> 'w) \<Rightarrow> nat \<Rightarrow> 'w consumer \<Rightarrow> 'w
     \<Rightarrow> goerr option \<times> 'w consumer \<times> 'w" where
  "closeReader close_client reader c w =
     (case close_client reader w of
        (err, w) \<Rightarrow> (err, c\<lparr>co_reader := None, co_dlq := None\<rparr>, w))"

definition Close ::
    "(nat \<Rightarrow> 'w \<Rightarrow> goerr option \<times> 'w) \<Rightarrow> 'w consumer \<Rightarrow> 'w \<Rightarrow> goerr option \<times> 'w consumer \<times> 'w" where
  "Close close_client c w =
     (if co_running c then (None, c, w)
      else (case co_reader c of
              None \<Rightarrow> (None, c\<lparr>co_reader := None\<rparr>, w)
            | Some reader \<Rightarrow>
                (case close_client reader w of
                   (err, w) \<Rightarrow> (err, c\<lparr>co_reader := None\<rparr>, w))))"

section \<open>Properties\<close>

lemma validateEventDef_None:
  "validateEventDef def = None \<longleftrightarrow>
     def_Topic def \<noteq> [] \<and> event_type_ok (def_Type def) \<and> version_ok (def_Version def)"
  by (auto simp: validateEventDef_def event_type_ok_iff version_ok_iff)

text \<open>What every consumer satisfies from construction on.\<close>

definition consumer_wf :: "'w consumer \<Rightarrow> bool" where
  "consumer_wf c \<longleftrightarrow> config_ok (co_cfg c) \<and> consumer_ok (co_cfg c) \<and> reg_wf (co_registry c)
     \<and> inst_created (co_inst c) = map fst instrument_specs"

end
