(* ===== verification/Redis_Stream.thy ===== *)
theory Redis_Stream
  imports Config
begin

text \<open>
  \<open>internal/redis\<close>: the Redis Streams commands of the consumer. The go-redis client is a record of
  the commands the code issues, with their results as go-redis reports them; \<open>goredis.Nil\<close> is a
  sentinel. Field values of a stream entry are the strings go-redis returns.
\<close>

section \<open>Data\<close>

type_synonym fields = "(string \<times> string) list"

record Entry =
  en_ID :: string
  en_Fields :: fields

record PendingEntry =
  pe_ID :: string
  pe_RetryCount :: int
  pe_Idle :: int

definition redis_Nil :: goerr where
  "redis_Nil = Sentinel ''redis: nil''"

definition ErrNoGroup_text :: string where
  "ErrNoGroup_text = ''consumer group does not exist''"

definition ErrNoGroup :: goerr where
  "ErrNoGroup = Sentinel ErrNoGroup_text"

text \<open>
  The client: group creation (stream, group, start id), group read (group, consumer, stream, id,
  count, block), the pending list (stream, group, idle, start, end, count), claiming (stream,
  group, consumer, min idle, ids) and acknowledging (stream, group, ids).
\<close>

record 'w redis_client =
  XGroupCreateMkStream :: "string \<Rightarrow> string \<Rightarrow> string \<Rightarrow> 'w \<Rightarrow> goerr option \<times> 'w"
  XReadGroup :: "string \<Rightarrow> string \<Rightarrow> string \<Rightarrow> string \<Rightarrow> int \<Rightarrow> int \<Rightarrow> 'w \<Rightarrow> (goerr + (string \<times> Entry list) list) \<times> 'w"
  XPendingExt :: "string \<Rightarrow> string \<Rightarrow> int \<Rightarrow> string \<Rightarrow> string \<Rightarrow> int \<Rightarrow> 'w \<Rightarrow> (goerr + PendingEntry list) \<times> 'w"
  XClaim :: "string \<Rightarrow> string \<Rightarrow> string \<Rightarrow> int \<Rightarrow> string list \<Rightarrow> 'w \<Rightarrow> (goerr + Entry list) \<times> 'w"
  XAck :: "string \<Rightarrow> string \<Rightarrow> string list \<Rightarrow> 'w \<Rightarrow> goerr option \<times> 'w"

record 'w StreamReader =
  sr_client :: "'w redis_client"
  sr_group :: string
  sr_consumer :: string

definition NewStreamReader :: "'w redis_client \<Rightarrow> string \<Rightarrow> string \<Rightarrow> 'w StreamReader" where
  "NewStreamReader client grp consumer = \<lparr>sr_client = client, sr_group = grp, sr_consumer = consumer\<rparr>"

record ClientOptions =
  co_Address :: string
  co_Username :: string
  co_Password :: string
  co_TLS :: "nat option"
  co_DB :: int
  co_PoolSize :: int

definition redisClientOptions :: "RedisConfig \<Rightarrow> ClientOptions" where
  "redisClientOptions c =
     \<lparr>co_Address = rc_Address c, co_Username = rc_Username c, co_Password = rc_Password c,
      co_TLS = rc_TLS c, co_DB = rc_DB c, co_PoolSize = rc_PoolSize c\<rparr>"

section \<open>Commands\<close>

definition classifyGroupErr :: "goerr \<Rightarrow> goerr" where
  "classifyGroupErr err =
     (if HasPrefix (Error err) ''NOGROUP'' then JoinError '': '' [ErrNoGroup, err] else err)"

definition EnsureGroup :: "'w StreamReader \<Rightarrow> string \<Rightarrow> 'w \<Rightarrow> goerr option \<times> 'w" where
  "EnsureGroup r stream w =
     (case XGroupCreateMkStream (sr_client r) stream (sr_group r) ''0'' w of
        (None, w) \<Rightarrow> (None, w)
      | (Some err, w) \<Rightarrow>
          if Contains (Error err) ''BUSYGROUP'' then (None, w)
          else (Some (WrapError [Lit ''creating consumer group '', Quoted (sr_group r),
                                 Lit '' on stream '', Quoted stream, Lit '': ''] err), w))"

definition ReadNew :: "'w StreamReader \<Rightarrow> string \<Rightarrow> int \<Rightarrow> int \<Rightarrow> 'w \<Rightarrow> (goerr + Entry list) \<times> 'w" where
  "ReadNew r stream cnt block w =
     (case XReadGroup (sr_client r) (sr_group r) (sr_consumer r) stream ''>'' cnt block w of
        (Inl err, w) \<Rightarrow>
          if err = redis_Nil then (Inr [], w)
          else (Inl (WrapError [Lit ''reading group '', Quoted (sr_group r), Lit '' on stream '',
                                Quoted stream, Lit '': ''] (classifyGroupErr err)), w)
      | (Inr streams, w) \<Rightarrow>
          (Inr (concat (map (\<lambda>(_, ms). map (\<lambda>m. \<lparr>en_ID = en_ID m, en_Fields = en_Fields m\<rparr>) ms) streams)), w))"

definition PendingOverIdle ::
    "'w StreamReader \<Rightarrow> string \<Rightarrow> int \<Rightarrow> int \<Rightarrow> 'w \<Rightarrow> (goerr + PendingEntry list) \<times> 'w" where
  "PendingOverIdle r stream minIdle cnt w =
     (case XPendingExt (sr_client r) stream (sr_group r) minIdle ''-'' ''+'' cnt w of
        (Inl err, w) \<Rightarrow>
          if err = redis_Nil then (Inr [], w)
          else (Inl (WrapError [Lit ''listing pending entries on stream '', Quoted stream, Lit '': '']
                       (classifyGroupErr err)), w)
      | (Inr pending, w) \<Rightarrow>
          (Inr (map (\<lambda>p. \<lparr>pe_ID = pe_ID p, pe_RetryCount = pe_RetryCount p, pe_Idle = pe_Idle p\<rparr>) pending), w))"

definition Claim ::
    "'w StreamReader \<Rightarrow> string \<Rightarrow> int \<Rightarrow> string list \<Rightarrow> 'w \<Rightarrow> (goerr + Entry list) \<times> 'w" where
  "Claim r stream minIdle ids w =
     (if length ids = 0 then (Inr [], w)
      else
        (case XClaim (sr_client r) stream (sr_group r) (sr_consumer r) minIdle ids w of
           (Inl err, w) \<Rightarrow>
             if err = redis_Nil then (Inr [], w)
             else (Inl (WrapError [Lit ''claiming entries on stream '', Quoted stream, Lit '': '']
                          (classifyGroupErr err)), w)
         | (Inr messages, w) \<Rightarrow>
             (Inr (map (\<lambda>m. \<lparr>en_ID = en_ID m, en_Fields = en_Fields m\<rparr>) messages), w)))"

definition Ack :: "'w StreamReader \<Rightarrow> string \<Rightarrow> string list \<Rightarrow> 'w \<Rightarrow> goerr option \<times> 'w" where
  "Ack r stream ids w =
     (if length ids = 0 then (None, w)
      else (case XAck (sr_client r) stream (sr_group r) ids w of
              (None, w) \<Rightarrow> (None, w)
            | (Some err, w) \<Rightarrow>
                (Some (WrapError [Lit ''acking entries on stream '', Quoted stream, Lit '': ''] err), w)))"

section \<open>Properties\<close>

lemma classifyGroupErr_Is:
  "Is_sentinel ErrNoGroup_text (classifyGroupErr e) \<longleftrightarrow>
     HasPrefix (Error e) ''NOGROUP'' \<or> Is_sentinel ErrNoGroup_text e"
  by (auto simp: classifyGroupErr_def ErrNoGroup_def)

text \<open>A reply that says the group, or the stream with it, is gone.\<close>

definition group_lost :: "goerr + 'a \<Rightarrow> bool" where
  "group_lost res \<longleftrightarrow> (case res of Inl e \<Rightarrow> Is_sentinel ErrNoGroup_text e | Inr _ \<Rightarrow> False)"

definition nogroup_reply :: "goerr + 'a \<Rightarrow> bool" where
  "nogroup_reply res \<longleftrightarrow>
     (case res of
        Inl e \<Rightarrow> e \<noteq> redis_Nil \<and> (HasPrefix (Error e) ''NOGROUP'' \<or> Is_sentinel ErrNoGroup_text e)
      | Inr _ \<Rightarrow> False)"

text \<open>
  C40. A lost consumer group is recognised through every layer of wrapping, and nothing else is taken
  for one: \<open>errors.Is(err, ErrNoGroup)\<close> holds for the error of a read, a pending scan or a claim
  exactly when the server's reply starts with \<open>NOGROUP\<close>; an empty (nil) reply is an empty result,
  never an error.
\<close>

theorem group_loss_detected:
  "group_lost (fst (ReadNew r stream n b w)) =
     nogroup_reply (fst (XReadGroup (sr_client r) (sr_group r) (sr_consumer r) stream ''>'' n b w))
   \<and> group_lost (fst (PendingOverIdle r stream idle n w)) =
     nogroup_reply (fst (XPendingExt (sr_client r) stream (sr_group r) idle ''-'' ''+'' n w))
   \<and> group_lost (fst (Claim r stream idle (i # ids) w)) =
     nogroup_reply (fst (XClaim (sr_client r) stream (sr_group r) (sr_consumer r) idle (i # ids) w))"
  by (auto simp: ReadNew_def PendingOverIdle_def Claim_def group_lost_def nogroup_reply_def
      classifyGroupErr_Is split: prod.splits sum.splits)

text \<open>
  Creating the group is idempotent across instances: \<open>EnsureGroup\<close> fails exactly when the command
  failed with something other than \<open>BUSYGROUP\<close>, the command always starts the group at id 0, and the
  error it returns still carries the server's text.
\<close>

lemma EnsureGroup_idempotent:
  "(fst (EnsureGroup r stream w) = None \<longleftrightarrow>
      (case fst (XGroupCreateMkStream (sr_client r) stream (sr_group r) ''0'' w) of
         None \<Rightarrow> True | Some e \<Rightarrow> Contains (Error e) ''BUSYGROUP''))
   \<and> snd (EnsureGroup r stream w) = snd (XGroupCreateMkStream (sr_client r) stream (sr_group r) ''0'' w)
   \<and> (case fst (EnsureGroup r stream w) of
        None \<Rightarrow> True
      | Some e \<Rightarrow> (\<exists>e0 p. fst (XGroupCreateMkStream (sr_client r) stream (sr_group r) ''0'' w) = Some e0
                     \<and> Error e = p @ Error e0))"
  by (auto simp: EnsureGroup_def split: prod.splits option.splits)

end
