(* ===== verification/Subscriber.thy ===== *)
theory Subscriber
  imports Redis_Stream World
begin

text \<open>
  \<open>internal/watermill/subscriber.go\<close>: one subscription as a state machine. Its threads are the read
  loop, the claim loop and one ack-wait goroutine per message in flight; they share the semaphore
  channel. A state holds each thread's position, and an \<open>event\<close> is one step of one thread together
  with what its environment answered (a Redis reply, a hook result, which ready branch a \<open>select\<close>
  took), or an action of the outside (cancelling the context, closing the subscriber, a handler
  settling a message). Every interleaving is a sequence of events.
\<close>

section \<open>Data\<close>

definition defaultBlockTime :: int where "defaultBlockTime = Second"

text \<open>A watermill message, and the third-party decoding of stream fields into one.\<close>

record message =
  msg_UUID :: string
  msg_Payload :: bytes
  msg_Metadata :: metadata

type_synonym unmarshaller = "fields \<Rightarrow> goerr + message"

record SubscriberOptions =
  so_HasReader :: bool
  so_Concurrency :: int
  so_ClaimInterval :: int
  so_ClaimMinIdle :: int
  so_BlockTime :: int
  so_HasLogger :: bool
  so_HasHook :: bool

record Subscriber =
  sb_concurrency :: int
  sb_claimInterval :: int
  sb_claimMinIdle :: int
  sb_blockTime :: int
  sb_defaultLogger :: bool
  sb_onUndecodable :: bool

definition ErrNoReader :: goerr where
  "ErrNoReader = Sentinel ''subscriber: Reader is required''"

definition NewSubscriber :: "SubscriberOptions \<Rightarrow> goerr + Subscriber" where
  "NewSubscriber opts =
     (if \<not> so_HasReader opts then Inl ErrNoReader
      else Inr \<lparr>sb_concurrency = (if so_Concurrency opts < 1 then 1 else so_Concurrency opts),
                sb_claimInterval = so_ClaimInterval opts, sb_claimMinIdle = so_ClaimMinIdle opts,
                sb_blockTime = (if so_BlockTime opts \<le> 0 then defaultBlockTime else so_BlockTime opts),
                sb_defaultLogger = (\<not> so_HasLogger opts), sb_onUndecodable = so_HasHook opts\<rparr>)"

text \<open>Where the two loops are. Between \<open>acquire\<close> and \<open>release\<close> a loop holds a slot.\<close>

datatype read_pc = RAcquire | RReading | REmit Entry | RPause | RDone

datatype claim_pc =
    COff | CTick | CScan | CPause
  | CSweep "PendingEntry list"
  | CClaiming PendingEntry "PendingEntry list"
  | CEmit Entry int "PendingEntry list"
  | CDone

datatype settlement = Waiting | MsgAcked | MsgNacked

record waiter =
  wt_ID :: string
  wt_settled :: settlement

text \<open>
  \<open>sc_sem\<close> is the number of tokens in the semaphore channel, \<open>sc_xacks\<close> the ids for which
  \<open>reader.Ack\<close> was called, \<open>sc_sent\<close> the messages handed to the router, \<open>sc_left\<close> those whose
  goroutine gave up on \<open>closing\<close> while their handler was still running; \<open>sc_hook_ok\<close> records what the
  hook accepted, \<open>sc_handler_acks\<close> every message a handler acknowledged, and \<open>sc_late\<close> those of them
  that were acknowledged when no goroutine was left to see it.
\<close>

record subscription =
  sc_stream :: string
  sc_ctx_done :: bool
  sc_closing :: bool
  sc_sem :: nat
  sc_read :: read_pc
  sc_claim :: claim_pc
  sc_waiters :: "waiter list"
  sc_left :: "string list"
  sc_sent :: "message list"
  sc_xacks :: "string list"
  sc_hook_ok :: "string list"
  sc_handler_acks :: "string list"
  sc_late :: "string list"
  sc_logs :: "log_line list"
  sc_out_closed :: bool

section \<open>Operations\<close>

definition Subscribe :: "Subscriber \<Rightarrow> string \<Rightarrow> goerr option \<Rightarrow> goerr + subscription" where
  "Subscribe s stream ensured =
     (case ensured of
        Some err \<Rightarrow> Inl (WrapError [Lit ''ensuring consumer group on '', Quoted stream, Lit '': ''] err)
      | None \<Rightarrow>
          Inr \<lparr>sc_stream = stream, sc_ctx_done = False, sc_closing = False, sc_sem = 0,
               sc_read = RAcquire, sc_claim = (if sb_claimInterval s > 0 then CTick else COff),
               sc_waiters = [], sc_left = [], sc_sent = [], sc_xacks = [], sc_hook_ok = [],
               sc_handler_acks = [], sc_late = [], sc_logs = [], sc_out_closed = False\<rparr>)"

definition stopped :: "subscription \<Rightarrow> bool" where
  "stopped sc \<longleftrightarrow> sc_closing sc \<or> sc_ctx_done sc"

text \<open>The semaphore branch of \<open>acquire\<close>: the send is ready while the channel is not full.\<close>

definition acquire :: "Subscriber \<Rightarrow> subscription \<Rightarrow> subscription option" where
  "acquire s sc = (if int (sc_sem sc) < sb_concurrency s then Some (sc\<lparr>sc_sem := sc_sem sc + 1\<rparr>) else None)"

text \<open>\<open>release\<close> receives a token; it would block on an empty channel.\<close>

definition release :: "subscription \<Rightarrow> subscription option" where
  "release sc = (if 0 < sc_sem sc then Some (sc\<lparr>sc_sem := sc_sem sc - 1\<rparr>) else None)"

definition sc_log :: "level \<Rightarrow> string \<Rightarrow> (string \<times> attr_value) list \<Rightarrow> subscription \<Rightarrow> subscription" where
  "sc_log l m as sc = sc\<lparr>sc_logs := sc_logs sc @ [\<lparr>ll_level = l, ll_msg = m, ll_attrs = as\<rparr>]\<rparr>"

definition recreateGroup :: "goerr option \<Rightarrow> subscription \<Rightarrow> subscription" where
  "recreateGroup ensured sc =
     (let sc = sc_log LWarn ''messaging: consumer group missing, recreating''
                 [(''stream'', AStr (sc_stream sc))] sc
      in case ensured of
           None \<Rightarrow> sc
         | Some err \<Rightarrow>
             if stopped sc then sc
             else sc_log LError ''messaging: recreating consumer group failed''
                    [(''stream'', AStr (sc_stream sc)), (''error'', AErr err)] sc)"

definition ack :: "string \<Rightarrow> goerr option \<Rightarrow> subscription \<Rightarrow> subscription" where
  "ack i result sc =
     (let sc = sc\<lparr>sc_xacks := sc_xacks sc @ [i]\<rparr>
      in case result of
           None \<Rightarrow> sc
         | Some err \<Rightarrow> sc_log LError ''messaging: acking stream entry failed''
                         [(''stream'', AStr (sc_stream sc)), (''entry_id'', AStr i), (''error'', AErr err)] sc)"

definition decodeEntry :: "unmarshaller \<Rightarrow> Entry \<Rightarrow> int \<Rightarrow> goerr + message" where
  "decodeEntry um e attempt =
     (case um (en_Fields e) of
        Inl err \<Rightarrow> Inl (WrapError [Lit ''unmarshalling entry '', Quoted (en_ID e), Lit '': ''] err)
      | Inr msg \<Rightarrow>
          Inr (msg\<lparr>msg_Metadata := (msg_Metadata msg)
                     (MetadataStreamID \<mapsto> en_ID e, MetadataDeliveryAttempt \<mapsto> FormatInt attempt)\<rparr>))"

text \<open>
  \<open>emit\<close>, with the environment's part: for an undecodable entry what the hook and \<open>reader.Ack\<close>
  answered, for a decoded one which ready branch of the select was taken. The first component of
  the result is the boolean the function returns; \<^term>\<open>None\<close> marks a branch that is not ready.
\<close>

datatype emit_branch = Answers "goerr option" "goerr option" | SendBranch | StopBranch

definition emit_undecodable ::
    "Subscriber \<Rightarrow> Entry \<Rightarrow> goerr \<Rightarrow> goerr option \<Rightarrow> goerr option \<Rightarrow> subscription \<Rightarrow> (bool \<times> subscription) option" where
  "emit_undecodable s e err hook acked sc =
     (let at = [(''stream'', AStr (sc_stream sc)), (''entry_id'', AStr (en_ID e))];
          sc = sc_log LError ''messaging: undecodable stream entry'' (at @ [(''error'', AErr err)]) sc;
          sc = (if \<not> sb_onUndecodable s then sc
                else case hook of
                       Some hookErr \<Rightarrow> sc_log LError ''messaging: dead-lettering undecodable entry failed''
                                          (at @ [(''error'', AErr hookErr)]) sc
                     | None \<Rightarrow> ack (en_ID e) acked (sc\<lparr>sc_hook_ok := sc_hook_ok sc @ [en_ID e]\<rparr>))
      in map_option (\<lambda>sc. (\<not> stopped sc, sc)) (release sc))"

definition emit ::
    "Subscriber \<Rightarrow> unmarshaller \<Rightarrow> Entry \<Rightarrow> int \<Rightarrow> emit_branch \<Rightarrow> subscription \<Rightarrow> (bool \<times> subscription) option" where
  "emit s um e attempt branch sc =
     (case decodeEntry um e attempt of
        Inl err \<Rightarrow>
          (case branch of
             Answers hook acked \<Rightarrow> emit_undecodable s e err hook acked sc
           | _ \<Rightarrow> None)
      | Inr msg \<Rightarrow>
          (case branch of
             SendBranch \<Rightarrow>
               Some (True, sc\<lparr>sc_sent := sc_sent sc @ [msg],
                              sc_waiters := sc_waiters sc @ [\<lparr>wt_ID = en_ID e, wt_settled = Waiting\<rparr>]\<rparr>)
           | StopBranch \<Rightarrow> if stopped sc then map_option (\<lambda>sc. (False, sc)) (release sc) else None
           | Answers _ _ \<Rightarrow> None))"

text \<open>\<open>readLoop\<close> from the return of \<open>ReadNew\<close> to its next blocking call.\<close>

definition after_read :: "goerr + Entry list \<Rightarrow> goerr option \<Rightarrow> subscription \<Rightarrow> subscription option" where
  "after_read res ensured sc =
     (case res of
        Inr (e # es) \<Rightarrow> Some (sc\<lparr>sc_read := REmit e\<rparr>)
      | _ \<Rightarrow>
          (case release sc of
             None \<Rightarrow> None
           | Some sc \<Rightarrow>
               if stopped sc then Some (sc\<lparr>sc_read := RDone\<rparr>)
               else (case res of
                       Inr _ \<Rightarrow> Some (sc\<lparr>sc_read := RAcquire\<rparr>)
                     | Inl err \<Rightarrow>
                         (let sc = (if Is_sentinel ErrNoGroup_text err then recreateGroup ensured sc
                                    else sc_log LError ''messaging: reading from stream failed''
                                           [(''stream'', AStr (sc_stream sc)), (''error'', AErr err)] sc)
                          in Some (sc\<lparr>sc_read := RPause\<rparr>)))))"

text \<open>\<open>claimLoop\<close> from the return of \<open>PendingOverIdle\<close>, and from the return of \<open>Claim\<close>.\<close>

definition after_scan :: "goerr + PendingEntry list \<Rightarrow> goerr option \<Rightarrow> subscription \<Rightarrow> subscription" where
  "after_scan res ensured sc =
     (case res of
        Inr pending \<Rightarrow> sc\<lparr>sc_claim := CSweep pending\<rparr>
      | Inl err \<Rightarrow>
          if stopped sc then sc\<lparr>sc_claim := CDone\<rparr>
          else (let sc = (if Is_sentinel ErrNoGroup_text err then recreateGroup ensured sc
                          else sc_log LError ''messaging: scanning pending entries failed''
                                 [(''stream'', AStr (sc_stream sc)), (''error'', AErr err)] sc)
                in sc\<lparr>sc_claim := CPause\<rparr>))"

definition after_claim ::
    "PendingEntry \<Rightarrow> PendingEntry list \<Rightarrow> goerr + Entry list \<Rightarrow> goerr option \<Rightarrow> subscription \<Rightarrow> subscription option" where
  "after_claim p ps res ensured sc =
     (case res of
        Inr (e # es) \<Rightarrow> Some (sc\<lparr>sc_claim := CEmit e (wrap64 (pe_RetryCount p + 1)) ps\<rparr>)
      | _ \<Rightarrow>
          (case release sc of
             None \<Rightarrow> None
           | Some sc \<Rightarrow>
               if stopped sc then Some (sc\<lparr>sc_claim := CDone\<rparr>)
               else (case res of
                       Inr _ \<Rightarrow> Some (sc\<lparr>sc_claim := CSweep ps\<rparr>)
                     | Inl err \<Rightarrow>
                         if Is_sentinel ErrNoGroup_text err
                         then Some ((recreateGroup ensured sc)\<lparr>sc_claim := CTick\<rparr>)
                         else Some ((sc_log LError ''messaging: claiming pending entry failed''
                                       [(''stream'', AStr (sc_stream sc)), (''entry_id'', AStr (pe_ID p)),
                                        (''error'', AErr err)] sc)\<lparr>sc_claim := CSweep ps\<rparr>))))"

text \<open>
  The ack-wait goroutine of one message: it leaves when the message is settled, or when the
  subscriber closes, honouring an ack that has already landed. A message that is still unsettled then
  stays with its handler, and nobody waits for it any more.
\<close>

definition waiter_leaves :: "nat \<Rightarrow> goerr option \<Rightarrow> subscription \<Rightarrow> subscription option" where
  "waiter_leaves i acked sc =
     (if i < length (sc_waiters sc) then
        (let wt = sc_waiters sc ! i;
             rest = take i (sc_waiters sc) @ drop (Suc i) (sc_waiters sc)
         in case wt_settled wt of
              MsgAcked \<Rightarrow> release (ack (wt_ID wt) acked (sc\<lparr>sc_waiters := rest\<rparr>))
            | MsgNacked \<Rightarrow> release (sc\<lparr>sc_waiters := rest\<rparr>)
            | Waiting \<Rightarrow> if sc_closing sc then release (sc\<lparr>sc_waiters := rest, sc_left := sc_left sc @ [wt_ID wt]\<rparr>)
                         else None)
      else None)"

section \<open>Steps\<close>

datatype read_event =
    RGotSlot | RStop | RRead "goerr + Entry list" "goerr option" | RResume | REmitted emit_branch

datatype claim_event =
    CTicked | CStop | CScanned "goerr + PendingEntry list" "goerr option" | CResume | CSwept
  | CGotSlot | CClaimed "goerr + Entry list" "goerr option" | CEmitted emit_branch

datatype event =
    Cancel | CloseSubscriber | CloseOut | ReadLoop read_event | ClaimLoop claim_event
  | HandlerAck nat | HandlerNack nat | WaiterLeaves nat "goerr option"
  | LateAck nat | LateNack nat

definition settle :: "nat \<Rightarrow> settlement \<Rightarrow> subscription \<Rightarrow> subscription option" where
  "settle i st sc =
     (if i < length (sc_waiters sc) \<and> wt_settled (sc_waiters sc ! i) = Waiting then
        Some (sc\<lparr>sc_waiters := (sc_waiters sc)[i := (sc_waiters sc ! i)\<lparr>wt_settled := st\<rparr>],
                 sc_handler_acks := sc_handler_acks sc
                   @ (if st = MsgAcked then [wt_ID (sc_waiters sc ! i)] else [])\<rparr>)
      else None)"

text \<open>Settling a message nobody waits for: \<open>msg.Ack\<close> succeeds, and no \<open>XACK\<close> follows.\<close>

definition settle_late :: "nat \<Rightarrow> settlement \<Rightarrow> subscription \<Rightarrow> subscription option" where
  "settle_late i st sc =
     (if i < length (sc_left sc) then
        (let acked = (if st = MsgAcked then [sc_left sc ! i] else [])
         in Some (sc\<lparr>sc_left := take i (sc_left sc) @ drop (Suc i) (sc_left sc),
                     sc_late := sc_late sc @ acked, sc_handler_acks := sc_handler_acks sc @ acked\<rparr>))
      else None)"

definition read_step :: "Subscriber \<Rightarrow> unmarshaller \<Rightarrow> read_event \<Rightarrow> subscription \<Rightarrow> subscription option" where
  "read_step s um ev sc =
     (case sc_read sc of
        RAcquire \<Rightarrow>
          (case ev of
             RGotSlot \<Rightarrow> map_option (\<lambda>sc. sc\<lparr>sc_read := RReading\<rparr>) (acquire s sc)
           | RStop \<Rightarrow> if stopped sc then Some (sc\<lparr>sc_read := RDone\<rparr>) else None
           | _ \<Rightarrow> None)
      | RReading \<Rightarrow> (case ev of RRead res ensured \<Rightarrow> after_read res ensured sc | _ \<Rightarrow> None)
      | REmit e \<Rightarrow>
          (case ev of
             REmitted b \<Rightarrow>
               map_option (\<lambda>(go_on, sc). sc\<lparr>sc_read := (if go_on then RAcquire else RDone)\<rparr>) (emit s um e 1 b sc)
           | _ \<Rightarrow> None)
      | RPause \<Rightarrow> (case ev of RResume \<Rightarrow> Some (sc\<lparr>sc_read := RAcquire\<rparr>) | _ \<Rightarrow> None)
      | RDone \<Rightarrow> None)"

definition claim_step :: "Subscriber \<Rightarrow> unmarshaller \<Rightarrow> claim_event \<Rightarrow> subscription \<Rightarrow> subscription option" where
  "claim_step s um ev sc =
     (case sc_claim sc of
        CTick \<Rightarrow>
          (case ev of
             CTicked \<Rightarrow> Some (sc\<lparr>sc_claim := CScan\<rparr>)
           | CStop \<Rightarrow> if stopped sc then Some (sc\<lparr>sc_claim := CDone\<rparr>) else None
           | _ \<Rightarrow> None)
      | CScan \<Rightarrow> (case ev of CScanned res ensured \<Rightarrow> Some (after_scan res ensured sc) | _ \<Rightarrow> None)
      | CPause \<Rightarrow> (case ev of CResume \<Rightarrow> Some (sc\<lparr>sc_claim := CTick\<rparr>) | _ \<Rightarrow> None)
      | CSweep [] \<Rightarrow> (case ev of CSwept \<Rightarrow> Some (sc\<lparr>sc_claim := CTick\<rparr>) | _ \<Rightarrow> None)
      | CSweep (p # ps) \<Rightarrow>
          (case ev of
             CGotSlot \<Rightarrow> map_option (\<lambda>sc. sc\<lparr>sc_claim := CClaiming p ps\<rparr>) (acquire s sc)
           | CStop \<Rightarrow> if stopped sc then Some (sc\<lparr>sc_claim := CDone\<rparr>) else None
           | _ \<Rightarrow> None)
      | CClaiming p ps \<Rightarrow> (case ev of CClaimed res ensured \<Rightarrow> after_claim p ps res ensured sc | _ \<Rightarrow> None)
      | CEmit e attempt ps \<Rightarrow>
          (case ev of
             CEmitted b \<Rightarrow>
               map_option (\<lambda>(go_on, sc). sc\<lparr>sc_claim := (if go_on then CSweep ps else CDone)\<rparr>)
                 (emit s um e attempt b sc)
           | _ \<Rightarrow> None)
      | _ \<Rightarrow> None)"

definition loops_done :: "subscription \<Rightarrow> bool" where
  "loops_done sc \<longleftrightarrow> sc_read sc = RDone \<and> (sc_claim sc = CDone \<or> sc_claim sc = COff)"

definition exec :: "Subscriber \<Rightarrow> unmarshaller \<Rightarrow> event \<Rightarrow> subscription \<Rightarrow> subscription option" where
  "exec s um ev sc =
     (case ev of
        Cancel \<Rightarrow> Some (sc\<lparr>sc_ctx_done := True\<rparr>)
      | CloseSubscriber \<Rightarrow> Some (sc\<lparr>sc_closing := True\<rparr>)
      | CloseOut \<Rightarrow> if loops_done sc then Some (sc\<lparr>sc_out_closed := True\<rparr>) else None
      | HandlerAck i \<Rightarrow> settle i MsgAcked sc
      | HandlerNack i \<Rightarrow> settle i MsgNacked sc
      | WaiterLeaves i acked \<Rightarrow> waiter_leaves i acked sc
      | LateAck i \<Rightarrow> settle_late i MsgAcked sc
      | LateNack i \<Rightarrow> settle_late i MsgNacked sc
      | ReadLoop ev \<Rightarrow> read_step s um ev sc
      | ClaimLoop ev \<Rightarrow> claim_step s um ev sc)"

fun run_events :: "Subscriber \<Rightarrow> unmarshaller \<Rightarrow> event list \<Rightarrow> subscription \<Rightarrow> subscription option" where
  "run_events s um [] sc = Some sc"
| "run_events s um (ev # evs) sc = (case exec s um ev sc of None \<Rightarrow> None | Some sc' \<Rightarrow> run_events s um evs sc')"

inductive sub_step :: "Subscriber \<Rightarrow> unmarshaller \<Rightarrow> subscription \<Rightarrow> subscription \<Rightarrow> bool" for s um where
  sub_step: "exec s um ev sc = Some sc' \<Longrightarrow> sub_step s um sc sc'"

inductive_cases sub_stepE: "sub_step s um sc sc'"

definition sub_init :: "Subscriber \<Rightarrow> string \<Rightarrow> subscription \<Rightarrow> bool" where
  "sub_init s stream sc \<longleftrightarrow> (\<exists>opts. NewSubscriber opts = Inr s) \<and> Subscribe s stream None = Inr sc"

section \<open>Invariants\<close>

definition read_holds :: "read_pc \<Rightarrow> nat" where
  "read_holds pc = (case pc of RReading \<Rightarrow> 1 | REmit _ \<Rightarrow> 1 | _ \<Rightarrow> 0)"

definition claim_holds :: "claim_pc \<Rightarrow> nat" where
  "claim_holds pc = (case pc of CClaiming _ _ \<Rightarrow> 1 | CEmit _ _ _ \<Rightarrow> 1 | _ \<Rightarrow> 0)"

lemma holds_simps [simp]:
  "read_holds RAcquire = 0" "read_holds RReading = 1" "read_holds (REmit e) = 1" "read_holds RPause = 0"
  "read_holds RDone = 0" "claim_holds COff = 0" "claim_holds CTick = 0" "claim_holds CScan = 0"
  "claim_holds CPause = 0" "claim_holds (CSweep ps) = 0" "claim_holds (CClaiming p ps) = 1"
  "claim_holds (CEmit e n ps) = 1" "claim_holds CDone = 0"
  by (simp_all add: read_holds_def claim_holds_def)

text \<open>Every token in the semaphore is owned: by a loop between acquire and release, or by a waiter.\<close>

definition slots_ok :: "Subscriber \<Rightarrow> subscription \<Rightarrow> bool" where
  "slots_ok s sc \<longleftrightarrow> int (sc_sem sc) \<le> sb_concurrency s
     \<and> sc_sem sc = read_holds (sc_read sc) + claim_holds (sc_claim sc) + length (sc_waiters sc)"

definition acked_ids :: "waiter list \<Rightarrow> string list" where
  "acked_ids ws = map wt_ID (filter (\<lambda>w. wt_settled w = MsgAcked) ws)"

text \<open>
  Every acknowledgement sent was earned, and every one earned is sent, about to be sent, or came when
  its goroutine had left; and goroutines leave unsettled messages behind only on \<open>closing\<close>.
\<close>

definition acks_ok :: "subscription \<Rightarrow> bool" where
  "acks_ok sc \<longleftrightarrow> mset (sc_xacks sc) + mset (acked_ids (sc_waiters sc)) + mset (sc_late sc) =
       mset (sc_hook_ok sc) + mset (sc_handler_acks sc)
     \<and> (\<not> sc_closing sc \<longrightarrow> sc_left sc = [] \<and> sc_late sc = [])"

lemma acked_ids_simps [simp]:
  "acked_ids [] = []" "acked_ids (ws @ vs) = acked_ids ws @ acked_ids vs"
  "acked_ids (w # ws) = (if wt_settled w = MsgAcked then wt_ID w # acked_ids ws else acked_ids ws)"
  by (simp_all add: acked_ids_def)

text \<open>The part of the state that logging leaves alone.\<close>

definition core :: "subscription \<Rightarrow> subscription" where
  "core sc = sc\<lparr>sc_logs := []\<rparr>"

lemma core_sc_log [simp]: "core (sc_log l m as sc) = core sc"
  by (simp add: core_def sc_log_def)

lemma core_recreateGroup [simp]: "core (recreateGroup ensured sc) = core sc"
  by (simp add: recreateGroup_def Let_def split: option.split)

lemma core_ack [simp]: "core (ack i res sc) = core (sc\<lparr>sc_xacks := sc_xacks sc @ [i]\<rparr>)"
  by (simp add: ack_def Let_def split: option.split)

lemma core_sel:
  "sc_stream (core sc) = sc_stream sc" "sc_ctx_done (core sc) = sc_ctx_done sc" "sc_closing (core sc) = sc_closing sc"
  "sc_sem (core sc) = sc_sem sc" "sc_read (core sc) = sc_read sc" "sc_claim (core sc) = sc_claim sc"
  "sc_waiters (core sc) = sc_waiters sc" "sc_sent (core sc) = sc_sent sc" "sc_xacks (core sc) = sc_xacks sc"
  "sc_hook_ok (core sc) = sc_hook_ok sc" "sc_handler_acks (core sc) = sc_handler_acks sc"
  "sc_left (core sc) = sc_left sc" "sc_late (core sc) = sc_late sc"
  "sc_out_closed (core sc) = sc_out_closed sc"
  by (simp_all add: core_def)

lemma core_fields:
  assumes "core sc' = core sc"
  shows "sc_stream sc' = sc_stream sc" "sc_ctx_done sc' = sc_ctx_done sc" "sc_closing sc' = sc_closing sc"
    "sc_sem sc' = sc_sem sc" "sc_read sc' = sc_read sc" "sc_claim sc' = sc_claim sc"
    "sc_waiters sc' = sc_waiters sc" "sc_sent sc' = sc_sent sc" "sc_xacks sc' = sc_xacks sc"
    "sc_hook_ok sc' = sc_hook_ok sc" "sc_handler_acks sc' = sc_handler_acks sc" "sc_left sc' = sc_left sc"
    "sc_late sc' = sc_late sc" "sc_out_closed sc' = sc_out_closed sc"
  by (metis assms core_sel)+

lemmas log_frame [simp] =
  core_fields [OF core_sc_log] core_fields [OF core_recreateGroup]

lemma ack_frame [simp]:
  "sc_stream (ack i res sc) = sc_stream sc" "sc_ctx_done (ack i res sc) = sc_ctx_done sc"
  "sc_closing (ack i res sc) = sc_closing sc" "sc_sem (ack i res sc) = sc_sem sc"
  "sc_read (ack i res sc) = sc_read sc" "sc_claim (ack i res sc) = sc_claim sc"
  "sc_waiters (ack i res sc) = sc_waiters sc" "sc_sent (ack i res sc) = sc_sent sc"
  "sc_xacks (ack i res sc) = sc_xacks sc @ [i]" "sc_hook_ok (ack i res sc) = sc_hook_ok sc"
  "sc_handler_acks (ack i res sc) = sc_handler_acks sc" "sc_left (ack i res sc) = sc_left sc"
  "sc_late (ack i res sc) = sc_late sc" "sc_out_closed (ack i res sc) = sc_out_closed sc"
  using core_fields [OF core_ack] by simp_all

lemma release_Some:
  "release sc = Some sc' \<longleftrightarrow> 0 < sc_sem sc \<and> sc' = sc\<lparr>sc_sem := sc_sem sc - 1\<rparr>"
  by (auto simp: release_def)

lemma acquire_Some:
  "acquire s sc = Some sc' \<longleftrightarrow> int (sc_sem sc) < sb_concurrency s \<and> sc' = sc\<lparr>sc_sem := sc_sem sc + 1\<rparr>"
  by (auto simp: acquire_def)

lemma emit_cases:
  assumes "emit s um e n b sc = Some (go_on, sc')"
  obtains
    (sent) msg where "decodeEntry um e n = Inr msg" "go_on"
      "sc' = sc\<lparr>sc_sent := sc_sent sc @ [msg],
                 sc_waiters := sc_waiters sc @ [\<lparr>wt_ID = en_ID e, wt_settled = Waiting\<rparr>]\<rparr>"
  | (stop) "\<not> go_on" "stopped sc" "0 < sc_sem sc" "sc' = sc\<lparr>sc_sem := sc_sem sc - 1\<rparr>"
  | (bad) err ids where "decodeEntry um e n = Inl err" "go_on = (\<not> stopped sc)" "0 < sc_sem sc"
      "ids = [] \<or> ids = [en_ID e]"
      "core sc' = core (sc\<lparr>sc_sem := sc_sem sc - 1, sc_hook_ok := sc_hook_ok sc @ ids,
                            sc_xacks := sc_xacks sc @ ids\<rparr>)"
proof (cases "decodeEntry um e n")
  case (Inr msg)
  then show thesis
    using assms sent stop by (cases b) (auto simp: emit_def release_Some split: if_splits)
next
  case (Inl err)
  then obtain hook acked where "b = Answers hook acked" "emit_undecodable s e err hook acked sc = Some (go_on, sc')"
    using assms by (auto simp: emit_def split: emit_branch.splits)
  then show thesis
    using bad [OF Inl, of "if sb_onUndecodable s \<and> hook = None then [en_ID e] else []"]
    by (cases hook)
      (auto simp: emit_undecodable_def release_Some Let_def stopped_def core_def sc_log_def ack_def
        split: if_splits option.splits)
qed

text \<open>No send can happen on a closed output channel: it is closed only after both loops have left.\<close>

definition sub_inv :: "Subscriber \<Rightarrow> subscription \<Rightarrow> bool" where
  "sub_inv s sc \<longleftrightarrow> slots_ok s sc \<and> acks_ok sc \<and> (sc_out_closed sc \<longrightarrow> loops_done sc)"

lemmas sub_inv_defs = sub_inv_def slots_ok_def acks_ok_def loops_done_def

lemma read_step_inv:
  assumes "read_step s um ev sc = Some sc'" and "sub_inv s sc"
  shows "sub_inv s sc'"
proof (cases "sc_read sc")
  case RReading
  then show ?thesis
    using assms
    by (auto simp: read_step_def after_read_def release_Some sub_inv_defs
        split: read_event.splits sum.splits list.splits option.splits if_splits)
next
  case (REmit e)
  then obtain b go_on sc1 where e: "emit s um e 1 b sc = Some (go_on, sc1)"
    and sc': "sc' = sc1\<lparr>sc_read := (if go_on then RAcquire else RDone)\<rparr>"
    using assms(1) by (auto simp: read_step_def split: read_event.splits)
  from e show ?thesis
  proof (cases rule: emit_cases)
    case (bad err ids)
    from core_fields [OF bad(5)] bad(3,4) assms(2) REmit show ?thesis
      by (auto simp: sc' sub_inv_defs ac_simps)
  qed (use assms(2) REmit in \<open>auto simp: sc' sub_inv_defs\<close>)
qed (use assms in \<open>auto simp: read_step_def acquire_Some sub_inv_defs split: read_event.splits if_splits\<close>)

lemma claim_step_inv:
  assumes "claim_step s um ev sc = Some sc'" and "sub_inv s sc"
  shows "sub_inv s sc'"
proof (cases "sc_claim sc")
  case CScan
  then show ?thesis
    using assms
    by (auto simp: claim_step_def after_scan_def sub_inv_defs split: claim_event.splits sum.splits if_splits)
next
  case (CClaiming p ps)
  then show ?thesis
    using assms
    by (auto simp: claim_step_def after_claim_def release_Some sub_inv_defs
        split: claim_event.splits sum.splits list.splits option.splits if_splits)
next
  case (CEmit e n ps)
  then obtain b go_on sc1 where e: "emit s um e n b sc = Some (go_on, sc1)"
    and sc': "sc' = sc1\<lparr>sc_claim := (if go_on then CSweep ps else CDone)\<rparr>"
    using assms(1) by (auto simp: claim_step_def split: claim_event.splits)
  from e show ?thesis
  proof (cases rule: emit_cases)
    case (bad err ids)
    from core_fields [OF bad(5)] bad(3,4) assms(2) CEmit show ?thesis
      by (auto simp: sc' sub_inv_defs ac_simps)
  qed (use assms(2) CEmit in \<open>auto simp: sc' sub_inv_defs\<close>)
next
  case (CSweep ps)
  with assms show ?thesis
    by (cases ps) (auto simp: claim_step_def acquire_Some sub_inv_defs split: claim_event.splits if_splits)
qed (use assms in \<open>auto simp: claim_step_def sub_inv_defs split: claim_event.splits if_splits\<close>)

lemma split_at: "i < length xs \<Longrightarrow> xs = take i xs @ xs ! i # drop (Suc i) xs"
  by (simp add: id_take_nth_drop [symmetric])

lemma waiter_leaves_inv:
  assumes "waiter_leaves i acked sc = Some sc'" and "sub_inv s sc"
  shows "sub_inv s sc'"
proof -
  have i: "i < length (sc_waiters sc)" using assms(1) by (auto simp: waiter_leaves_def split: if_splits)
  define ws1 wt ws2 where "ws1 = take i (sc_waiters sc)" and "wt = sc_waiters sc ! i"
    and "ws2 = drop (Suc i) (sc_waiters sc)"
  have ws: "sc_waiters sc = ws1 @ wt # ws2" unfolding ws1_def wt_def ws2_def using i by (rule split_at)
  have "(wt_settled wt = MsgAcked \<and> release (ack (wt_ID wt) acked (sc\<lparr>sc_waiters := ws1 @ ws2\<rparr>)) = Some sc')
      \<or> (wt_settled wt = MsgNacked \<and> release (sc\<lparr>sc_waiters := ws1 @ ws2\<rparr>) = Some sc')
      \<or> (wt_settled wt = Waiting \<and> sc_closing sc
          \<and> release (sc\<lparr>sc_waiters := ws1 @ ws2, sc_left := sc_left sc @ [wt_ID wt]\<rparr>) = Some sc')"
    using assms(1) i
    by (auto simp: waiter_leaves_def Let_def ws1_def wt_def ws2_def split: settlement.splits if_splits)
  with assms(2) show ?thesis
    by (auto simp: release_Some sub_inv_defs ws ac_simps)
qed

lemma settle_inv:
  assumes "settle i st sc = Some sc'" and "sub_inv s sc" and "st = MsgAcked \<or> st = MsgNacked"
  shows "sub_inv s sc'"
proof -
  have i: "i < length (sc_waiters sc)" using assms(1) by (auto simp: settle_def split: if_splits)
  define ws1 wt ws2 where "ws1 = take i (sc_waiters sc)" and "wt = sc_waiters sc ! i"
    and "ws2 = drop (Suc i) (sc_waiters sc)"
  have ws: "sc_waiters sc = ws1 @ wt # ws2" unfolding ws1_def wt_def ws2_def using i by (rule split_at)
  have "(sc_waiters sc)[i := v] = ws1 @ v # ws2" for v
    unfolding ws1_def ws2_def using i by (rule upd_conv_take_nth_drop)
  with assms(1) i have "wt_settled wt = Waiting" "sc' = sc\<lparr>sc_waiters := ws1 @ wt\<lparr>wt_settled := st\<rparr> # ws2,
      sc_handler_acks := sc_handler_acks sc @ (if st = MsgAcked then [wt_ID wt] else [])\<rparr>"
    by (auto simp: settle_def wt_def split: if_splits)
  with assms(2,3) show ?thesis by (auto simp: sub_inv_defs ws ac_simps)
qed

lemma settle_late_inv:
  assumes "settle_late i st sc = Some sc'" and "sub_inv s sc"
  shows "sub_inv s sc'"
proof -
  have "sc_left sc \<noteq> []" using assms(1) by (auto simp: settle_late_def split: if_splits)
  with assms show ?thesis by (auto simp: settle_late_def sub_inv_defs Let_def ac_simps split: if_splits)
qed

lemma exec_inv: "exec s um ev sc = Some sc' \<Longrightarrow> sub_inv s sc \<Longrightarrow> sub_inv s sc'"
  by (cases ev)
    (auto simp: exec_def dest: read_step_inv claim_step_inv waiter_leaves_inv settle_inv settle_late_inv
      split: if_splits, auto simp: sub_inv_defs)

interpretation subscription: inductive_invariant "sub_init s stream" "sub_step s um" "sub_inv s" for s stream um
proof
  show "sub_inv s sc" if "sub_init s stream sc" for sc
    using that by (auto simp: sub_init_def Subscribe_def NewSubscriber_def sub_inv_defs split: if_splits)
  show "sub_inv s sc'" if "sub_inv s sc" "sub_step s um sc sc'" for sc sc'
    using that by (auto elim!: sub_stepE intro: exec_inv)
qed

section \<open>Properties\<close>

lemma run_events_reach:
  "run_events s um evs sc = Some sc' \<Longrightarrow> reach I (sub_step s um) sc \<Longrightarrow> reach I (sub_step s um) sc'"
proof (induction evs arbitrary: sc)
  case (Cons ev evs)
  then obtain sc1 where e: "exec s um ev sc = Some sc1" "run_events s um evs sc1 = Some sc'"
    by (auto split: option.splits)
  have "reach I (sub_step s um) sc1"
    by (rule reach_step [where step = "sub_step s um", OF Cons.prems(2) sub_step [OF e(1)]])
  with Cons.IH [OF e(2)] show ?case .
qed simp

lemma run_events_append:
  "run_events s um (evs @ evs') sc =
     (case run_events s um evs sc of None \<Rightarrow> None | Some sc' \<Rightarrow> run_events s um evs' sc')"
  by (induction evs arbitrary: sc) (auto split: option.split)

lemma run_events_inv: "run_events s um evs sc = Some sc' \<Longrightarrow> sub_inv s sc \<Longrightarrow> sub_inv s sc'"
  by (induction evs arbitrary: sc) (auto split: option.splits dest: exec_inv)

definition sample_subscriber :: Subscriber where
  "sample_subscriber = \<lparr>sb_concurrency = 1, sb_claimInterval = 30 * Second, sb_claimMinIdle = 60 * Second,
     sb_blockTime = Second, sb_defaultLogger = False, sb_onUndecodable = True\<rparr>"

definition sample_unmarshal :: unmarshaller where
  "sample_unmarshal fs = (case map_of fs ''payload'' of
     None \<Rightarrow> Inl (OpaqueError ''no payload'')
   | Some p \<Rightarrow> Inr \<lparr>msg_UUID = ''u'', msg_Payload = p, msg_Metadata = Map.empty\<rparr>)"

definition sample_subscription :: subscription where
  "sample_subscription = \<lparr>sc_stream = ''foi:t'', sc_ctx_done = False, sc_closing = False, sc_sem = 0,
     sc_read = RAcquire, sc_claim = CTick, sc_waiters = [], sc_left = [], sc_sent = [], sc_xacks = [], sc_hook_ok = [],
     sc_handler_acks = [], sc_late = [], sc_logs = [], sc_out_closed = False\<rparr>"

lemma sample_init: "sub_init sample_subscriber ''foi:t'' sample_subscription"
proof -
  have "NewSubscriber \<lparr>so_HasReader = True, so_Concurrency = 0, so_ClaimInterval = 30 * Second,
    so_ClaimMinIdle = 60 * Second, so_BlockTime = 0, so_HasLogger = True, so_HasHook = True\<rparr> = Inr sample_subscriber"
    by (simp add: NewSubscriber_def sample_subscriber_def defaultBlockTime_def)
  then show ?thesis
    by (auto simp: sub_init_def Subscribe_def sample_subscription_def sample_subscriber_def)
qed

lemma sample_reach: "reach (sub_init sample_subscriber ''foi:t'') step sample_subscription"
  by (rule reach_init [where init = "sub_init sample_subscriber ''foi:t''", OF sample_init])

text \<open>One message in flight; the read loop then waits for a slot.\<close>

definition busy_events :: "event list" where
  "busy_events = [ReadLoop RGotSlot,
     ReadLoop (RRead (Inr [\<lparr>en_ID = ''1-0'', en_Fields = [(''payload'', ''x'')]\<rparr>]) None),
     ReadLoop (REmitted SendBranch)]"

definition busy :: subscription where
  "busy = the (run_events sample_subscriber sample_unmarshal busy_events sample_subscription)"

lemma busy_run: "run_events sample_subscriber sample_unmarshal busy_events sample_subscription = Some busy"
  by (simp add: busy_def busy_events_def exec_def read_step_def acquire_def after_read_def emit_def decodeEntry_def
      sample_unmarshal_def sample_subscription_def sample_subscriber_def)

lemma busy_reach: "reach (sub_init sample_subscriber ''foi:t'') (sub_step sample_subscriber sample_unmarshal) busy"
  using busy_run sample_reach by (rule run_events_reach)

lemma busy_waiters: "sc_waiters busy = [\<lparr>wt_ID = ''1-0'', wt_settled = Waiting\<rparr>]" "sc_sem busy = 1"
  "\<not> sc_closing busy"
  by (simp_all add: busy_def busy_events_def exec_def read_step_def acquire_def after_read_def emit_def decodeEntry_def
      sample_unmarshal_def sample_subscription_def sample_subscriber_def)

text \<open>
  C5. In-flight messages are bounded per stream. In every interleaving of the read loop, the claim
  loop, the ack-wait goroutines, cancellation, \<open>Close\<close> and the handlers, a subscription has at most
  \<open>Concurrency\<close> messages in flight; every token in the semaphore belongs to exactly one of them or to
  a loop between acquire and release, so none leaks; and the output channel is closed only after
  both loops have left, so nothing is sent on a closed channel.
\<close>

theorem subscription_in_flight_bound:
  assumes "reach (sub_init s stream) (sub_step s um) sc"
  shows "int (length (sc_waiters sc)) \<le> sb_concurrency s
    \<and> sc_sem sc = read_holds (sc_read sc) + claim_holds (sc_claim sc) + length (sc_waiters sc)
    \<and> (sc_out_closed sc \<longrightarrow> sc_read sc = RDone \<and> sc_claim sc \<in> {CDone, COff})"
  using subscription.reach_inv [OF assms] by (auto simp: sub_inv_defs)

theorem subscription_in_flight_bound_witness:
  "int (length (sc_waiters busy)) \<le> sb_concurrency sample_subscriber \<and> length (sc_waiters busy) = 1"
  using subscription_in_flight_bound [OF busy_reach] by (simp add: busy_waiters)

text \<open>
  C6. Which entries are acknowledged in Redis. In every reachable state the \<open>XACK\<close>s issued are, as a
  multiset, the messages handlers acked and the undecodable entries the hook accepted, less two kinds:
  those whose goroutine is about to issue it, and those a handler acked only after their goroutine had
  given up on \<open>Close\<close>, which stay pending and are delivered again. Before \<open>Close\<close> there are none of
  the second kind, and a goroutine that leaves issues the \<open>XACK\<close> of its own message exactly when an
  ack has landed, closing or not.
\<close>

theorem subscription_acks_exact:
  assumes "reach (sub_init s stream) (sub_step s um) sc"
  shows "mset (sc_xacks sc) + mset (acked_ids (sc_waiters sc)) + mset (sc_late sc)
        = mset (sc_hook_ok sc) + mset (sc_handler_acks sc)
    \<and> (\<not> sc_closing sc \<longrightarrow> sc_late sc = [])
    \<and> (sc_waiters sc = [] \<and> \<not> sc_closing sc \<longrightarrow> mset (sc_xacks sc) = mset (sc_hook_ok sc) + mset (sc_handler_acks sc))
    \<and> (\<forall>i acked sc'. exec s um (WaiterLeaves i acked) sc = Some sc' \<longrightarrow>
         sc_xacks sc' = sc_xacks sc @ (if wt_settled (sc_waiters sc ! i) = MsgAcked then [wt_ID (sc_waiters sc ! i)] else [])
         \<and> sc_late sc' = sc_late sc)"
proof -
  have "acks_ok sc" using subscription.reach_inv [OF assms] by (simp add: sub_inv_def)
  moreover have "sc_xacks sc' = sc_xacks sc @ (if wt_settled (sc_waiters sc ! i) = MsgAcked then [wt_ID (sc_waiters sc ! i)] else [])
      \<and> sc_late sc' = sc_late sc" if "exec s um (WaiterLeaves i acked) sc = Some sc'" for i acked sc'
    using that by (auto simp: exec_def waiter_leaves_def release_Some Let_def split: if_splits settlement.splits)
  ultimately show ?thesis by (auto simp: acks_ok_def)
qed

text \<open>Two messages when \<open>Close\<close> comes, one acked before its goroutine leaves and one after.\<close>

definition race_events :: "event list" where
  "race_events = busy_events @ [Cancel, HandlerAck 0, CloseSubscriber, WaiterLeaves 0 None]"

definition late_events :: "event list" where
  "late_events = busy_events @ [CloseSubscriber, WaiterLeaves 0 None, LateAck 0]"

lemmas run_sample = busy_events_def race_events_def late_events_def exec_def read_step_def acquire_def after_read_def
  emit_def decodeEntry_def sample_unmarshal_def sample_subscription_def sample_subscriber_def settle_def
  settle_late_def waiter_leaves_def ack_def release_def

theorem subscription_acks_exact_witness:
  "(\<exists>sc. run_events sample_subscriber sample_unmarshal race_events sample_subscription = Some sc
      \<and> sc_xacks sc = [''1-0''] \<and> mset (sc_xacks sc) + mset (sc_late sc) = mset (sc_hook_ok sc) + mset (sc_handler_acks sc))
   \<and> (\<exists>sc. run_events sample_subscriber sample_unmarshal late_events sample_subscription = Some sc
      \<and> sc_xacks sc = [] \<and> sc_late sc = [''1-0''] \<and> mset (sc_late sc) = mset (sc_hook_ok sc) + mset (sc_handler_acks sc))"
proof
  obtain sc where r: "run_events sample_subscriber sample_unmarshal race_events sample_subscription = Some sc"
    and sc: "sc_waiters sc = []" "sc_xacks sc = [''1-0'']" by (simp add: run_sample)
  from subscription_acks_exact [OF run_events_reach [OF r sample_reach]] r sc
  show "\<exists>sc. run_events sample_subscriber sample_unmarshal race_events sample_subscription = Some sc
     \<and> sc_xacks sc = [''1-0''] \<and> mset (sc_xacks sc) + mset (sc_late sc) = mset (sc_hook_ok sc) + mset (sc_handler_acks sc)"
    by auto
  obtain sc where r: "run_events sample_subscriber sample_unmarshal late_events sample_subscription = Some sc"
    and sc: "sc_waiters sc = []" "sc_xacks sc = []" "sc_late sc = [''1-0'']" by (simp add: run_sample Let_def)
  from subscription_acks_exact [OF run_events_reach [OF r sample_reach]] r sc
  show "\<exists>sc. run_events sample_subscriber sample_unmarshal late_events sample_subscription = Some sc
     \<and> sc_xacks sc = [] \<and> sc_late sc = [''1-0''] \<and> mset (sc_late sc) = mset (sc_hook_ok sc) + mset (sc_handler_acks sc)"
    by auto
qed

section \<open>Shutdown\<close>

text \<open>
  Closing as a game. A move of the library is one step of a loop or of a goroutine, \<open>own_event\<close>; what
  it is answered (the reply of Redis, the hook's result) is the adversary's choice, so two events that
  differ in the answer only are the same move. Between two moves the handlers and the outside do what
  they like: settle messages, cancel, call \<open>Close\<close> again.
\<close>

fun own_event :: "event \<Rightarrow> bool" where
  "own_event (ReadLoop _) = True"
| "own_event (ClaimLoop _) = True"
| "own_event (WaiterLeaves _ _) = True"
| "own_event _ = False"

fun outside_event :: "event \<Rightarrow> bool" where
  "outside_event Cancel = True"
| "outside_event CloseSubscriber = True"
| "outside_event (HandlerAck _) = True"
| "outside_event (HandlerNack _) = True"
| "outside_event (LateAck _) = True"
| "outside_event (LateNack _) = True"
| "outside_event _ = False"

fun same_move :: "event \<Rightarrow> event \<Rightarrow> bool" where
  "same_move (ReadLoop (RRead _ _)) ev' = (case ev' of ReadLoop (RRead _ _) \<Rightarrow> True | _ \<Rightarrow> False)"
| "same_move (ReadLoop (REmitted (Answers _ _))) ev' =
     (case ev' of ReadLoop (REmitted (Answers _ _)) \<Rightarrow> True | _ \<Rightarrow> False)"
| "same_move (ClaimLoop (CScanned _ _)) ev' = (case ev' of ClaimLoop (CScanned _ _) \<Rightarrow> True | _ \<Rightarrow> False)"
| "same_move (ClaimLoop (CClaimed _ _)) ev' = (case ev' of ClaimLoop (CClaimed _ _) \<Rightarrow> True | _ \<Rightarrow> False)"
| "same_move (ClaimLoop (CEmitted (Answers _ _))) ev' =
     (case ev' of ClaimLoop (CEmitted (Answers _ _)) \<Rightarrow> True | _ \<Rightarrow> False)"
| "same_move (WaiterLeaves i _) ev' = (case ev' of WaiterLeaves j _ \<Rightarrow> i = j | _ \<Rightarrow> False)"
| "same_move ev ev' = (ev' = ev)"

text \<open>Both loops gone, nothing in flight, every token back, every timely ack sent.\<close>

definition shut_down :: "subscription \<Rightarrow> bool" where
  "shut_down sc \<longleftrightarrow> loops_done sc \<and> sc_waiters sc = [] \<and> sc_sem sc = 0
     \<and> mset (sc_xacks sc) + mset (sc_late sc) = mset (sc_hook_ok sc) + mset (sc_handler_acks sc)"

primrec can_finish :: "Subscriber \<Rightarrow> unmarshaller \<Rightarrow> nat \<Rightarrow> subscription \<Rightarrow> bool" where
  "can_finish s um 0 sc = shut_down sc"
| "can_finish s um (Suc n) sc = (shut_down sc \<or>
     (\<exists>ev. own_event ev \<and> (\<forall>ev'. same_move ev ev' \<longrightarrow>
        (\<exists>sc'. exec s um ev' sc = Some sc'
           \<and> (\<forall>evs sc''. list_all outside_event evs \<longrightarrow> run_events s um evs sc' = Some sc'' \<longrightarrow> can_finish s um n sc'')))))"

text \<open>How many moves are left at most: two of the read loop, three of the claim loop, one per goroutine.\<close>

definition read_rank :: "read_pc \<Rightarrow> nat" where
  "read_rank pc = (case pc of RDone \<Rightarrow> 0 | RAcquire \<Rightarrow> 1 | REmit _ \<Rightarrow> 1 | _ \<Rightarrow> 2)"

definition claim_rank :: "claim_pc \<Rightarrow> nat" where
  "claim_rank pc = (case pc of CDone \<Rightarrow> 0 | COff \<Rightarrow> 0 | CTick \<Rightarrow> 1 | CEmit _ _ _ \<Rightarrow> 1 | CScan \<Rightarrow> 3 | _ \<Rightarrow> 2)"

definition rank :: "subscription \<Rightarrow> nat" where
  "rank sc = read_rank (sc_read sc) + claim_rank (sc_claim sc) + length (sc_waiters sc)"

lemma rank_simps [simp]:
  "read_rank RDone = 0" "read_rank RAcquire = 1" "read_rank (REmit e) = 1" "read_rank RReading = 2" "read_rank RPause = 2"
  "claim_rank CDone = 0" "claim_rank COff = 0" "claim_rank CTick = 1" "claim_rank (CEmit e n ps) = 1" "claim_rank CScan = 3"
  "claim_rank CPause = 2" "claim_rank (CSweep ps) = 2" "claim_rank (CClaiming p ps) = 2"
  by (simp_all add: read_rank_def claim_rank_def)

lemma rank_le: "rank sc \<le> 5 + length (sc_waiters sc)"
  by (cases "sc_read sc"; cases "sc_claim sc") (simp_all add: rank_def)

lemma rank_0: "sub_inv s sc \<Longrightarrow> rank sc = 0 \<Longrightarrow> shut_down sc"
  by (cases "sc_read sc"; cases "sc_claim sc") (auto simp: rank_def shut_down_def sub_inv_defs)

text \<open>The outside changes neither the rank nor that the subscriber is closing.\<close>

lemma outside_run:
  "run_events s um evs sc = Some sc' \<Longrightarrow> list_all outside_event evs \<Longrightarrow> sc_closing sc \<Longrightarrow>
   sc_closing sc' \<and> rank sc' = rank sc"
proof (induction evs arbitrary: sc)
  case (Cons ev evs)
  then obtain sc1 where e: "exec s um ev sc = Some sc1" "run_events s um evs sc1 = Some sc'"
    by (auto split: option.splits)
  have "sc_closing sc1 \<and> rank sc1 = rank sc"
    using e(1) Cons.prems(2,3)
    by (cases ev) (auto simp: exec_def settle_def settle_late_def rank_def Let_def split: if_splits)
  with Cons.IH [OF e(2)] Cons.prems(2) show ?case by simp
qed simp

text \<open>A winning move: whatever it is answered, it can be taken and the rank gets smaller.\<close>

definition progress :: "Subscriber \<Rightarrow> unmarshaller \<Rightarrow> subscription \<Rightarrow> event \<Rightarrow> bool" where
  "progress s um sc ev \<longleftrightarrow> own_event ev \<and> (\<forall>ev'. same_move ev ev' \<longrightarrow>
     (\<exists>sc'. exec s um ev' sc = Some sc' \<and> rank sc' < rank sc \<and> sc_closing sc'))"

lemma emit_stops:
  assumes "stopped sc" and "0 < sc_sem sc"
  obtains (bad) "\<And>hook acked. \<exists>sc'. emit s um e n (Answers hook acked) sc = Some (False, sc') \<and> sc_closing sc' = sc_closing sc
      \<and> sc_read sc' = sc_read sc \<and> sc_claim sc' = sc_claim sc \<and> sc_waiters sc' = sc_waiters sc"
  | (good) sc' where "emit s um e n StopBranch sc = Some (False, sc')" "sc_closing sc' = sc_closing sc"
      "sc_read sc' = sc_read sc" "sc_claim sc' = sc_claim sc" "sc_waiters sc' = sc_waiters sc"
proof (cases "decodeEntry um e n")
  case (Inr msg)
  with assms show thesis by (intro good [of "sc\<lparr>sc_sem := sc_sem sc - 1\<rparr>"]) (simp_all add: emit_def release_def)
next
  case (Inl err)
  with assms show thesis
    by (intro bad) (simp add: emit_def emit_undecodable_def release_def Let_def stopped_def split: option.split)
qed

lemma read_progress:
  assumes "sc_closing sc" and "sub_inv s sc" and "sc_read sc \<noteq> RDone"
  shows "\<exists>ev. progress s um sc ev"
proof (cases "sc_read sc")
  case RAcquire
  then show ?thesis
    using assms(1) by (intro exI [of _ "ReadLoop RStop"]) (simp add: progress_def exec_def read_step_def stopped_def rank_def)
next
  case RReading
  then have "0 < sc_sem sc" using assms(2) by (simp add: sub_inv_defs)
  then have "\<exists>sc'. after_read res ensured sc = Some sc' \<and> rank sc' < rank sc \<and> sc_closing sc'" for res ensured
    using RReading assms(1)
    by (auto simp: after_read_def release_def stopped_def rank_def split: sum.splits list.splits)
  with RReading show ?thesis
    by (intro exI [of _ "ReadLoop (RRead (Inr []) None)"])
      (auto simp: progress_def exec_def read_step_def split: event.splits read_event.splits)
next
  case (REmit e)
  have "0 < sc_sem sc" "stopped sc" using REmit assms(1,2) by (simp_all add: sub_inv_defs stopped_def)
  from this(2,1) show ?thesis
  proof (cases rule: emit_stops [where s = s and um = um and e = e and n = 1])
    case bad
    with REmit assms(1) show ?thesis
      by (intro exI [of _ "ReadLoop (REmitted (Answers None None))"])
        (fastforce simp: progress_def exec_def read_step_def rank_def split: event.splits read_event.splits emit_branch.splits)
  next
    case (good sc')
    with REmit assms(1) show ?thesis
      by (intro exI [of _ "ReadLoop (REmitted StopBranch)"]) (auto simp: progress_def exec_def read_step_def rank_def)
  qed
next
  case RPause
  then show ?thesis
    using assms(1) by (intro exI [of _ "ReadLoop RResume"]) (simp add: progress_def exec_def read_step_def rank_def)
qed (use assms(3) in simp)

lemma claim_progress:
  assumes "sc_closing sc" and "sub_inv s sc" and "sc_claim sc \<notin> {CDone, COff}"
  shows "\<exists>ev. progress s um sc ev"
proof (cases "sc_claim sc")
  case CTick
  then show ?thesis
    using assms(1) by (intro exI [of _ "ClaimLoop CStop"]) (simp add: progress_def exec_def claim_step_def stopped_def rank_def)
next
  case CScan
  then have "rank (after_scan res ensured sc) < rank sc \<and> sc_closing (after_scan res ensured sc)" for res ensured
    using assms(1) by (auto simp: after_scan_def stopped_def rank_def split: sum.splits)
  with CScan show ?thesis
    by (intro exI [of _ "ClaimLoop (CScanned (Inr []) None)"])
      (auto simp: progress_def exec_def claim_step_def split: event.splits claim_event.splits)
next
  case CPause
  then show ?thesis
    using assms(1) by (intro exI [of _ "ClaimLoop CResume"]) (simp add: progress_def exec_def claim_step_def rank_def)
next
  case (CSweep ps)
  then show ?thesis
    using assms(1)
    by (cases ps; intro exI [of _ "ClaimLoop (if ps = [] then CSwept else CStop)"])
      (simp_all add: progress_def exec_def claim_step_def stopped_def rank_def)
next
  case (CClaiming p ps)
  then have "0 < sc_sem sc" using assms(2) by (simp add: sub_inv_defs)
  then have "\<exists>sc'. after_claim p ps res ensured sc = Some sc' \<and> rank sc' < rank sc \<and> sc_closing sc'" for res ensured
    using CClaiming assms(1)
    by (auto simp: after_claim_def release_def stopped_def rank_def split: sum.splits list.splits)
  with CClaiming show ?thesis
    by (intro exI [of _ "ClaimLoop (CClaimed (Inr []) None)"])
      (auto simp: progress_def exec_def claim_step_def split: event.splits claim_event.splits)
next
  case (CEmit e n ps)
  have "0 < sc_sem sc" "stopped sc" using CEmit assms(1,2) by (simp_all add: sub_inv_defs stopped_def)
  from this(2,1) show ?thesis
  proof (cases rule: emit_stops [where s = s and um = um and e = e and n = n])
    case bad
    with CEmit assms(1) show ?thesis
      by (intro exI [of _ "ClaimLoop (CEmitted (Answers None None))"])
        (fastforce simp: progress_def exec_def claim_step_def rank_def split: event.splits claim_event.splits emit_branch.splits)
  next
    case (good sc')
    with CEmit assms(1) show ?thesis
      by (intro exI [of _ "ClaimLoop (CEmitted StopBranch)"]) (auto simp: progress_def exec_def claim_step_def rank_def)
  qed
qed (use assms(3) in auto)

lemma waiter_progress:
  assumes "sc_closing sc" and "sub_inv s sc" and "sc_waiters sc \<noteq> []"
  shows "progress s um sc (WaiterLeaves 0 None)"
proof -
  from assms(3) obtain wt ws where ws: "sc_waiters sc = wt # ws" by (cases "sc_waiters sc") auto
  have "0 < sc_sem sc" using assms(2) ws by (simp add: sub_inv_defs)
  then have "\<exists>sc'. waiter_leaves 0 acked sc = Some sc' \<and> rank sc' < rank sc \<and> sc_closing sc'" for acked
    using assms(1) ws by (cases "wt_settled wt") (auto simp: waiter_leaves_def release_def rank_def Let_def)
  then show ?thesis by (auto simp: progress_def exec_def split: event.splits)
qed

lemma closing_finishes:
  assumes "sub_inv s sc" and "sc_closing sc" and "rank sc \<le> n"
  shows "can_finish s um n sc"
  using assms
proof (induction n arbitrary: sc)
  case 0
  then show ?case using rank_0 by simp
next
  case (Suc n)
  show ?case
  proof (cases "rank sc = 0")
    case True
    with Suc.prems(1) show ?thesis by (simp add: rank_0)
  next
    case False
    then have "sc_read sc \<noteq> RDone \<or> sc_claim sc \<notin> {CDone, COff} \<or> sc_waiters sc \<noteq> []" by (auto simp: rank_def)
    then obtain ev where ev: "progress s um sc ev"
      using read_progress [OF Suc.prems(2,1)] claim_progress [OF Suc.prems(2,1)] waiter_progress [OF Suc.prems(2,1)] by blast
    have "can_finish s um n sc''"
      if e: "exec s um ev' sc = Some sc'" "rank sc' < rank sc" "sc_closing sc'"
        and o: "list_all outside_event evs" "run_events s um evs sc' = Some sc''" for ev' sc' evs sc''
    proof (rule Suc.IH)
      show "sub_inv s sc''" using run_events_inv [OF o(2) exec_inv [OF e(1) Suc.prems(1)]] .
      show "sc_closing sc''" "rank sc'' \<le> n" using outside_run [OF o(2,1) e(3)] e(2) Suc.prems(3) by auto
    qed
    with ev show ?thesis unfolding progress_def can_finish.simps by blast
  qed
qed

text \<open>
  C15. \<open>Close\<close> can always finish, against any answers. From every reachable state in which the
  subscriber is closing, the library has a move that is ready, and has one again after whatever Redis
  or the hook answer to it and whatever the handlers and the outside do next, until after at most
  \<open>5 + n\<close> moves, with \<open>n\<close> the messages in flight, both loops have left, nothing is in flight, every
  semaphore token is back, and every message acked before its goroutine left, like every undecodable
  entry the hook accepted, has been acknowledged in Redis. What a \<open>select\<close> with several ready
  branches takes, and which thread runs, is the library's part of the game; a call to Redis or to the
  hook is taken to return.
\<close>

theorem closing_can_finish:
  assumes "reach (sub_init s stream) (sub_step s um) sc" and "sc_closing sc"
  shows "can_finish s um (5 + length (sc_waiters sc)) sc"
  using subscription.reach_inv [OF assms(1)] assms(2) rank_le by (rule closing_finishes)

theorem closing_can_finish_witness:
  "\<exists>sc. run_events sample_subscriber sample_unmarshal (busy_events @ [CloseSubscriber]) sample_subscription = Some sc
     \<and> length (sc_waiters sc) = 1 \<and> \<not> shut_down sc \<and> can_finish sample_subscriber sample_unmarshal 6 sc"
proof -
  let ?sc = "busy\<lparr>sc_closing := True\<rparr>"
  have r: "run_events sample_subscriber sample_unmarshal (busy_events @ [CloseSubscriber]) sample_subscription = Some ?sc"
    by (simp add: run_events_append busy_run exec_def)
  from closing_can_finish [OF run_events_reach [OF r sample_reach]] r show ?thesis
    by (intro exI [of _ ?sc]) (simp add: busy_waiters shut_down_def)
qed

end
