(* ===== verification/Publisher.thy ===== *)
theory Publisher
  imports Consumer Subscriber
begin

text \<open>
  \<open>publisher.go\<close> and \<open>internal/watermill/publisher.go\<close>: correlation ids, publishing with its
  telemetry, and the watermill wrapper the transport goes through. \<open>json.Marshal\<close> of the payload is
  an argument, since the payload's type is the application's.
\<close>

section \<open>The watermill wrapper\<close>

text \<open>\<open>redisstream.Publisher.Publish\<close>: the message carries its context.\<close>

type_synonym 'w wm_publish = "ctx_values \<Rightarrow> string \<Rightarrow> message \<Rightarrow> 'w \<Rightarrow> goerr option \<times> 'w"

definition wm_Publish :: "'w wm_publish \<Rightarrow> 'w stream_publisher" where
  "wm_Publish pub ctx topic i payload md w =
     (let msg = \<lparr>msg_UUID = i, msg_Payload = payload, msg_Metadata = md\<rparr> in
      case pub ctx topic msg w of
        (None, w) \<Rightarrow> (None, w)
      | (Some err, w) \<Rightarrow> (Some (WrapError [Lit ''publishing to topic '', Quoted topic, Lit '': ''] err), w))"

text \<open>\<open>NewPublisher\<close> of the wrapper, given what \<open>redisstream.NewPublisher\<close> built, and its \<open>Close\<close>.\<close>

definition wm_NewPublisher :: "goerr + 'w wm_publish \<Rightarrow> goerr + 'w stream_publisher" where
  "wm_NewPublisher built =
     (case built of
        Inl e \<Rightarrow> Inl (WrapError [Lit ''creating redis stream publisher: ''] e)
      | Inr pub \<Rightarrow> Inr (wm_Publish pub))"

definition wm_Close :: "('w \<Rightarrow> goerr option \<times> 'w) \<Rightarrow> 'w \<Rightarrow> goerr option \<times> 'w" where
  "wm_Close close_pub w = close_pub w"

section \<open>Publisher\<close>

record 'w publisher =
  pb_cfg :: Config
  pb_inst :: instruments
  pb_publishFn :: "'w stream_publisher"

record PublishResult =
  pr_EventID :: string
  pr_Timestamp :: gotime

text \<open>\<open>new_wm\<close> is \<open>redisstream.NewPublisher\<close> over a client with the given options.\<close>

definition NewPublisher ::
    "(collaborator \<Rightarrow> meter) \<Rightarrow> int \<Rightarrow> (ClientOptions \<Rightarrow> goerr + 'w wm_publish) \<Rightarrow> Config \<Rightarrow> 'w world
     \<Rightarrow> (goerr + 'w publisher) \<times> 'w world" where
  "NewPublisher meter_of gomaxprocs new_wm cfg w =
     (case Validate gomaxprocs cfg of
        (Some e, _) \<Rightarrow> (Inl (WrapError [Lit ''invalid config: ''] e), w)
      | (None, cfg) \<Rightarrow>
          (case wm_NewPublisher (new_wm (redisClientOptions (cfg_Redis cfg))) of
             Inl e \<Rightarrow> (Inl (WrapError [Lit ''creating watermill publisher: ''] e), w)
           | Inr publish \<Rightarrow>
               (let (inst, w) = newInstruments (map_option meter_of (tc_MeterProvider (cfg_Telemetry cfg))) w
                in (Inr \<lparr>pb_cfg = cfg, pb_inst = inst, pb_publishFn = publish\<rparr>, w))))"

text \<open>
  \<open>Publisher.Close\<close>; \<open>close_wm\<close> closes the \<open>redisstream.Publisher\<close> over the client with the given
  options, which owns that client.
\<close>

definition Publisher_Close ::
    "(ClientOptions \<Rightarrow> 'w \<Rightarrow> goerr option \<times> 'w) \<Rightarrow> 'w publisher \<Rightarrow> 'w \<Rightarrow> goerr option \<times> 'w" where
  "Publisher_Close close_wm p w = wm_Close (close_wm (redisClientOptions (cfg_Redis (pb_cfg p)))) w"

text \<open>What \<open>NewPublisher\<close> opened is what \<open>Close\<close> closes.\<close>

lemma Publisher_Close_opened:
  assumes "NewPublisher meter_of g new_wm cfg w = (Inr p, w')"
  shows "\<exists>opts pub. new_wm opts = Inr pub \<and> pb_publishFn p = wm_Publish pub \<and> Publisher_Close close_wm p v = close_wm opts v"
proof -
  from assms obtain cfg' where v: "Validate g cfg = (None, cfg')" by (auto simp: NewPublisher_def split: prod.splits option.splits)
  with assms obtain pub where "new_wm (redisClientOptions (cfg_Redis cfg')) = Inr pub"
    by (auto simp: NewPublisher_def wm_NewPublisher_def split: sum.splits)
  moreover from this v assms have "pb_cfg p = cfg' \<and> pb_publishFn p = wm_Publish pub"
    by (auto simp: NewPublisher_def wm_NewPublisher_def Let_def split: prod.splits)
  ultimately show ?thesis by (auto simp: Publisher_Close_def wm_Close_def)
qed

text \<open>The options are the arguments of the \<open>WithCorrelationID\<close> values passed, in order.\<close>

definition apply_options :: "string list \<Rightarrow> string" where
  "apply_options opts = fold (\<lambda>i _. i) opts []"

definition resolveCorrelationID ::
    "'w runtime \<Rightarrow> 'w ctx \<Rightarrow> string \<Rightarrow> 'w world \<Rightarrow> (goerr + string) \<times> 'w world" where
  "resolveCorrelationID rt ctx opt w =
     (if opt \<noteq> [] then (Inr opt, w)
      else
        (case correlationIDFromContext ctx of
           Some i \<Rightarrow> if i \<noteq> [] then (Inr i, w) else
             (case out (os_uuid rt) w of
                (Inl e, w) \<Rightarrow> (Inl (WrapError [Lit ''generating correlation id: ''] e), w)
              | (Inr i, w) \<Rightarrow> (Inr i, w))
         | None \<Rightarrow>
             (case out (os_uuid rt) w of
                (Inl e, w) \<Rightarrow> (Inl (WrapError [Lit ''generating correlation id: ''] e), w)
              | (Inr i, w) \<Rightarrow> (Inr i, w))))"

section \<open>Publish\<close>

definition stageValidation :: string where "stageValidation = ''validation''"
definition stageMarshal :: string where "stageMarshal = ''marshal''"
definition stageTransport :: string where "stageTransport = ''transport''"

text \<open>The local closure \<open>fail\<close>, followed by the deferred \<open>span.End\<close>.\<close>

definition publish_fail ::
    "'w publisher \<Rightarrow> attrs \<Rightarrow> string \<Rightarrow> goerr \<Rightarrow> 'w world \<Rightarrow> (goerr + PublishResult) \<times> 'w world" where
  "publish_fail p attrs stage err w =
     (let w = add_point (pb_inst p) PublishFailures 1 (attrs @ [(''stage'', stage)]) w;
          w = span_op (SpanRecordError err) w;
          w = span_op (SpanSetStatus CodeError stage) w
      in (Inl err, span_op SpanEnd w))"

definition publish_transport ::
    "'w runtime \<Rightarrow> 'w publisher \<Rightarrow> 'w ctx \<Rightarrow> string \<Rightarrow> attrs \<Rightarrow> 'p Envelope \<Rightarrow> bytes \<Rightarrow> 'w world
     \<Rightarrow> (goerr + PublishResult) \<times> 'w world" where
  "publish_transport rt p ctx stream attrs env body w =
     (let (now, w) = out (os_now rt) w;
          md = otel_inject rt (ctx_trace ctx) (Map.empty(''published_at'' \<mapsto> publishedAtNow now));
          (err, w) = out (pb_publishFn p (ctx_values.truncate ctx) stream (ev_EventID env) body md) w
      in case err of
           Some e \<Rightarrow>
             publish_fail p attrs stageTransport
               (WrapError [Lit ''publishing to stream '', Quoted stream, Lit '': ''] e) w
         | None \<Rightarrow>
             (let w = add_point (pb_inst p) Published 1 attrs w;
                  w = span_op (SpanSetStatus CodeOk []) w
              in (Inr \<lparr>pr_EventID = ev_EventID env, pr_Timestamp = ev_Timestamp env\<rparr>, span_op SpanEnd w)))"

text \<open>From the correlation id to the encoded body, the span already open.\<close>

definition publish_envelope ::
    "'w runtime \<Rightarrow> 'w publisher \<Rightarrow> 'w ctx \<Rightarrow> EventDef \<Rightarrow> string \<Rightarrow> attrs \<Rightarrow> 'p \<Rightarrow> goerr + string \<Rightarrow> string
     \<Rightarrow> 'w world \<Rightarrow> (goerr + PublishResult) \<times> 'w world" where
  "publish_envelope rt p ctx def stream attrs payload encoded opt w =
     (case resolveCorrelationID rt ctx opt w of
        (Inl err, w) \<Rightarrow> publish_fail p attrs stageValidation err w
      | (Inr correlationID, w) \<Rightarrow>
          (case out (os_uuid rt) w of
             (uuid, w) \<Rightarrow>
               (case (if isl uuid then (zero_time, w) else out (os_now rt) w) of
                  (now, w) \<Rightarrow>
                    (case newEnvelope uuid now def (cfg_Source (pb_cfg p)) correlationID payload of
                       Inl err \<Rightarrow> publish_fail p attrs stageValidation err w
                     | Inr env \<Rightarrow>
                         (case validateEnvelope env of
                            Some err \<Rightarrow> publish_fail p attrs stageValidation err w
                          | None \<Rightarrow>
                              (let w = span_op (SpanSetAttributes
                                     [(''messaging.message.id'', AStr (ev_EventID env)),
                                      (''messaging.foi.correlation_id'', AStr (ev_CorrelationID env))]) w
                               in case Marshal_envelope encoded env of
                                    Inl err \<Rightarrow>
                                      publish_fail p attrs stageMarshal (WrapError [Lit ''marshaling envelope: ''] err) w
                                  | Inr body \<Rightarrow> publish_transport rt p ctx stream attrs env body w))))))"

text \<open>\<open>Publish\<close>; \<open>encoded\<close> is the JSON encoding of the payload, or the error of encoding it.\<close>

definition Publish ::
    "'w runtime \<Rightarrow> 'w publisher \<Rightarrow> 'w ctx \<Rightarrow> EventDef \<Rightarrow> 'p \<Rightarrow> goerr + string \<Rightarrow> string list
     \<Rightarrow> 'w world \<Rightarrow> (goerr + PublishResult) \<times> 'w world" where
  "Publish rt p ctx def payload encoded opts w =
     (if def_Topic def = [] then (Inl (ErrorString [Lit ''event def: topic is required'']), w)
      else
        (let stream = cfg_StreamPrefix (pb_cfg p) @ '':'' @ def_Topic def;
             (started, w) = out (otel_start rt (ctx_trace ctx)) w;
             ctx = ctx\<lparr>ctx_trace := fst started\<rparr>;
             w = span_op (SpanStart (''publish '' @ def_Topic def)
                    [(''messaging.system'', ''redis''), (''messaging.operation.name'', ''publish''),
                     (''messaging.destination.name'', stream), (''messaging.foi.event_type'', def_Type def),
                     (''messaging.foi.schema_version'', def_Version def)]) w;
             attrs = [(''topic'', def_Topic def), (''event_type'', def_Type def)]
         in publish_envelope rt p ctx def stream attrs payload encoded (apply_options opts) w))"

section \<open>Properties\<close>

text \<open>
  The correlation id of a publish is, in this order, the last one given explicitly, the one on
  the context, a fresh one; an empty value at a level falls through to the next, and only the last
  level touches the outside or can fail.
\<close>

theorem resolveCorrelationID_priority:
  "resolveCorrelationID rt ctx (apply_options opts) w =
     (let given = (if opts = [] then [] else last opts);
          carried = (case correlationIDFromContext ctx of None \<Rightarrow> [] | Some i \<Rightarrow> i);
          (fresh, w') = out (os_uuid rt) w
      in if given \<noteq> [] then (Inr given, w)
         else if carried \<noteq> [] then (Inr carried, w)
         else (case fresh of
                 Inl e \<Rightarrow> (Inl (WrapError [Lit ''generating correlation id: ''] e), w')
               | Inr i \<Rightarrow> (Inr i, w')))"
proof -
  have "apply_options opts = (if opts = [] then [] else last opts)"
    unfolding apply_options_def by (induction opts rule: rev_induct) simp_all
  then show ?thesis
    by (auto simp: resolveCorrelationID_def Let_def split: option.split prod.split sum.split)
qed

lemma publish_fail_points:
  "publish_fail p attrs stage err w = (res, w') \<Longrightarrow> inst_live (pb_inst p) \<Longrightarrow>
     res = Inl err \<and> metrics w' = metrics w @
       [\<lparr>pt_instrument = PublishFailures, pt_value = 1, pt_attrs = attrs @ [(''stage'', stage)]\<rparr>]"
  by (auto simp: publish_fail_def Let_def)

text \<open>What one publish adds to the metrics, by its result.\<close>

definition publish_point :: "EventDef \<Rightarrow> goerr + PublishResult \<Rightarrow> string \<Rightarrow> point" where
  "publish_point def res stage =
     (let attrs = [(''topic'', def_Topic def), (''event_type'', def_Type def)]
      in if isl res then \<lparr>pt_instrument = PublishFailures, pt_value = 1, pt_attrs = attrs @ [(''stage'', stage)]\<rparr>
         else \<lparr>pt_instrument = Published, pt_value = 1, pt_attrs = attrs\<rparr>)"

lemma newEnvelope_fields:
  "newEnvelope uuid now def source cor payload = Inr env \<Longrightarrow>
     ev_EventType env = def_Type def \<and> ev_SchemaVersion env = def_Version def \<and> ev_Source env = source
     \<and> ev_Payload env = payload \<and> ev_CorrelationID env = cor"
  by (auto simp: newEnvelope_def split: sum.splits)

text \<open>
  What a failed publish failed at: an id that could not be generated or an envelope that is not valid; a
  valid envelope that could not be encoded; or an encoded one the transport was called with and refused.
\<close>

definition envelope_for :: "'w publisher \<Rightarrow> EventDef \<Rightarrow> 'p \<Rightarrow> 'p Envelope \<Rightarrow> bool" where
  "envelope_for p def payload env \<longleftrightarrow> ev_EventType env = def_Type def \<and> ev_SchemaVersion env = def_Version def
     \<and> ev_Source env = cfg_Source (pb_cfg p) \<and> ev_Payload env = payload"

definition stage_explains :: "'w publisher \<Rightarrow> EventDef \<Rightarrow> 'p \<Rightarrow> goerr + string \<Rightarrow> string \<Rightarrow> goerr \<Rightarrow> bool" where
  "stage_explains p def payload encoded stage err \<longleftrightarrow>
     stage = ''validation'' \<and> ((\<exists>e. err = WrapError [Lit ''generating correlation id: ''] e)
         \<or> (\<exists>e. err = WrapError [Lit ''generating event id: ''] e)
         \<or> (\<exists>env. envelope_for p def payload env \<and> validateEnvelope env = Some err))
     \<or> (\<exists>env. envelope_for p def payload env \<and> validateEnvelope env = None
         \<and> (stage = ''marshal'' \<and> (\<exists>e. Marshal_envelope encoded env = Inl e \<and> err = WrapError [Lit ''marshaling envelope: ''] e)
          \<or> stage = ''transport'' \<and> (\<exists>body x md v v' e. Marshal_envelope encoded env = Inr body
              \<and> pb_publishFn p x (cfg_StreamPrefix (pb_cfg p) @ '':'' @ def_Topic def) (ev_EventID env) body md v = (Some e, v')
              \<and> err = WrapError [Lit ''publishing to stream '', Quoted (cfg_StreamPrefix (pb_cfg p) @ '':'' @ def_Topic def), Lit '': ''] e)))"

text \<open>One point is added, its stage explains the error, and up to the transport stage nothing was sent.\<close>

definition publish_recorded ::
    "'w publisher \<Rightarrow> EventDef \<Rightarrow> 'p \<Rightarrow> goerr + string \<Rightarrow> ('w publisher \<Rightarrow> (goerr + PublishResult) \<times> 'w world) \<Rightarrow> 'w world \<Rightarrow> bool" where
  "publish_recorded p def payload encoded run w \<longleftrightarrow>
     (\<exists>stage. metrics (snd (run p)) = metrics w @ [publish_point def (fst (run p)) stage]
        \<and> (\<forall>err. fst (run p) = Inl err \<longrightarrow> stage_explains p def payload encoded stage err)
        \<and> (stage \<noteq> ''transport'' \<longrightarrow> (\<forall>f. run (p\<lparr>pb_publishFn := f\<rparr>) = run p)))"

lemma publish_fail_counted:
  assumes "\<And>f. run (p\<lparr>pb_publishFn := f\<rparr>) = run p"
    and "run p = publish_fail p [(''topic'', def_Topic def), (''event_type'', def_Type def)] stage err v"
    and "stage_explains p def payload encoded stage err" and "metrics v = metrics w" and "inst_live (pb_inst p)"
  shows "publish_recorded p def payload encoded run w"
proof -
  obtain res w' where r: "run p = (res, w')" by fastforce
  with assms(2) publish_fail_points [OF _ assms(5)] have "res = Inl err"
    "metrics w' = metrics v @ [\<lparr>pt_instrument = PublishFailures, pt_value = 1,
       pt_attrs = [(''topic'', def_Topic def), (''event_type'', def_Type def)] @ [(''stage'', stage)]\<rparr>]" by metis+
  with assms(1,3,4) r show ?thesis unfolding publish_recorded_def by (intro exI [of _ stage]) (simp add: publish_point_def)
qed

lemma publish_transport_counted:
  fixes def :: EventDef and p :: "'w publisher"
  defines "stream \<equiv> cfg_StreamPrefix (pb_cfg p) @ '':'' @ def_Topic def"
    and "at \<equiv> [(''topic'', def_Topic def), (''event_type'', def_Type def)]"
  assumes run: "run p = publish_transport rt p ctx stream at env body w1" and m: "metrics w1 = metrics w"
    and live: "inst_live (pb_inst p)"
    and env: "envelope_for p def payload env" "validateEnvelope env = None" "Marshal_envelope encoded env = Inr body"
  shows "publish_recorded p def payload encoded run w"
proof -
  obtain now w2 where n: "out (os_now rt) w1 = (now, w2)" by fastforce
  let ?x = "ctx_values.truncate ctx" and ?md = "otel_inject rt (ctx_trace ctx) (Map.empty(''published_at'' \<mapsto> publishedAtNow now))"
  obtain err w3 where t: "out (pb_publishFn p ?x stream (ev_EventID env) body ?md) w2 = (err, w3)" by fastforce
  have m3: "metrics w3 = metrics w" using m out_frame [OF n] out_frame [OF t] by simp
  note run = run [unfolded publish_transport_def Let_def n prod.case t]
  show ?thesis
  proof (cases err)
    case None
    with run m3 live show ?thesis
      unfolding publish_recorded_def by (intro exI [of _ "''transport''"]) (simp add: Let_def publish_point_def at_def)
  next
    case (Some e)
    then have "pb_publishFn p ?x stream (ev_EventID env) body ?md (outside w2) = (Some e, outside w3)"
      using t by (auto simp: out_def split: prod.splits)
    then have "stage_explains p def payload encoded ''transport'' (WrapError [Lit ''publishing to stream '', Quoted stream, Lit '': ''] e)"
      unfolding stage_explains_def stream_def using env
      by (intro disjI2 exI [of _ env] conjI exI [of _ body] exI [of _ ?x] exI [of _ ?md] exI [of _ "outside w2"]
          exI [of _ "outside w3"] exI [of _ e]) (simp_all add: stream_def)
    moreover from run Some have "run p = publish_fail p at ''transport'' (WrapError [Lit ''publishing to stream '', Quoted stream, Lit '': ''] e) w3"
      by (simp add: stageTransport_def)
    ultimately show ?thesis
      using publish_fail_points [OF prod.collapse [symmetric] live, of at "''transport''" "WrapError [Lit ''publishing to stream '', Quoted stream, Lit '': ''] e" w3] m3
      unfolding publish_recorded_def by (intro exI [of _ "''transport''"]) (simp add: publish_point_def at_def)
  qed
qed

lemma resolveCorrelationID_frame:
  "resolveCorrelationID rt ctx opt w = (res, w') \<Longrightarrow> metrics w' = metrics w"
  by (auto simp: resolveCorrelationID_def out_def split: if_splits option.splits prod.splits sum.splits)

lemma resolveCorrelationID_error:
  "resolveCorrelationID rt ctx opt w = (Inl err, w') \<Longrightarrow> \<exists>e. err = WrapError [Lit ''generating correlation id: ''] e"
  by (auto simp: resolveCorrelationID_def split: if_splits option.splits prod.splits sum.splits)

lemma publish_envelope_counted:
  assumes "inst_live (pb_inst p)"
  shows "publish_recorded p def payload encoded (\<lambda>p. publish_envelope rt p ctx def (cfg_StreamPrefix (pb_cfg p) @ '':'' @ def_Topic def)
    [(''topic'', def_Topic def), (''event_type'', def_Type def)] payload encoded opt w) w" (is "publish_recorded p def payload encoded ?run w")
proof -
  have frame: "publish_fail (p\<lparr>pb_publishFn := f\<rparr>) = publish_fail p" for f by (simp add: fun_eq_iff publish_fail_def)
  obtain cor w1 where c: "resolveCorrelationID rt ctx opt w = (cor, w1)" by fastforce
  note m1 = resolveCorrelationID_frame [OF c]
  obtain uuid w2 where u: "out (os_uuid rt) w1 = (uuid, w2)" by fastforce
  obtain now w3 where n: "(if isl uuid then (zero_time, w2) else out (os_now rt) w2) = (now, w3)" by fastforce
  have m3: "metrics w3 = metrics w" using m1 out_frame [OF u] n by (auto split: if_splits dest!: out_frame)
  note run = publish_envelope_def c u n
  show ?thesis
  proof (cases cor)
    case (Inl err)
    from resolveCorrelationID_error [OF c [unfolded Inl]] have "stage_explains p def payload encoded ''validation'' err"
      by (auto simp: stage_explains_def)
    with Inl m1 assms frame show ?thesis
      by (intro publish_fail_counted [where stage = "''validation''" and v = w1]) (simp_all add: run stageValidation_def)
  next
    case cid: (Inr i)
    show ?thesis
    proof (cases "newEnvelope uuid now def (cfg_Source (pb_cfg p)) i payload")
      case (Inl err)
      then have "stage_explains p def payload encoded ''validation'' err"
        by (auto simp: stage_explains_def newEnvelope_def split: sum.splits)
      with cid Inl m3 assms frame show ?thesis
        by (intro publish_fail_counted [where stage = "''validation''" and v = w3]) (simp_all add: run stageValidation_def)
    next
      case env: (Inr env)
      then have for_def: "envelope_for p def payload env" using newEnvelope_fields [OF env] by (simp add: envelope_for_def)
      define w4 where "w4 = span_op (SpanSetAttributes [(''messaging.message.id'', AStr (ev_EventID env)),
         (''messaging.foi.correlation_id'', AStr (ev_CorrelationID env))]) w3"
      have m4: "metrics w4 = metrics w" using m3 by (simp add: w4_def)
      show ?thesis
      proof (cases "validateEnvelope env")
        case (Some err)
        with for_def have "stage_explains p def payload encoded ''validation'' err" by (auto simp: stage_explains_def)
        with cid env Some m3 assms frame show ?thesis
          by (intro publish_fail_counted [where stage = "''validation''" and v = w3]) (simp_all add: run stageValidation_def)
      next
        case None
        show ?thesis
        proof (cases "Marshal_envelope encoded env")
          case (Inl e)
          with for_def None have "stage_explains p def payload encoded ''marshal'' (WrapError [Lit ''marshaling envelope: ''] e)"
            by (auto simp: stage_explains_def)
          with cid env None Inl m4 assms frame show ?thesis
            by (intro publish_fail_counted [where stage = "''marshal''" and v = w4]) (simp_all add: run stageMarshal_def w4_def [symmetric])
        next
          case (Inr body)
          show ?thesis
            by (rule publish_transport_counted [OF _ m4 assms for_def None Inr]) (simp add: run cid env None Inr w4_def [symmetric])
        qed
      qed
    qed
  qed
qed

text \<open>
  C24. Every publish to a named topic is counted exactly once: one \<open>published\<close> when it returns a
  result, one \<open>publish.failures\<close> when it returns an error, and its span is always ended. The \<open>stage\<close> of
  a failure is the right one: \<open>validation\<close> for an id that could not be generated or an envelope that is
  not valid, \<open>marshal\<close> for a valid envelope that could not be encoded, \<open>transport\<close> for an encoded one
  the transport refused; and with the first two nothing was sent, the publish being the same with
  any other transport.
\<close>

theorem Publish_counts_once:
  assumes "def_Topic def \<noteq> []" and "inst_live (pb_inst p)"
  shows "\<exists>stage.
      metrics (snd (Publish rt p ctx def payload encoded opts w)) =
        metrics w @ [publish_point def (fst (Publish rt p ctx def payload encoded opts w)) stage]
    \<and> (\<forall>err. fst (Publish rt p ctx def payload encoded opts w) = Inl err \<longrightarrow> stage_explains p def payload encoded stage err)
    \<and> (stage \<noteq> ''transport'' \<longrightarrow> (\<forall>f. Publish rt (p\<lparr>pb_publishFn := f\<rparr>) ctx def payload encoded opts w
                                        = Publish rt p ctx def payload encoded opts w))
    \<and> last (span_ops (snd (Publish rt p ctx def payload encoded opts w))) = SpanEnd"
proof -
  obtain started w1 where s: "out (otel_start rt (ctx_trace ctx)) w = (started, w1)" by fastforce
  let ?stream = "cfg_StreamPrefix (pb_cfg p) @ '':'' @ def_Topic def"
  define w2 where "w2 = span_op (SpanStart (''publish '' @ def_Topic def)
    [(''messaging.system'', ''redis''), (''messaging.operation.name'', ''publish''),
     (''messaging.destination.name'', ?stream), (''messaging.foi.event_type'', def_Type def),
     (''messaging.foi.schema_version'', def_Version def)]) w1"
  let ?at = "[(''topic'', def_Topic def), (''event_type'', def_Type def)]"
  let ?ctx = "ctx\<lparr>ctx_trace := fst started\<rparr>"
  let ?run = "\<lambda>p. publish_envelope rt p ?ctx def (cfg_StreamPrefix (pb_cfg p) @ '':'' @ def_Topic def) ?at payload encoded (apply_options opts) w2"
  have eq: "Publish rt (p\<lparr>pb_publishFn := f\<rparr>) ctx def payload encoded opts w = ?run (p\<lparr>pb_publishFn := f\<rparr>)" for f
    using assms(1) s by (simp add: Publish_def w2_def Let_def)
  have eq0: "Publish rt p ctx def payload encoded opts w = ?run p" using assms(1) s by (simp add: Publish_def w2_def Let_def)
  have "metrics w2 = metrics w" using out_frame [OF s] by (simp add: w2_def)
  moreover have "last (span_ops (snd (?run p))) = SpanEnd"
    by (auto simp: publish_envelope_def publish_transport_def publish_fail_def Let_def
        split: sum.split option.split prod.split)
  ultimately show ?thesis
    using publish_envelope_counted [OF assms(2), of def payload encoded rt ?ctx "apply_options opts" w2]
    unfolding publish_recorded_def eq eq0 by auto
qed

text \<open>
  A transport that accepts a write only if it is the encoding of a valid envelope for the given
  definition and source, on the definition's stream, under the envelope's own id.
\<close>

definition writes_valid_event :: "'w publisher \<Rightarrow> EventDef \<Rightarrow> 'p \<Rightarrow> goerr + string \<Rightarrow> string \<Rightarrow> string \<Rightarrow> bytes \<Rightarrow> bool" where
  "writes_valid_event p def payload encoded stream i body \<longleftrightarrow>
     def_Topic def \<noteq> [] \<and> stream = cfg_StreamPrefix (pb_cfg p) @ '':'' @ def_Topic def
     \<and> (\<exists>env. validateEnvelope env = None \<and> Marshal_envelope encoded env = Inr body \<and> ev_EventID env = i
          \<and> ev_EventType env = def_Type def \<and> ev_SchemaVersion env = def_Version def
          \<and> ev_Source env = cfg_Source (pb_cfg p) \<and> ev_Payload env = payload)"

definition checked_transport :: "'w publisher \<Rightarrow> EventDef \<Rightarrow> 'p \<Rightarrow> goerr + string \<Rightarrow> 'w stream_publisher" where
  "checked_transport p def payload encoded = (\<lambda>ctx stream i body md w.
     if writes_valid_event p def payload encoded stream i body then pb_publishFn p ctx stream i body md w
     else (Some (ErrorString [Lit ''unexpected write'']), w))"

text \<open>
  C23. Nothing invalid reaches Redis. Replace the transport by one that refuses every write other than
  the encoding of a valid envelope with the definition's type and version, the configured source and
  the given payload, on the definition's stream, under the envelope's id: no publish can tell.
\<close>

theorem Publish_writes_only_valid:
  "Publish rt (p\<lparr>pb_publishFn := checked_transport p def payload encoded\<rparr>) ctx def payload encoded opts w
   = Publish rt p ctx def payload encoded opts w"
proof (cases "def_Topic def = []")
  case False
  let ?p = "p\<lparr>pb_publishFn := checked_transport p def payload encoded\<rparr>"
  let ?stream = "cfg_StreamPrefix (pb_cfg p) @ '':'' @ def_Topic def"
  have fail: "publish_fail ?p = publish_fail p" by (simp add: fun_eq_iff publish_fail_def)
  have tr: "publish_transport rt ?p c ?stream at env body v = publish_transport rt p c ?stream at env body v"
    if "validateEnvelope env = None" "Marshal_envelope encoded env = Inr body"
      "newEnvelope uuid now def (cfg_Source (pb_cfg p)) cor payload = Inr env" for c at env body v uuid now cor
  proof -
    have "writes_valid_event p def payload encoded ?stream (ev_EventID env) body"
      using that newEnvelope_fields [OF that(3)] False by (auto simp: writes_valid_event_def)
    then have "checked_transport p def payload encoded cx ?stream (ev_EventID env) body md =
        pb_publishFn p cx ?stream (ev_EventID env) body md" for cx md
      by (simp add: checked_transport_def fun_eq_iff)
    then show ?thesis
      by (simp add: publish_transport_def fail Let_def split_beta cong: option.case_cong)
  qed
  have "publish_envelope rt ?p c def ?stream at payload encoded opt v
      = publish_envelope rt p c def ?stream at payload encoded opt v" for c at opt v
    using tr by (auto simp: publish_envelope_def fail Let_def split: prod.split sum.split option.split)
  with False show ?thesis by (simp add: Publish_def Let_def split_beta)
qed (simp add: Publish_def)

definition sample_def :: EventDef where
  "sample_def = \<lparr>def_Topic = ''t'', def_Type = ''a.b'', def_Version = ''1.0.0''\<rparr>"

definition sample_publisher :: "unit publisher" where
  "sample_publisher = \<lparr>pb_cfg = minimal_consumer,
     pb_inst = \<lparr>inst_created = map fst instrument_specs, inst_live = True\<rparr>,
     pb_publishFn = (\<lambda>ctx stream i body md w. (Some (OpaqueError ''connection refused''), w))\<rparr>"

definition still_runtime :: "unit runtime" where
  "still_runtime =
     \<lparr>os_now = (\<lambda>w. (\<lparr>ns_since_zero = 63900000000000000000, zone_offset = 0\<rparr>, w)),
      os_rand = (\<lambda>n w. (0, w)), os_timer = (\<lambda>ctx d w. (True, w)), os_ctx_err = (\<lambda>ctx w. (False, w)),
      os_uuid = (\<lambda>w. (Inr ''0197-id'', w)), otel_extract = (\<lambda>t md. t), otel_inject = (\<lambda>t md. md),
      otel_start = (\<lambda>t w. ((t, ''trace'', ''span''), w))\<rparr>"

text \<open>The payload cannot be encoded: the stage is \<open>marshal\<close> although the transport would fail as well.\<close>

theorem Publish_counts_once_witness:
  "\<exists>stage err. fst (Publish still_runtime sample_publisher
          \<lparr>ctx_correlationID = None, ctx_trace = [], ctx_probe = None\<rparr> sample_def () (Inl (OpaqueError ''cycle'')) [] (start_world ()))
       = Inl err \<and> stage_explains sample_publisher sample_def () (Inl (OpaqueError ''cycle'')) stage err
     \<and> stage \<noteq> ''transport''"
proof -
  let ?run = "Publish still_runtime sample_publisher \<lparr>ctx_correlationID = None, ctx_trace = [], ctx_probe = None\<rparr> sample_def ()
    (Inl (OpaqueError ''cycle'')) [] (start_world ())"
  have bad: "\<exists>e. Marshal_envelope (Inl (OpaqueError ''cycle'')) env = Inl e" for env :: "unit Envelope"
    by (auto simp: Marshal_envelope_def split: sum.split)
  obtain stage where st: "metrics (snd ?run) = metrics (start_world ()) @ [publish_point sample_def (fst ?run) stage]"
      "\<forall>err. fst ?run = Inl err \<longrightarrow> stage_explains sample_publisher sample_def () (Inl (OpaqueError ''cycle'')) stage err"
    using Publish_counts_once [of sample_def sample_publisher still_runtime
        "\<lparr>ctx_correlationID = None, ctx_trace = [], ctx_probe = None\<rparr>" "()" "Inl (OpaqueError ''cycle'')" "[]" "start_world ()"]
    by (auto simp: sample_def_def sample_publisher_def)
  obtain res where "fst ?run = res" by blast
  moreover have "isl (fst ?run)"
    by (simp add: Publish_def sample_def_def publish_envelope_def publish_fail_def resolveCorrelationID_def correlationIDFromContext_def
        apply_options_def out_def still_runtime_def newEnvelope_def Marshal_envelope_def Let_def split: sum.split option.split)
  ultimately obtain err where err: "fst ?run = Inl err" by (auto simp: isl_def)
  with st(2) have ex: "stage_explains sample_publisher sample_def () (Inl (OpaqueError ''cycle'')) stage err" by blast
  moreover have "stage \<noteq> ''transport''"
    using ex bad by (auto simp: stage_explains_def) (metis Inl_Inr_False)
  ultimately show ?thesis using err by blast
qed

end
