(* ===== verification/Router.thy ===== *)
theory Router
  imports Subscriber
begin

text \<open>
  The adapters to watermill of \<open>internal/watermill\<close>: the logger adapter of \<open>logger.go\<close> with its
  ordered attributes, and the router wrapper of \<open>router.go\<close>. The watermill router itself is
  third-party code: what its constructor and its \<open>Run\<close> return are arguments.
\<close>

section \<open>The logger adapter\<close>

text \<open>\<open>LogFields\<close> is a Go map: a list of distinct keys in the order one iteration happens to have.\<close>

type_synonym LogFields = "(string \<times> attr_value) list"

definition logPrefix :: string where
  "logPrefix = ''watermill: ''"

definition logAttrs :: "LogFields \<Rightarrow> (string \<times> attr_value) list" where
  "logAttrs fs = map (\<lambda>k. (k, the (map_of fs k))) (sort (map fst fs))"

text \<open>A \<open>*slog.Logger\<close>: the application's or slog's default, with the attributes bound by \<open>With\<close>.\<close>

record slogAdapter =
  sa_default :: bool
  sa_bound :: "(string \<times> attr_value) list"

definition newLoggerAdapter :: "collaborator option \<Rightarrow> slogAdapter" where
  "newLoggerAdapter log = \<lparr>sa_default = (log = None), sa_bound = []\<rparr>"

definition adapter_line :: "slogAdapter \<Rightarrow> level \<Rightarrow> string \<Rightarrow> (string \<times> attr_value) list \<Rightarrow> log_line" where
  "adapter_line a l msg as = \<lparr>ll_level = l, ll_msg = logPrefix @ msg, ll_attrs = sa_bound a @ as\<rparr>"

definition adapter_Error :: "slogAdapter \<Rightarrow> string \<Rightarrow> goerr \<Rightarrow> LogFields \<Rightarrow> log_line" where
  "adapter_Error a msg err fs = adapter_line a LError msg (logAttrs fs @ [(''error'', AErr err)])"

definition adapter_Info :: "slogAdapter \<Rightarrow> string \<Rightarrow> LogFields \<Rightarrow> log_line" where
  "adapter_Info a msg fs = adapter_line a LInfo msg (logAttrs fs)"

definition adapter_Debug :: "slogAdapter \<Rightarrow> string \<Rightarrow> LogFields \<Rightarrow> log_line" where
  "adapter_Debug a msg fs = adapter_line a LDebug msg (logAttrs fs)"

definition adapter_Trace :: "slogAdapter \<Rightarrow> string \<Rightarrow> LogFields \<Rightarrow> log_line" where
  "adapter_Trace a msg fs = adapter_line a LDebug msg (logAttrs fs)"

definition adapter_With :: "slogAdapter \<Rightarrow> LogFields \<Rightarrow> slogAdapter" where
  "adapter_With a fs = a\<lparr>sa_bound := sa_bound a @ logAttrs fs\<rparr>"

lemma set_logAttrs:
  assumes "distinct (map fst fs)"
  shows "set (logAttrs fs) = set fs"
proof -
  have "map_of fs k = Some v" if "(k, v) \<in> set fs" for k v using assms that by (rule map_of_is_SomeI)
  then show ?thesis by (force simp: logAttrs_def)
qed

text \<open>
  A log line of watermill is the same run to run: the attributes are those of the fields, ordered
  by key, whatever order the map iteration took, on every level and through \<open>With\<close>.
\<close>

theorem log_line_deterministic:
  assumes "distinct (map fst fs)" and "mset fs = mset gs"
  shows "logAttrs fs = logAttrs gs
    \<and> adapter_Error a msg err fs = adapter_Error a msg err gs
    \<and> adapter_Info (adapter_With a fs) msg hs = adapter_Info (adapter_With a gs) msg hs
    \<and> sorted (map fst (logAttrs fs)) \<and> set (logAttrs fs) = set fs"
proof -
  have keys: "mset (map fst fs) = mset (map fst gs)" using assms(2) by simp
  then have "sort (map fst fs) = sort (map fst gs)" by (metis properties_for_sort sorted_sort mset_sort)
  moreover have "map_of fs = map_of gs"
    using assms mset_eq_imp_distinct_iff [OF keys] by (intro map_of_inject_set [THEN iffD2]) (auto dest: mset_eq_setD)
  ultimately have "logAttrs fs = logAttrs gs" by (simp add: logAttrs_def)
  moreover have "sorted (map fst (logAttrs fs)) \<and> set (logAttrs fs) = set fs"
    using set_logAttrs [OF assms(1)] by (simp add: logAttrs_def comp_def)
  ultimately show ?thesis by (simp add: adapter_Error_def adapter_With_def)
qed

theorem log_line_deterministic_witness:
  "logAttrs [(''topic'', AStr ''t''), (''handler'', AStr ''h'')] = logAttrs [(''handler'', AStr ''h''), (''topic'', AStr ''t'')]"
  using log_line_deterministic [of "[(''topic'', AStr ''t''), (''handler'', AStr ''h'')]" "[(''handler'', AStr ''h''), (''topic'', AStr ''t'')]"]
  by (simp add: add_mset_commute)

section \<open>The router\<close>

text \<open>\<open>MessageHandler\<close> on plain types, and a handler added under a name for a stream.\<close>

type_synonym ('c, 'r) MessageHandler = "'c \<Rightarrow> bytes \<Rightarrow> metadata \<Rightarrow> 'r"

record ('c, 'r) route =
  rh_name :: string
  rh_stream :: string
  rh_handler :: "'c \<Rightarrow> message \<Rightarrow> 'r"

record ('c, 'r) Router =
  rr_closeTimeout :: int
  rr_logger :: slogAdapter
  rr_routes :: "('c, 'r) route list"

definition NewRouter :: "goerr option \<Rightarrow> int \<Rightarrow> collaborator option \<Rightarrow> goerr + ('c, 'r) Router" where
  "NewRouter built closeTimeout logger =
     (case built of
        Some err \<Rightarrow> Inl (WrapError [Lit ''creating router: ''] err)
      | None \<Rightarrow> Inr \<lparr>rr_closeTimeout = closeTimeout, rr_logger = newLoggerAdapter logger, rr_routes = []\<rparr>)"

definition AddHandler :: "string \<Rightarrow> string \<Rightarrow> ('c, 'r) MessageHandler \<Rightarrow> ('c, 'r) Router \<Rightarrow> ('c, 'r) Router" where
  "AddHandler name stream h r =
     r\<lparr>rr_routes := rr_routes r @
        [\<lparr>rh_name = name, rh_stream = stream, rh_handler = (\<lambda>ctx msg. h ctx (msg_Payload msg) (msg_Metadata msg))\<rparr>]\<rparr>"

text \<open>\<open>sharedSubscriber.Close\<close>, what watermill closes when a handler stops: the subscription is untouched.\<close>

definition sharedSubscriber_Close :: "subscription \<Rightarrow> goerr option \<times> subscription" where
  "sharedSubscriber_Close sc = (None, sc)"

definition Router_Run :: "goerr option \<Rightarrow> goerr option" where
  "Router_Run err = map_option (WrapError [Lit ''running router: '']) err"

end
