(* ===== verification/Delivery.thy ===== *)
theory Delivery
  imports Consumer
begin

text \<open>
  The delivery path of \<open>consumer.go\<close>: dead-lettering, the delivery-attempt counter, the immediate
  retry loop, \<open>dispatch\<close> with its deferred recorder, and the hook for entries the transport could
  not decode. Each function threads the recorder and the world; a nil error is \<^term>\<open>None\<close>, and
  a panic of the handler propagates as \<^term>\<open>Panic\<close> after the deferred \<open>end\<close> has run. The
  consumer is the value its fields have when the delivery reads them: once \<open>Run\<close> has started,
  nothing but \<open>Run\<close> itself writes them.
\<close>

section \<open>Dead-lettering\<close>

type_synonym logger = "(string \<times> attr_value) list"

definition newDeadLetter ::
    "'w runtime \<Rightarrow> 'w consumer \<Rightarrow> string \<Rightarrow> string \<Rightarrow> goerr \<Rightarrow> int \<Rightarrow> 'w world \<Rightarrow> DeadLetter \<times> 'w world" where
  "newDeadLetter rt c topic reason cause attempt w =
     (let (now, w) = out (os_now rt) w
      in (\<lparr>dl_DeadLetteredAt = UTC now, dl_Reason = reason, dl_Error = Error cause,
           dl_DeliveryAttempts = attempt, dl_ConsumerGroup = cc_Group (cfg_Consumer (co_cfg c)),
           dl_ConsumerName = cc_ConsumerName (cfg_Consumer (co_cfg c)), dl_OriginalTopic = topic,
           dl_Event = [], dl_EventRaw = []\<rparr>, w))"

text \<open>The sink \<open>deadLetter\<close> uses: the probe's when there is one, else the consumer's.\<close>

definition sink_for :: "'w consumer \<Rightarrow> 'w ctx \<Rightarrow> 'w deadLetterSink option" where
  "sink_for c ctx =
     (case FromContext ctx of
        None \<Rightarrow> co_dlq c
      | Some p \<Rightarrow> (case Sink p of None \<Rightarrow> co_dlq c | Some f \<Rightarrow> Some (ProbeSink f)))"

definition dlqStream :: "'w consumer \<Rightarrow> string \<Rightarrow> string" where
  "dlqStream c topic = streamName c topic @ ''.dlq''"

definition deadLetter ::
    "'w runtime \<Rightarrow> 'w consumer \<Rightarrow> 'w ctx \<Rightarrow> string \<Rightarrow> DeadLetter \<Rightarrow> 'w world
     \<Rightarrow> goerr option \<times> 'w world" where
  "deadLetter rt c ctx topic dl w =
     (let stream = dlqStream c topic in
      case sink_for c ctx of
        None \<Rightarrow> (Some (ErrorString [Lit ''dead-lettering to '', Quoted stream,
                                     Lit '': no dead letter sink configured'']), w)
      | Some sink \<Rightarrow>
          (case Marshal_dead_letter dl of
             Inl e \<Rightarrow> (Some (WrapError [Lit ''marshalling dead letter for '', Quoted stream, Lit '': ''] e), w)
           | Inr body \<Rightarrow>
               (let attrs = consumeAttrs topic (cc_Group (cfg_Consumer (co_cfg c))) []
                              [(''reason'', dl_Reason dl)];
                    (err, w) = out (publish_sink rt sink (ctx_values.truncate ctx) stream body) w
                in case err of
                     Some e \<Rightarrow>
                       (let w = add_point (co_inst c) DlqPublishFailures 1 attrs w;
                            w = log_at LError ''messaging: dead letter publish failed''
                                  [(''topic'', AStr topic), (''dlq_stream'', AStr stream),
                                   (''reason'', AStr (dl_Reason dl)),
                                   (''delivery_attempts'', AInt (dl_DeliveryAttempts dl)), (''error'', AErr e)] w
                        in (Some (WrapError [Lit ''publishing dead letter to '', Quoted stream, Lit '': ''] e), w))
                   | None \<Rightarrow>
                       (let w = add_point (co_inst c) Dlq 1 attrs w;
                            w = log_at LWarn ''messaging: event dead-lettered''
                                  [(''topic'', AStr topic), (''dlq_stream'', AStr stream),
                                   (''reason'', AStr (dl_Reason dl)),
                                   (''delivery_attempts'', AInt (dl_DeliveryAttempts dl)),
                                   (''error'', AStr (dl_Error dl))] w
                        in (None, w)))))"

section \<open>Delivery attempts and backoff\<close>

definition deliveryAttempt :: "metadata \<Rightarrow> int" where
  "deliveryAttempt md =
     (case ParseInt (md_get md MetadataDeliveryAttempt) of
        Inl _ \<Rightarrow> 1
      | Inr n \<Rightarrow> if n < 1 then 1 else n)"

text \<open>
  \<open>rand.Int64N\<close> panics for an argument that is not positive. The duration handed to \<open>time.NewTimer\<close> is
  recorded in \<open>sleeps\<close>.
\<close>

definition Int64N :: "'w runtime \<Rightarrow> int \<Rightarrow> 'w world \<Rightarrow> int go \<times> 'w world" where
  "Int64N rt n w = (if n \<le> 0 then (Panic, w) else (let (d, w) = out (os_rand rt n) w in (Ret d, w)))"

definition sleepWithJitter :: "'w runtime \<Rightarrow> 'w ctx \<Rightarrow> int \<Rightarrow> 'w world \<Rightarrow> bool go \<times> 'w world" where
  "sleepWithJitter rt ctx upper w =
     (if upper \<le> 0 then (let (e, w) = out (os_ctx_err rt ctx) w in (Ret (\<not> e), w))
      else (case Int64N rt upper w of
              (Panic, w) \<Rightarrow> (Panic, w)
            | (Ret d, w) \<Rightarrow>
                (let w = w\<lparr>sleeps := sleeps w @ [d]\<rparr>;
                     (fired, w) = out (os_timer rt ctx d) w
                 in (Ret fired, w))))"

section \<open>runWithRetry\<close>

text \<open>
  The \<open>for i := 0; ; i++\<close> loop. It leaves at the latest when \<open>i\<close> reaches \<open>MaxImmediateRetries\<close>,
  so the difference decreases.
\<close>

function retry_loop ::
    "'w runtime \<Rightarrow> 'w consumer \<Rightarrow> 'w ctx \<Rightarrow> string \<Rightarrow> bytes \<Rightarrow> int \<Rightarrow> 'w dispatchFunc \<Rightarrow> raw_envelope
     \<Rightarrow> logger \<Rightarrow> int \<Rightarrow> 'w deliveryRecorder \<Rightarrow> 'w world
     \<Rightarrow> goerr option go \<times> 'w deliveryRecorder \<times> 'w world" where
  "retry_loop rt c ctx topic payload attempt handler env lg i r w =
     (case out (handler ctx env) w of
        (Panic, w1) \<Rightarrow> (Panic, r, w1)
      | (Ret None, w1) \<Rightarrow> (Ret None, processed r, w1)
      | (Ret (Some e), w1) \<Rightarrow>
          if IsDiscard (Some e) then
            (Ret None, skipped ''discard'' r,
             log_at LWarn ''messaging: handler discarded event'' (lg @ [(''error'', AErr e)]) w1)
          else if IsPermanent (Some e) then
            (let w2 = log_at LError ''messaging: handler returned a permanent error''
                        (lg @ [(''error'', AErr e)]) w1;
                 r = failed ''permanent'' (Some e) r;
                 (dl, w3) = newDeadLetter rt c topic ReasonPermanent e attempt w2;
                 (ev, raw) = deadLetterBody payload;
                 (err, w4) = deadLetter rt c ctx topic (dl\<lparr>dl_Event := ev, dl_EventRaw := raw\<rparr>) w3
             in (Ret err, r, w4))
          else if i \<ge> rt_MaxImmediateRetries (cfg_Retry (co_cfg c)) then
            (Ret (Some e), failed ''retryable'' (Some e) r,
             log_at LError ''messaging: handler returned error, immediate retries exhausted''
               (lg @ [(''immediate_attempts'', AInt (wrap64 (i + 1))), (''error'', AErr e)]) w1)
          else
            (let w2 = log_at LDebug ''messaging: retrying handler''
                        (lg @ [(''immediate_attempt'', AInt (i + 1)), (''error'', AErr e)]) w1;
                 w3 = record_retry (i + 1) e r w2;
                 upper = backoffUpperBound (cfg_Retry (co_cfg c)) i;
                 upper = (case dr_probe r of
                            Some p \<Rightarrow> if NoBackoff p then 0 else upper
                          | None \<Rightarrow> upper)
             in case sleepWithJitter rt ctx upper w3 of
                  (Panic, w4) \<Rightarrow> (Panic, r, w4)
                | (Ret woke, w4) \<Rightarrow>
                    if \<not> woke then (Ret (Some e), failed ''retryable'' (Some e) r, w4)
                    else retry_loop rt c ctx topic payload attempt handler env lg (i + 1) r w4))"
  by pat_completeness auto
termination
  by (relation "measure (\<lambda>(rt, c, ctx, topic, payload, attempt, handler, env, lg, i, r, w).
        nat (rt_MaxImmediateRetries (cfg_Retry (co_cfg c)) - i))") auto

declare retry_loop.simps [simp del]

definition runWithRetry ::
    "'w runtime \<Rightarrow> 'w consumer \<Rightarrow> 'w ctx \<Rightarrow> string \<Rightarrow> bytes \<Rightarrow> int \<Rightarrow> 'w dispatchFunc \<Rightarrow> raw_envelope
     \<Rightarrow> logger \<Rightarrow> 'w deliveryRecorder \<Rightarrow> 'w world
     \<Rightarrow> goerr option go \<times> 'w deliveryRecorder \<times> 'w world" where
  "runWithRetry rt c ctx topic payload attempt handler env lg r w =
     retry_loop rt c ctx topic payload attempt handler env
       (lg @ [(''topic'', AStr topic), (''event_type'', AStr (ev_EventType env)),
              (''schema_version'', AStr (ev_SchemaVersion env)), (''event_id'', AStr (ev_EventID env)),
              (''delivery_attempt'', AInt attempt)]) 0 r w"

section \<open>dispatch\<close>

text \<open>Extracting the trace context, opening the span, and the recorder.\<close>

definition dispatch_open ::
    "'w runtime \<Rightarrow> 'w consumer \<Rightarrow> 'w ctx \<Rightarrow> string \<Rightarrow> metadata \<Rightarrow> 'w world
     \<Rightarrow> 'w ctx \<times> (string \<times> string) \<times> 'w deliveryRecorder \<times> 'w world" where
  "dispatch_open rt c ctx topic md w =
     (let (started, w) = out (otel_start rt (otel_extract rt (ctx_trace ctx) md)) w;
          (trace, trace_id, span_id) = started;
          ctx = ctx\<lparr>ctx_trace := trace\<rparr>;
          grp = cc_Group (cfg_Consumer (co_cfg c));
          w = span_op (SpanStart (''process '' @ topic)
                 [(''messaging.system'', ''redis''), (''messaging.operation.name'', ''process''),
                  (''messaging.destination.name'', streamName c topic),
                  (''messaging.consumer.group.name'', grp),
                  (''messaging.foi.stream_id'', md_get md MetadataStreamID)]) w;
          (now, w) = out (os_now rt) w
      in (ctx, (trace_id, span_id), newDeliveryRecorder (co_inst c) topic grp now (FromContext ctx), w))"

text \<open>The received counter and the queue latency, clamped at zero.\<close>

definition dispatch_received ::
    "'w runtime \<Rightarrow> 'w consumer \<Rightarrow> string \<Rightarrow> metadata \<Rightarrow> 'w world \<Rightarrow> 'w world" where
  "dispatch_received rt c topic md w =
     (let w = add_point (co_inst c) Received 1 [(''topic'', topic)] w in
      case parsePublishedAt md of
        None \<Rightarrow> w
      | Some t \<Rightarrow>
          (let (now, w) = out (os_now rt) w;
               latency = Since now t;
               latency = (if latency < 0 then 0 else latency)
           in add_point (co_inst c) QueueLatency latency [(''topic'', topic)] w))"

definition dispatch_logger :: "'w consumer \<Rightarrow> bytes \<Rightarrow> metadata \<Rightarrow> string \<times> string \<Rightarrow> logger" where
  "dispatch_logger c payload md ids =
     [(''stream_id'', AStr (md_get md MetadataStreamID)),
      (''delivery_attempt'', AStr (md_get md MetadataDeliveryAttempt)),
      (''trace_id'', AStr (fst ids)), (''span_id'', AStr (snd ids))]
     @ (if tc_LogPayloads (cfg_Telemetry (co_cfg c)) then [(''payload'', AStr payload)] else [])"

text \<open>
  The three deserialization branches differ in the log line and the wording of the cause: log,
  state the outcome, dead-letter with the bytes in \<open>EventRaw\<close>.
\<close>

definition undeserializable ::
    "'w runtime \<Rightarrow> 'w consumer \<Rightarrow> 'w ctx \<Rightarrow> string \<Rightarrow> bytes \<Rightarrow> int \<Rightarrow> string \<Rightarrow> logger \<Rightarrow> string \<Rightarrow> goerr
     \<Rightarrow> 'w deliveryRecorder \<Rightarrow> 'w world \<Rightarrow> goerr option go \<times> 'w deliveryRecorder \<times> 'w world" where
  "undeserializable rt c ctx topic payload attempt msg lg doing e r w =
     (let w = log_at LError msg (lg @ [(''error'', AErr e)]) w;
          r = failed ''deserialization'' (Some e) r;
          (dl, w) = newDeadLetter rt c topic ReasonDeserializationFailed
                      (WrapError [Lit doing, Quoted topic, Lit '': ''] e) attempt w;
          (err, w) = deadLetter rt c ctx topic (dl\<lparr>dl_EventRaw := payload\<rparr>) w
      in (Ret err, r, w))"

definition dispatch_capped ::
    "'w runtime \<Rightarrow> 'w consumer \<Rightarrow> 'w ctx \<Rightarrow> string \<Rightarrow> bytes \<Rightarrow> int \<Rightarrow> logger \<Rightarrow> 'w deliveryRecorder
     \<Rightarrow> 'w world \<Rightarrow> goerr option go \<times> 'w deliveryRecorder \<times> 'w world" where
  "dispatch_capped rt c ctx topic payload attempt lg r w =
     (let cap = cc_MaxDeliveryAttempts (cfg_Consumer (co_cfg c));
          w = log_at LWarn ''messaging: delivery attempt cap exceeded''
                (lg @ [(''topic'', AStr topic), (''max_delivery_attempts'', AInt cap)]) w;
          err = ErrorString [Lit ''delivery attempt '', Dec attempt,
                             Lit '' exceeded MaxDeliveryAttempts '', Dec cap];
          r = failed ''max_attempts'' (Some err) r;
          (dl, w) = newDeadLetter rt c topic ReasonMaxAttemptsExceeded err attempt w;
          (ev, raw) = deadLetterBody payload;
          (e, w) = deadLetter rt c ctx topic (dl\<lparr>dl_Event := ev, dl_EventRaw := raw\<rparr>) w
      in (Ret e, r, w))"

text \<open>From the attempt counter to the return, the recorder still open.\<close>

definition dispatch_body ::
    "'w runtime \<Rightarrow> 'w consumer \<Rightarrow> 'w ctx \<Rightarrow> string \<Rightarrow> bytes \<Rightarrow> metadata \<Rightarrow> logger
     \<Rightarrow> 'w deliveryRecorder \<Rightarrow> 'w world \<Rightarrow> goerr option go \<times> 'w deliveryRecorder \<times> 'w world" where
  "dispatch_body rt c ctx topic payload md lg r w =
     (let attempt = deliveryAttempt md;
          w = span_op (SpanSetAttributes [(''messaging.foi.delivery_attempt'', AInt attempt)]) w
      in if attempt > cc_MaxDeliveryAttempts (cfg_Consumer (co_cfg c)) then
           dispatch_capped rt c ctx topic payload attempt lg r w
         else
           (case Unmarshal_envelope payload of
              Inl e \<Rightarrow>
                undeserializable rt c ctx topic payload attempt ''messaging: undecodable event envelope''
                  (lg @ [(''topic'', AStr topic)]) ''unmarshalling envelope on topic '' e r w
            | Inr env \<Rightarrow>
                (let w = span_op (SpanSetAttributes
                       [(''messaging.message.id'', AStr (ev_EventID env)),
                        (''messaging.foi.event_type'', AStr (ev_EventType env)),
                        (''messaging.foi.schema_version'', AStr (ev_SchemaVersion env)),
                        (''messaging.foi.correlation_id'', AStr (ev_CorrelationID env))]) w;
                     lg_id = lg @ [(''topic'', AStr topic), (''event_id'', AStr (ev_EventID env))]
                 in case validateEnvelope env of
                      Some e \<Rightarrow>
                        undeserializable rt c ctx topic payload attempt ''messaging: invalid event envelope''
                          lg_id ''validating envelope on topic '' e r w
                    | None \<Rightarrow>
                        (case majorVersion (ev_SchemaVersion env) of
                           Inl e \<Rightarrow>
                             undeserializable rt c ctx topic payload attempt
                               ''messaging: unparseable schema version'' lg_id
                               ''parsing schema version on topic '' e r w
                         | Inr major \<Rightarrow>
                             (case lookup (co_registry c) topic (ev_EventType env) major of
                                (None, _) \<Rightarrow>
                                  (Ret None, skipped ''no_handler'' r,
                                   log_at LDebug ''messaging: no handler for event''
                                     (lg @ [(''topic'', AStr topic), (''event_type'', AStr (ev_EventType env)),
                                            (''schema_version'', AStr (ev_SchemaVersion env)),
                                            (''event_id'', AStr (ev_EventID env))]) w)
                              | (Some handler, match) \<Rightarrow>
                                  (let r = (if match = MatchTyped then setEventType (ev_EventType env) r else r);
                                       ctx = contextWithCorrelationID ctx (ev_CorrelationID env)
                                   in runWithRetry rt c ctx topic payload attempt handler env lg r w))))))"

definition dispatch ::
    "'w runtime \<Rightarrow> 'w consumer \<Rightarrow> 'w ctx \<Rightarrow> string \<Rightarrow> bytes \<Rightarrow> metadata \<Rightarrow> 'w world
     \<Rightarrow> goerr option go \<times> 'w world" where
  "dispatch rt c ctx topic payload md w =
     (let (ctx, ids, r, w) = dispatch_open rt c ctx topic md w;
          w = dispatch_received rt c topic md w;
          (res, r, w) = dispatch_body rt c ctx topic payload md (dispatch_logger c payload md ids) r w;
          (r, w) = end_delivery rt r w
      in (res, w))"

section \<open>handleUndecodable\<close>

text \<open>
  \<open>json.Marshal\<close> of the fields of a stream entry: go-redis only ever puts strings in that map, and
  for those the encoder has no error.
\<close>

definition Marshal_any :: "(string \<times> string) list \<Rightarrow> goerr + bytes" where
  "Marshal_any fs = Inr (Marshal_fields fs)"

text \<open>
  The hook \<open>Run\<close> gives the subscriber. \<open>ctx\<close> is \<open>Run\<close>'s context: detaching it from cancellation and
  bounding it by a timeout keeps its values. Reading the Go map is reading the last pair with the key.
\<close>

definition handleUndecodable ::
    "'w runtime \<Rightarrow> 'w consumer \<Rightarrow> 'w ctx \<Rightarrow> (string \<times> string) list \<Rightarrow> string \<Rightarrow> string \<Rightarrow> (string \<times> string) list
     \<Rightarrow> 'w world \<Rightarrow> goerr option \<times> 'w world" where
  "handleUndecodable rt c ctx topics stream entryID fs w =
     (case map_of (rev topics) stream of
        None \<Rightarrow> (Some (ErrorString [Lit ''no topic registered for stream '', Quoted stream]), w)
      | Some topic \<Rightarrow>
          (let w = add_point (co_inst c) Received 1 [(''topic'', topic)] w in
           case Marshal_any fs of
             Inl e \<Rightarrow> (Some (WrapError [Lit ''marshalling fields of undecodable entry '', Quoted entryID, Lit '': ''] e), w)
           | Inr raw \<Rightarrow>
               (let (dl, w) = newDeadLetter rt c topic ReasonDeserializationFailed
                      (ErrorString [Lit ''stream entry '', Quoted entryID, Lit '' could not be unmarshalled'']) 1 w
                in deadLetter rt c ctx topic (dl\<lparr>dl_EventRaw := raw\<rparr>) w)))"

end
