(* ===== verification/Run.thy ===== *)
theory Run
  imports Publisher Router Delivery
begin

text \<open>
  \<open>Consumer.Run\<close>: its critical section, the construction of what it serves with, and its teardown on
  every exit path; then the life of one consumer as interleaved steps of registrations, one \<open>Run\<close>
  and calls of \<open>Close\<close>.
\<close>

section \<open>Run\<close>

text \<open>
  What \<open>Run\<close> builds and calls: the client it opened (by number), the outcome of the constructors of
  watermill's publisher and router, watermill's router serving the added routes until the context
  is cancelled, and the closing operations. \<open>Subscriber.Close\<close> always returns nil.
\<close>

type_synonym 'w routes = "('w ctx, 'w world \<Rightarrow> goerr option go \<times> 'w world) route list"

record 'w run_env =
  re_rt :: "'w runtime"
  re_order :: "string list \<Rightarrow> string list"
  re_reader :: nat
  re_dlq :: "goerr + 'w wm_publish"
  re_router :: "goerr option"
  re_serve :: "'w routes \<Rightarrow> 'w world \<Rightarrow> goerr option \<times> 'w world"
  re_router_close :: "'w \<Rightarrow> goerr option \<times> 'w"
  re_close_client :: "nat \<Rightarrow> 'w \<Rightarrow> goerr option \<times> 'w"

text \<open>The first critical section: refuse, or take the topics and become running in one step.\<close>

definition run_begin :: "(string list \<Rightarrow> string list) \<Rightarrow> 'w consumer \<Rightarrow> (goerr + string list) \<times> 'w consumer" where
  "run_begin order c =
     (if isEmpty (co_registry c) then
        (Inl (ErrorString [Lit ''consumer: no handlers registered; register at least one before calling Run'']), c)
      else if co_running c then (Inl (ErrorString [Lit ''consumer: Run has already been called'']), c)
      else (Inr (topicList order (co_registry c)), c\<lparr>co_running := True\<rparr>))"

definition run_attach :: "nat \<Rightarrow> 'w wm_publish \<Rightarrow> 'w consumer \<Rightarrow> 'w consumer" where
  "run_attach reader pub c = c\<lparr>co_reader := Some reader, co_dlq := Some (RedisDeadLetterSink (wm_Publish pub))\<rparr>"

definition topicByStream :: "'w consumer \<Rightarrow> string list \<Rightarrow> (string \<times> string) list" where
  "topicByStream c topics = map (\<lambda>topic. (streamName c topic, topic)) topics"

definition run_subscriber :: "'w consumer \<Rightarrow> goerr + Subscriber" where
  "run_subscriber c =
     (let k = cfg_Consumer (co_cfg c)
      in NewSubscriber \<lparr>so_HasReader = True, so_Concurrency = cc_Concurrency k,
           so_ClaimInterval = cc_ClaimInterval k, so_ClaimMinIdle = cc_ClaimMinIdle k, so_BlockTime = 0,
           so_HasLogger = (tc_Logger (cfg_Telemetry (co_cfg c)) \<noteq> None), so_HasHook = True\<rparr>)"

text \<open>One route per topic, from its stream to \<open>dispatch\<close> for that topic.\<close>

definition run_routes ::
    "'w runtime \<Rightarrow> 'w consumer \<Rightarrow> string list \<Rightarrow> ('w ctx, 'w world \<Rightarrow> goerr option go \<times> 'w world) Router
     \<Rightarrow> ('w ctx, 'w world \<Rightarrow> goerr option go \<times> 'w world) Router" where
  "run_routes rt c topics router =
     fold (\<lambda>topic. AddHandler topic (streamName c topic) (\<lambda>ctx payload metadata. dispatch rt c ctx topic payload metadata))
       topics router"

definition wrap_opt :: "string \<Rightarrow> goerr option \<Rightarrow> goerr option" where
  "wrap_opt s e = map_option (WrapError [Lit s]) e"

text \<open>Serving, then every teardown step, whatever the earlier ones returned.\<close>

definition run_serve :: "'w run_env \<Rightarrow> 'w routes \<Rightarrow> 'w consumer \<Rightarrow> 'w world \<Rightarrow> goerr option \<times> 'w consumer \<times> 'w world" where
  "run_serve re routes c w =
     (let (err, w) = re_serve re routes w;
          runErr = Router_Run err;
          (closeErr, w) = out (re_router_close re) w;
          w = (case closeErr of
                 None \<Rightarrow> w
               | Some e \<Rightarrow> log_at LError ''messaging: router did not shut down cleanly''
                             [(''shutdown_timeout'', ADur (cc_ShutdownTimeout (cfg_Consumer (co_cfg c)))),
                              (''error'', AErr e)] w);
          (readerErr, c, w') = closeReader (re_close_client re) (re_reader re) c (outside w)
      in (Join [runErr, wrap_opt ''closing router: '' closeErr, None,
                wrap_opt ''closing redis client: '' readerErr], c, w\<lparr>outside := w'\<rparr>))"

text \<open>An exit before serving: the reader is closed and its error dropped.\<close>

definition run_abort :: "'w run_env \<Rightarrow> string \<Rightarrow> goerr \<Rightarrow> 'w consumer \<Rightarrow> 'w world \<Rightarrow> goerr option \<times> 'w consumer \<times> 'w world" where
  "run_abort re doing err c w =
     (let (_, c, w') = closeReader (re_close_client re) (re_reader re) c (outside w)
      in (Some (WrapError [Lit doing] err), c, w\<lparr>outside := w'\<rparr>))"

definition Run :: "'w run_env \<Rightarrow> 'w consumer \<Rightarrow> 'w world \<Rightarrow> goerr option \<times> 'w consumer \<times> 'w world" where
  "Run re c w =
     (case run_begin (re_order re) c of
        (Inl err, c) \<Rightarrow> (Some err, c, w)
      | (Inr topics, c) \<Rightarrow>
          (case re_dlq re of
             Inl err \<Rightarrow> run_abort re ''creating dead letter publisher: ''
                          (WrapError [Lit ''creating redis stream publisher: ''] err) c w
           | Inr pub \<Rightarrow>
               (let c = run_attach (re_reader re) pub c in
                case run_subscriber c of
                  Inl err \<Rightarrow> run_abort re ''creating subscriber: '' err c w
                | Inr sub \<Rightarrow>
                    (case NewRouter (re_router re) (cc_ShutdownTimeout (cfg_Consumer (co_cfg c)))
                            (tc_Logger (cfg_Telemetry (co_cfg c))) of
                       Inl err \<Rightarrow> run_abort re ''creating router: '' err c w
                     | Inr router \<Rightarrow> run_serve re (rr_routes (run_routes (re_rt re) c topics router)) c w))))"

section \<open>What Run does on every path\<close>

lemma run_subscriber_ok:
  "\<exists>s. run_subscriber c = Inr s \<and> sb_concurrency s = max 1 (cc_Concurrency (cfg_Consumer (co_cfg c)))
     \<and> sb_onUndecodable s"
  by (auto simp: run_subscriber_def NewSubscriber_def Let_def)

text \<open>\<open>closes\<close> counts the closings of the client Run opened; serving and closing the router leave it alone.\<close>

definition counts_closes :: "('w \<Rightarrow> nat) \<Rightarrow> 'w run_env \<Rightarrow> bool" where
  "counts_closes closes re \<longleftrightarrow>
     (\<forall>w. closes (snd (re_close_client re (re_reader re) w)) = Suc (closes w))
     \<and> (\<forall>rs w. closes (outside (snd (re_serve re rs w))) = closes (outside w)) \<and> (\<forall>w. closes (snd (re_router_close re w)) = closes w)"

text \<open>Serving, shutting the router down and closing the client, each without an error.\<close>

definition run_clean :: "'w run_env \<Rightarrow> 'w routes \<Rightarrow> 'w world \<Rightarrow> bool" where
  "run_clean re routes w \<longleftrightarrow>
     (let (e1, w1) = re_serve re routes w;
          (e2, w2) = re_router_close re (outside w1);
          (e3, w3) = re_close_client re (re_reader re) w2
      in e1 = None \<and> e2 = None \<and> e3 = None)"

lemma run_serve_nil: "fst (run_serve re routes d w) = None \<longleftrightarrow> run_clean re routes w"
  by (auto simp: run_serve_def run_clean_def closeReader_def Let_def out_def Join_eq_None wrap_opt_def Router_Run_def
      split: prod.splits option.splits)

text \<open>The routes are named after the topics, one each, and call \<open>dispatch\<close> with the message's parts.\<close>

definition topic_routes :: "'w runtime \<Rightarrow> 'w consumer \<Rightarrow> string list \<Rightarrow> 'w routes" where
  "topic_routes rt c topics =
     map (\<lambda>topic. \<lparr>rh_name = topic, rh_stream = cfg_StreamPrefix (co_cfg c) @ '':'' @ topic,
                    rh_handler = (\<lambda>ctx msg. dispatch rt c ctx topic (msg_Payload msg) (msg_Metadata msg))\<rparr>) topics"

lemma run_routes_eq: "rr_routes (run_routes rt c topics router) = rr_routes router @ topic_routes rt c topics"
  unfolding run_routes_def topic_routes_def
  by (induction topics arbitrary: router) (simp_all add: AddHandler_def streamName_def)

lemma run_abort_closes:
  assumes "counts_closes closes re" and "run_abort re s er d v = (e, d', v')"
  shows "e \<noteq> None \<and> d' = d\<lparr>co_reader := None, co_dlq := None\<rparr> \<and> closes (outside v') = Suc (closes (outside v))"
proof -
  have "closes (snd (re_close_client re (re_reader re) x)) = Suc (closes x)" for x
    using assms(1) by (simp add: counts_closes_def)
  from this [of "outside v"] assms(2) show ?thesis
    by (auto simp: run_abort_def closeReader_def Let_def split: prod.splits)
qed

lemma run_serve_closes:
  assumes "counts_closes closes re" and "run_serve re rs d v = (e, d', v')"
  shows "d' = d\<lparr>co_reader := None, co_dlq := None\<rparr> \<and> closes (outside v') = Suc (closes (outside v))
    \<and> (e = None \<longleftrightarrow> run_clean re rs v)"
proof -
  have cl: "closes (snd (re_close_client re (re_reader re) x)) = Suc (closes x)"
    and sv: "closes (outside (snd (re_serve re rs v))) = closes (outside v)"
    and rc: "closes (snd (re_router_close re x)) = closes x" for x rs v
    using assms(1) by (simp_all add: counts_closes_def)
  show ?thesis
    using assms(2) run_serve_nil [of re rs d v]
    by (auto simp: run_serve_def closeReader_def Let_def out_def split: prod.splits option.splits)
      (metis cl sv rc snd_conv)+
qed

text \<open>The three ways through \<open>Run\<close>: refused, aborted before serving, or served.\<close>

lemma Run_cases:
  assumes "Run re c w = (err, c', w')"
  obtains (refused) "isEmpty (co_registry c) \<or> co_running c" "err \<noteq> None" "c' = c" "w' = w"
  | (aborted) s e d where "\<not> isEmpty (co_registry c)" "\<not> co_running c" "run_abort re s e d w = (err, c', w')"
      "re_router re \<noteq> None \<or> isl (re_dlq re)"
      "d\<lparr>co_reader := None, co_dlq := None\<rparr> = c\<lparr>co_running := True, co_reader := None, co_dlq := None\<rparr>"
  | (served) pub where "\<not> isEmpty (co_registry c)" "\<not> co_running c" "re_router re = None"
      "run_serve re (topic_routes (re_rt re) (run_attach (re_reader re) pub (c\<lparr>co_running := True\<rparr>))
         (topicList (re_order re) (co_registry c))) (run_attach (re_reader re) pub (c\<lparr>co_running := True\<rparr>)) w = (err, c', w')"
      "re_dlq re = Inr pub"
proof (cases "isEmpty (co_registry c) \<or> co_running c")
  case True
  with assms show thesis by (intro refused) (auto simp: Run_def run_begin_def split: if_splits)
next
  case False
  let ?c = "c\<lparr>co_running := True\<rparr>"
  have b: "run_begin (re_order re) c = (Inr (topicList (re_order re) (co_registry c)), ?c)"
    using False by (simp add: run_begin_def)
  show thesis
  proof (cases "re_dlq re")
    case (Inl e)
    with assms False b show thesis by (intro aborted) (auto simp: Run_def)
  next
    case (Inr pub)
    let ?d = "run_attach (re_reader re) pub ?c"
    obtain sub where sub: "run_subscriber ?d = Inr sub" using run_subscriber_ok by blast
    show thesis
    proof (cases "re_router re")
      case (Some e)
      with assms b Inr sub have r: "run_abort re ''creating router: '' (WrapError [Lit ''creating router: ''] e) ?d w = (err, c', w')"
        by (simp add: Run_def NewRouter_def Let_def)
      show thesis by (rule aborted [OF _ _ r]) (use False Some in \<open>auto simp: run_attach_def\<close>)
    next
      case None
      with assms b Inr sub
      have "run_serve re (topic_routes (re_rt re) ?d (topicList (re_order re) (co_registry c))) ?d w = (err, c', w')"
        by (simp add: Run_def NewRouter_def run_routes_eq Let_def)
      with False None Inr show thesis by (intro served) auto
    qed
  qed
qed

text \<open>
  C12. Run releases what it opened, once, on every path. A call that gets past its critical section
  closes the Redis client exactly once, whether the dead-letter publisher, the router or the
  serving itself failed or not, and leaves no reader and no sink behind; a refused call changes
  nothing; and the result is nil exactly when the call was not refused, both constructors succeeded,
  and serving the registered topics, the router's shutdown and the client's close all returned nil.
\<close>

theorem Run_releases_client_once:
  assumes "counts_closes closes re" and "Run re c w = (err, c', w')"
  shows "(if isEmpty (co_registry c) \<or> co_running c
          then c' = c \<and> w' = w
          else closes (outside w') = Suc (closes (outside w))
             \<and> c' = c\<lparr>co_running := True, co_reader := None, co_dlq := None\<rparr>)
    \<and> (err = None \<longleftrightarrow> \<not> isEmpty (co_registry c) \<and> \<not> co_running c \<and> re_router re = None
          \<and> (\<exists>pub. re_dlq re = Inr pub
               \<and> run_clean re (topic_routes (re_rt re) (run_attach (re_reader re) pub (c\<lparr>co_running := True\<rparr>))
                                 (topicList (re_order re) (co_registry c))) w))"
  using assms(2)
proof (cases rule: Run_cases)
  case refused
  then show ?thesis by auto
next
  case (aborted s e d)
  from run_abort_closes [OF assms(1) aborted(3)] aborted show ?thesis by (auto simp: isl_def)
next
  case (served pub)
  from run_serve_closes [OF assms(1) served(4)] served show ?thesis by (simp add: run_attach_def)
qed

definition sample_env :: "nat run_env" where
  "sample_env = \<lparr>re_rt = \<lparr>os_now = (\<lambda>w. (zero_time, w)), os_rand = (\<lambda>n w. (0, w)), os_timer = (\<lambda>ctx d w. (True, w)),
       os_ctx_err = (\<lambda>ctx w. (False, w)), os_uuid = (\<lambda>w. (Inr ''id'', w)), otel_extract = (\<lambda>t md. t),
       otel_inject = (\<lambda>t md. md), otel_start = (\<lambda>t w. ((t, ''trace'', ''span''), w))\<rparr>,
     re_order = rev, re_reader = 0, re_dlq = Inr (\<lambda>ctx topic msg w. (None, w)),
     re_router = None, re_serve = (\<lambda>ts w. (None, w)), re_router_close = (\<lambda>w. (Some (OpaqueError ''router close timeout''), w)),
     re_close_client = (\<lambda>n w. (None, Suc w))\<rparr>"

definition registered_consumer :: "nat consumer" where
  "registered_consumer = \<lparr>co_cfg = minimal_consumer,
     co_registry = registerAll [Typed ''documents'' ''document.created'' 1 nop_handler], co_running = False,
     co_dlq = None, co_reader = None, co_inst = \<lparr>inst_created = map fst instrument_specs, inst_live = True\<rparr>\<rparr>"

theorem Run_releases_client_once_witness:
  "let (err, c', w') = Run sample_env registered_consumer (start_world 0)
   in err \<noteq> None \<and> outside w' = 1 \<and> co_running c' \<and> co_reader c' = None"
proof -
  obtain err c' w' where r: "Run sample_env registered_consumer (start_world 0) = (err, c', w')"
    by (metis prod_cases3)
  have o: "outside (start_world (0 :: nat)) = 0" by (simp add: start_world_def)
  have "counts_closes id sample_env" by (simp add: counts_closes_def sample_env_def)
  moreover have "\<not> isEmpty (co_registry registered_consumer)" "\<not> co_running registered_consumer"
    "\<not> run_clean sample_env routes (start_world 0)" for routes
    by (simp_all add: registered_consumer_def registerAll_def newRegistry_def addTyped_def isEmpty_def Let_def
        run_clean_def sample_env_def)
  ultimately show ?thesis
    using Run_releases_client_once [OF _ r, of id] by (auto simp: r o)
qed

section \<open>The life of a consumer\<close>

text \<open>
  Where the one successful \<open>Run\<close> call of a consumer is, with the topics it subscribes to. The outside
  state is the list of clients closed so far, so \<open>Close\<close> and \<open>closeReader\<close> are run with
  \<open>note_close\<close> for \<open>StreamReader.Close\<close>.
\<close>

datatype run_pc = NotRun | Started "string list" | Attached "string list" nat | Serving "string list" nat | Returned

type_synonym clients = "nat list"

definition note_close :: "nat \<Rightarrow> clients \<Rightarrow> goerr option \<times> clients" where
  "note_close n cs = (None, cs @ [n])"

record life =
  lf_consumer :: "clients consumer"
  lf_run :: run_pc
  lf_closed :: clients

definition teardown :: "nat \<Rightarrow> life \<Rightarrow> life" where
  "teardown n l =
     (case closeReader note_close n (lf_consumer l) (lf_closed l) of
        (_, c, cs) \<Rightarrow> \<lparr>lf_consumer = c, lf_run = Returned, lf_closed = cs\<rparr>)"

text \<open>
  The atomic steps of the goroutines that share a consumer: registrations, the critical sections of
  \<open>Run\<close> (begin, attach, the exits), and \<open>Close\<close> at any moment.
\<close>

inductive life_step :: "life \<Rightarrow> life \<Rightarrow> bool" where
  register_typed: "register_typed def fn (lf_consumer l) = (e, c) \<Longrightarrow> life_step l (l\<lparr>lf_consumer := c\<rparr>)"
| register_raw: "RegisterRawHandler sel h (lf_consumer l) = (e, c) \<Longrightarrow> life_step l (l\<lparr>lf_consumer := c\<rparr>)"
| started: "run_begin order (lf_consumer l) = (Inr topics, c) \<Longrightarrow> (\<And>xs. mset (order xs) = mset xs) \<Longrightarrow>
    life_step l (l\<lparr>lf_consumer := c, lf_run := Started topics\<rparr>)"
| refused: "run_begin order (lf_consumer l) = (Inl e, c) \<Longrightarrow> life_step l (l\<lparr>lf_consumer := c\<rparr>)"
| no_publisher: "lf_run l = Started topics \<Longrightarrow> life_step l (teardown n l)"
| attach: "lf_run l = Started topics \<Longrightarrow>
    life_step l (l\<lparr>lf_consumer := run_attach n pub (lf_consumer l), lf_run := Attached topics n\<rparr>)"
| no_router: "lf_run l = Attached topics n \<Longrightarrow> life_step l (teardown n l)"
| serve: "lf_run l = Attached topics n \<Longrightarrow> life_step l (l\<lparr>lf_run := Serving topics n\<rparr>)"
| drained: "lf_run l = Serving topics n \<Longrightarrow> life_step l (teardown n l)"
| close: "Close note_close (lf_consumer l) (lf_closed l) = (e, c, cs) \<Longrightarrow>
    life_step l (l\<lparr>lf_consumer := c, lf_closed := cs\<rparr>)"

inductive_cases life_stepE: "life_step l l'"

definition life_init :: "life \<Rightarrow> bool" where
  "life_init l \<longleftrightarrow> lf_run l = NotRun \<and> lf_closed l = [] \<and> co_registry (lf_consumer l) = newRegistry
     \<and> \<not> co_running (lf_consumer l) \<and> co_reader (lf_consumer l) = None \<and> co_dlq (lf_consumer l) = None"

definition subscribes_all :: "life \<Rightarrow> string list \<Rightarrow> bool" where
  "subscribes_all l topics \<longleftrightarrow> set topics = set (reg_topics (co_registry (lf_consumer l)))"

definition life_inv :: "life \<Rightarrow> bool" where
  "life_inv l \<longleftrightarrow> reg_wf (co_registry (lf_consumer l)) \<and> (co_running (lf_consumer l) \<longleftrightarrow> lf_run l \<noteq> NotRun)
     \<and> (case lf_run l of
          NotRun \<Rightarrow> lf_closed l = [] \<and> co_reader (lf_consumer l) = None \<and> co_dlq (lf_consumer l) = None
        | Started topics \<Rightarrow> lf_closed l = [] \<and> subscribes_all l topics
            \<and> co_reader (lf_consumer l) = None \<and> co_dlq (lf_consumer l) = None
        | Attached topics n \<Rightarrow> lf_closed l = [] \<and> subscribes_all l topics
            \<and> co_reader (lf_consumer l) = Some n \<and> co_dlq (lf_consumer l) \<noteq> None
        | Serving topics n \<Rightarrow> lf_closed l = [] \<and> subscribes_all l topics
            \<and> co_reader (lf_consumer l) = Some n \<and> co_dlq (lf_consumer l) \<noteq> None
        | Returned \<Rightarrow> length (lf_closed l) = 1 \<and> co_reader (lf_consumer l) = None \<and> co_dlq (lf_consumer l) = None)"

lemma add_keeps_wf:
  assumes "reg_wf r"
  shows "addTyped t e m f r = (err, r') \<Longrightarrow> reg_wf r'" and "addRaw t f r = (err, r') \<Longrightarrow> reg_wf r'"
proof -
  show "reg_wf r'" if "addTyped t e m f r = (err, r')"
    using that assms by (cases err) (blast dest: addTyped_ok routes.typed_refused)+
  show "reg_wf r'" if "addRaw t f r = (err, r')"
    using that assms by (cases err) (blast dest: addRaw_ok routes.raw_refused)+
qed

lemma register_outcomes:
  assumes "register_typed def fn c = (e, c') \<or> RegisterRawHandler sel h c = (e, c')" and "reg_wf (co_registry c)"
  shows "c' = c \<or> \<not> co_running c \<and> (\<exists>r. c' = c\<lparr>co_registry := r\<rparr> \<and> reg_wf r)"
  using assms(1)
proof
  assume "register_typed def fn c = (e, c')"
  then show ?thesis
    using add_keeps_wf(1) [OF assms(2)]
    by (auto simp: register_typed_def split: option.splits sum.splits if_splits prod.splits)
next
  assume "RegisterRawHandler sel h c = (e, c')"
  then show ?thesis
    using add_keeps_wf(2) [OF assms(2)]
    by (auto simp: RegisterRawHandler_def split: if_splits prod.splits)
qed

lemma register_keeps_life:
  assumes "register_typed def fn (lf_consumer l) = (e, c) \<or> RegisterRawHandler sel h (lf_consumer l) = (e, c)"
    and "life_inv l"
  shows "life_inv (l\<lparr>lf_consumer := c\<rparr>)"
proof -
  have "reg_wf (co_registry (lf_consumer l))" using assms(2) by (simp add: life_inv_def)
  from register_outcomes [OF assms(1) this] show ?thesis
    using assms(2) by (auto simp: life_inv_def split: run_pc.splits)
qed

lemma teardown_simps:
  "teardown n l = \<lparr>lf_consumer = (lf_consumer l)\<lparr>co_reader := None, co_dlq := None\<rparr>, lf_run = Returned,
     lf_closed = lf_closed l @ [n]\<rparr>"
  by (simp add: teardown_def closeReader_def note_close_def)

lemma order_set: "(\<And>xs. mset (order xs) = mset xs) \<Longrightarrow> set (order xs) = set xs"
  by (metis set_mset_mset)

interpretation consumer_life: inductive_invariant life_init life_step life_inv
proof
  show "life_inv l" if "life_init l" for l
    using that by (auto simp: life_init_def life_inv_def routes.invar_empty)
  show "life_inv l'" if inv: "life_inv l" and "life_step l l'" for l l'
    using that(2)
  proof (cases rule: life_step.cases)
    case (register_typed def fn e c)
    then show ?thesis using register_keeps_life [OF _ inv] by blast
  next
    case (register_raw sel h e c)
    then show ?thesis using register_keeps_life [OF _ inv] by blast
  next
    case (started order topics c)
    then show ?thesis
      using inv order_set [OF started(3)]
      by (auto simp: run_begin_def life_inv_def subscribes_all_def topicList_def split: if_splits run_pc.splits)
  qed (use inv in \<open>auto simp: run_begin_def life_inv_def subscribes_all_def teardown_simps run_attach_def Close_def
         split: if_splits run_pc.splits option.splits\<close>)
qed

text \<open>
  C13. No registered handler is ever silently left out, and the client is never closed under a running
  \<open>Run\<close> nor twice. In every interleaving of registrations, \<open>Run\<close> and \<open>Close\<close>: from the moment \<open>Run\<close> has
  left its critical section until it returns, the topics it subscribes to are exactly those of the
  registered handlers, and no client has been closed, however often \<open>Close\<close> is called; after it
  returned, its client has been closed exactly once and neither a reader nor a sink is left.
\<close>

theorem consumer_life_safe:
  assumes "reach life_init life_step l"
  shows "(case lf_run l of
            NotRun \<Rightarrow> lf_closed l = []
          | Started topics \<Rightarrow> lf_closed l = [] \<and> set topics = set (reg_topics (co_registry (lf_consumer l)))
          | Attached topics n \<Rightarrow> lf_closed l = [] \<and> set topics = set (reg_topics (co_registry (lf_consumer l)))
          | Serving topics n \<Rightarrow> lf_closed l = [] \<and> set topics = set (reg_topics (co_registry (lf_consumer l)))
              \<and> co_reader (lf_consumer l) = Some n \<and> co_dlq (lf_consumer l) \<noteq> None
          | Returned \<Rightarrow> length (lf_closed l) = 1 \<and> co_reader (lf_consumer l) = None \<and> co_dlq (lf_consumer l) = None)"
  using consumer_life.reach_inv [OF assms] by (auto simp: life_inv_def subscribes_all_def split: run_pc.splits)

lemma sample_def_ok: "validateEventDef sample_def = None" "majorVersion (def_Version sample_def) = Inr 1"
proof -
  have "segment ''a''" "segment ''b''" by (simp_all add: segment_def lower_def)
  then have "event_type_ok (''a'' @ ''.'' @ ''b'')" unfolding event_type_ok_def by blast
  moreover have n: "number ''1''" "number ''0''" by (simp_all add: number_def is_digit_def)
  then have "version_ok (''1'' @ ''.'' @ ''0'' @ ''.'' @ ''0'')" unfolding version_ok_def by blast
  ultimately show "validateEventDef sample_def = None"
    by (simp add: validateEventDef_None sample_def_def)
  show "majorVersion (def_Version sample_def) = Inr 1"
    using majorVersion_number [OF n(1), of "''0.0''"] by (simp add: decimal_def digit_value_def sample_def_def)
qed

definition fresh_life :: life where
  "fresh_life = \<lparr>lf_consumer = \<lparr>co_cfg = minimal_consumer, co_registry = newRegistry, co_running = False,
     co_dlq = None, co_reader = None, co_inst = \<lparr>inst_created = map fst instrument_specs, inst_live = True\<rparr>\<rparr>,
     lf_run = NotRun, lf_closed = []\<rparr>"

definition serving_life :: life where
  "serving_life = (let c = lf_consumer fresh_life;
       c = c\<lparr>co_registry := snd (addTyped ''t'' ''a.b'' 1 nop_handler newRegistry), co_running := True\<rparr>
     in \<lparr>lf_consumer = run_attach 7 (\<lambda>ctx topic msg w. (None, w)) c, lf_run = Serving [''t''] 7, lf_closed = []\<rparr>)"

lemma serving_life_reach: "reach life_init life_step serving_life"
proof -
  let ?l0 = fresh_life
  let ?l1 = "?l0\<lparr>lf_consumer := (lf_consumer ?l0)
      \<lparr>co_registry := snd (addTyped ''t'' ''a.b'' 1 nop_handler newRegistry)\<rparr>\<rparr>"
  let ?l2 = "?l1\<lparr>lf_consumer := (lf_consumer ?l1)\<lparr>co_running := True\<rparr>, lf_run := Started [''t'']\<rparr>"
  let ?l3 = "?l2\<lparr>lf_consumer := run_attach 7 (\<lambda>ctx topic msg w. (None, w)) (lf_consumer ?l2),
      lf_run := Attached [''t''] 7\<rparr>"
  have next_step: "reach life_init life_step m" if "reach life_init life_step l" "life_step l m" for l m
    using that by (rule reach_step [where step = life_step])
  have 0: "reach life_init life_step ?l0"
    by (rule reach_init [where init = life_init]) (simp add: life_init_def fresh_life_def)
  have "life_step ?l0 ?l1"
    using life_step.register_typed [OF surjective_pairing, where def = sample_def and fn = nop_handler and l = ?l0]
      sample_def_ok
    by (simp add: register_typed_def fresh_life_def split_beta) (simp add: sample_def_def)
  with 0 have 1: "reach life_init life_step ?l1" by (rule next_step)
  have "run_begin id (lf_consumer ?l1) = (Inr [''t''], (lf_consumer ?l1)\<lparr>co_running := True\<rparr>)"
    by (simp add: run_begin_def isEmpty_def topicList_def fresh_life_def addTyped_def newRegistry_def Let_def)
  from next_step [OF 1 life_step.started [OF this]]
  have 2: "reach life_init life_step ?l2" by (simp add: fresh_life_def)
  from next_step [OF 2 life_step.attach [where topics = "[''t'']" and n = 7 and pub = "\<lambda>ctx topic msg w. (None, w)"]]
  have 3: "reach life_init life_step ?l3" by simp
  from next_step [OF 3 life_step.serve [where topics = "[''t'']" and n = 7]] show ?thesis
    by (simp add: serving_life_def fresh_life_def run_attach_def Let_def)
qed

theorem consumer_life_safe_witness:
  "lf_run serving_life = Serving [''t''] 7 \<and> set [''t''] = set (reg_topics (co_registry (lf_consumer serving_life)))"
  using consumer_life_safe [OF serving_life_reach] by (simp add: serving_life_def Let_def)

end
