(* ===== verification/Delivery_Props.thy ===== *)
theory Delivery_Props
  imports Delivery
begin

text \<open>
  What one delivery does, whatever the handler, the sink and the runtime do: how it is accounted
  for in the metrics, when it is acknowledged, when the handler runs and on what, how often it is
  retried and how long it sleeps.
\<close>

section \<open>Cases of the retry loop\<close>

definition retry_upper :: "'w consumer \<Rightarrow> 'w deliveryRecorder \<Rightarrow> int \<Rightarrow> int" where
  "retry_upper c r i =
     (case dr_probe r of
        Some p \<Rightarrow> if NoBackoff p then 0 else backoffUpperBound (cfg_Retry (co_cfg c)) i
      | None \<Rightarrow> backoffUpperBound (cfg_Retry (co_cfg c)) i)"

text \<open>The guard of \<open>sleepWithJitter\<close> keeps \<open>rand.Int64N\<close> away from the arguments it panics on.\<close>

lemma sleepWithJitter_guarded:
  "sleepWithJitter rt ctx upper w =
     (if upper \<le> 0 then (let (e, w) = out (os_ctx_err rt ctx) w in (Ret (\<not> e), w))
      else (let (d, w) = out (os_rand rt upper) w;
                (fired, w) = out (os_timer rt ctx d) (w\<lparr>sleeps := sleeps w @ [d]\<rparr>)
            in (Ret fired, w)))"
  by (simp add: sleepWithJitter_def Int64N_def Let_def split_beta)

lemma sleepWithJitter_Ret: "\<exists>woke. fst (sleepWithJitter rt ctx upper w) = Ret woke"
  by (simp add: sleepWithJitter_guarded Let_def split_beta)

abbreviation maxRetries :: "'w consumer \<Rightarrow> int" where
  "maxRetries c \<equiv> rt_MaxImmediateRetries (cfg_Retry (co_cfg c))"

lemma retry_loop_cases:
  assumes "retry_loop rt c ctx topic payload attempt handler env lg i r w = (res, r', w')"
  obtains
    (panic) "out (handler ctx env) w = (Panic, w')" "res = Panic" "r' = r"
  | (ok) "out (handler ctx env) w = (Ret None, w')" "res = Ret None" "r' = processed r"
  | (discard) e w1 where "out (handler ctx env) w = (Ret (Some e), w1)" "IsDiscard (Some e)"
      "res = Ret None" "r' = skipped ''discard'' r"
      "w' = log_at LWarn ''messaging: handler discarded event'' (lg @ [(''error'', AErr e)]) w1"
  | (permanent) e w1 dl w3 err where "out (handler ctx env) w = (Ret (Some e), w1)" "IsPermanent (Some e)"
      "newDeadLetter rt c topic ReasonPermanent e attempt
         (log_at LError ''messaging: handler returned a permanent error'' (lg @ [(''error'', AErr e)]) w1)
       = (dl, w3)"
      "deadLetter rt c ctx topic (dl\<lparr>dl_Event := fst (deadLetterBody payload),
         dl_EventRaw := snd (deadLetterBody payload)\<rparr>) w3 = (err, w')"
      "res = Ret err" "r' = failed ''permanent'' (Some e) r"
  | (exhausted) e w1 where "out (handler ctx env) w = (Ret (Some e), w1)" "IsRetryable (Some e)"
      "maxRetries c \<le> i" "res = Ret (Some e)" "r' = failed ''retryable'' (Some e) r"
      "w' = log_at LError ''messaging: handler returned error, immediate retries exhausted''
               (lg @ [(''immediate_attempts'', AInt (wrap64 (i + 1))), (''error'', AErr e)]) w1"
  | (abandoned) e w1 where "out (handler ctx env) w = (Ret (Some e), w1)" "IsRetryable (Some e)"
      "i < maxRetries c" "res = Ret (Some e)" "r' = failed ''retryable'' (Some e) r"
      "sleepWithJitter rt ctx (retry_upper c r i)
         (record_retry (i + 1) e r (log_at LDebug ''messaging: retrying handler''
            (lg @ [(''immediate_attempt'', AInt (i + 1)), (''error'', AErr e)]) w1)) = (Ret False, w')"
  | (again) e w1 w4 where "out (handler ctx env) w = (Ret (Some e), w1)" "IsRetryable (Some e)"
      "i < maxRetries c"
      "sleepWithJitter rt ctx (retry_upper c r i)
         (record_retry (i + 1) e r (log_at LDebug ''messaging: retrying handler''
            (lg @ [(''immediate_attempt'', AInt (i + 1)), (''error'', AErr e)]) w1)) = (Ret True, w4)"
      "retry_loop rt c ctx topic payload attempt handler env lg (i + 1) r w4 = (res, r', w')"
proof -
  obtain hres w1 where h: "out (handler ctx env) w = (hres, w1)" by fastforce
  note step = assms [unfolded retry_loop.simps [of _ _ _ _ _ _ _ _ _ i] h prod.case]
  consider "hres = Panic" | "hres = Ret None" | (err) e where "hres = Ret (Some e)"
    by (cases hres) (auto intro: option.exhaust)
  then show thesis
  proof cases
    case 1
    with step h show thesis by (intro panic) simp_all
  next
    case 2
    with step h show thesis by (intro ok) simp_all
  next
    case err
    note hd = h [unfolded err]
    note step = step [unfolded err go.case option.case]
    let ?dl = "newDeadLetter rt c topic ReasonPermanent e attempt
      (log_at LError ''messaging: handler returned a permanent error'' (lg @ [(''error'', AErr e)]) w1)"
    let ?letter = "deadLetter rt c ctx topic ((fst ?dl)\<lparr>dl_Event := fst (deadLetterBody payload),
      dl_EventRaw := snd (deadLetterBody payload)\<rparr>) (snd ?dl)"
    let ?slept = "sleepWithJitter rt ctx (retry_upper c r i)
      (record_retry (i + 1) e r (log_at LDebug ''messaging: retrying handler''
        (lg @ [(''immediate_attempt'', AInt (i + 1)), (''error'', AErr e)]) w1))"
    consider "IsDiscard (Some e)" | (perm) "IsPermanent (Some e)" "\<not> IsDiscard (Some e)"
      | (retry) "IsRetryable (Some e)" "\<not> IsDiscard (Some e)" "\<not> IsPermanent (Some e)"
      using IsRetryable_iff [of "Some e"] by auto
    then show thesis
    proof cases
      case 1
      with step show thesis by (intro discard [OF hd 1]) auto
    next
      case perm
      with step have "res = Ret (fst ?letter)" "r' = failed ''permanent'' (Some e) r" "w' = snd ?letter"
        by (auto simp: Let_def split_beta)
      then show thesis by (intro permanent [OF hd perm(1)]) simp_all
    next
      case retry
      obtain woke where "fst ?slept = Ret woke" using sleepWithJitter_Ret by blast
      then consider "maxRetries c \<le> i" | "i < maxRetries c" "fst ?slept = Ret True" | "i < maxRetries c" "fst ?slept = Ret False"
        by (cases woke) force+
      then show thesis
      proof cases
        case 1
        with step retry show thesis by (intro exhausted [OF hd retry(1) 1]) auto
      next
        case 2
        then obtain w4 where s: "?slept = (Ret True, w4)" by (cases ?slept) auto
        with step retry 2(1) show thesis by (intro again [OF hd retry(1) 2(1) s]) (auto simp: Let_def retry_upper_def [symmetric])
      next
        case 3
        then obtain w4 where s: "?slept = (Ret False, w4)" by (cases ?slept) auto
        with step retry 3(1) show thesis by (intro abandoned [OF hd retry(1) 3(1)]) (auto simp: Let_def retry_upper_def [symmetric])
      qed
    qed
  qed
qed

section \<open>What the pieces leave alone\<close>

lemma newDeadLetter_frame:
  assumes "newDeadLetter rt c topic reason cause attempt w = (dl, w')"
  shows "metrics w' = metrics w" "logs w' = logs w" "span_ops w' = span_ops w" "sleeps w' = sleeps w"
    "probe_out w' = probe_out w"
    "dl_Reason dl = reason" "dl_Error dl = Error cause" "dl_DeliveryAttempts dl = attempt"
    "dl_OriginalTopic dl = topic" "dl_Event dl = []" "dl_EventRaw dl = []"
    "dl_ConsumerGroup dl = cc_Group (cfg_Consumer (co_cfg c))"
    "dl_ConsumerName dl = cc_ConsumerName (cfg_Consumer (co_cfg c))"
  using assms by (auto simp: newDeadLetter_def out_def split: prod.splits)

definition dlq_attrs :: "'w consumer \<Rightarrow> string \<Rightarrow> string \<Rightarrow> attrs" where
  "dlq_attrs c topic reason =
     consumeAttrs topic (cc_Group (cfg_Consumer (co_cfg c))) [] [(''reason'', reason)]"

text \<open>
  The contract of \<open>deadLetter\<close>: it returns nil exactly when a sink exists, the document marshals
  and the sink accepted the body; that, and nothing else, counts one \<open>messaging.dlq\<close>.
\<close>

lemma deadLetter_None:
  assumes "deadLetter rt c ctx topic dl w = (None, w')"
  obtains sink body where "sink_for c ctx = Some sink" "Marshal_dead_letter dl = Inr body"
    "publish_sink rt sink (ctx_values.truncate ctx) (dlqStream c topic) body (outside w)
       = (None, outside w')"
    "metrics w' = metrics w @ (if inst_live (co_inst c)
       then [\<lparr>pt_instrument = Dlq, pt_value = 1, pt_attrs = dlq_attrs c topic (dl_Reason dl)\<rparr>] else [])"
proof -
  obtain sink body where s: "sink_for c ctx = Some sink" "Marshal_dead_letter dl = Inr body"
    using assms by (auto simp: deadLetter_def Let_def split: option.splits sum.splits)
  obtain err w1 where p: "publish_sink rt sink (ctx_values.truncate ctx) (dlqStream c topic) body (outside w) = (err, w1)"
    by fastforce
  show thesis
    using assms s p
    by (intro that [OF s]) (auto simp: deadLetter_def Let_def out_def dlq_attrs_def split: option.splits)
qed

lemma deadLetter_frame:
  assumes "deadLetter rt c ctx topic dl w = (err, w')"
  shows "sleeps w' = sleeps w \<and> probe_out w' = probe_out w \<and> span_ops w' = span_ops w"
  using assms by (auto simp: deadLetter_def Let_def out_def split: option.splits sum.splits prod.splits)

lemma deadLetter_metrics:
  assumes "deadLetter rt c ctx topic dl w = (err, w')" and "inst_live (co_inst c)"
  shows "\<exists>ps. metrics w' = metrics w @ ps \<and> pt_instrument ` set ps \<subseteq> {Dlq, DlqPublishFailures}
    \<and> count_of Dlq ps = (if err = None then 1 else 0)"
  using assms by (auto simp: deadLetter_def Let_def out_def split: option.splits sum.splits prod.splits)

lemma sleepWithJitter_frame:
  assumes "sleepWithJitter rt ctx upper w = (woke, w')"
  shows "metrics w' = metrics w \<and> logs w' = logs w \<and> span_ops w' = span_ops w \<and> probe_out w' = probe_out w"
  using assms by (auto simp: sleepWithJitter_guarded Let_def out_def split: if_splits prod.splits)

lemma record_retry_frame [simp]:
  "outside (record_retry n e r w) = outside w" "logs (record_retry n e r w) = logs w"
  "sleeps (record_retry n e r w) = sleeps w" "probe_out (record_retry n e r w) = probe_out w"
  "metrics (record_retry n e r w) = metrics w @
     (if inst_live (dr_inst r) then [\<lparr>pt_instrument = Retries, pt_value = 1,
        pt_attrs = consumeAttrs (dr_topic r) (dr_group r) (dr_eventType r) []\<rparr>] else [])"
  by (simp_all add: record_retry_def Let_def)

text \<open>Two states of the same recorder: the outcome may differ, the delivery does not.\<close>

definition same_delivery :: "'w deliveryRecorder \<Rightarrow> 'w deliveryRecorder \<Rightarrow> bool" where
  "same_delivery r r' \<longleftrightarrow> dr_inst r' = dr_inst r \<and> dr_topic r' = dr_topic r \<and> dr_group r' = dr_group r
     \<and> dr_start r' = dr_start r \<and> dr_ended r' = dr_ended r \<and> dr_probe r' = dr_probe r"

lemma same_delivery_simps [simp]:
  "same_delivery r r" "same_delivery r (processed r)" "same_delivery r (failed k e r)"
  "same_delivery r (skipped k r)" "same_delivery r (setEventType t r)"
  by (simp_all add: same_delivery_def step_defs)

lemma same_delivery_trans: "same_delivery r s \<Longrightarrow> same_delivery s t \<Longrightarrow> same_delivery r t"
  by (simp add: same_delivery_def)

lemma dr_kind_simps [simp]:
  "dr_kind (processed r) = OutcomeProcessed" "dr_kind (failed k e r) = OutcomeFailed"
  "dr_kind (skipped k r) = OutcomeSkipped" "dr_kind (setEventType t r) = dr_kind r"
  by (simp_all add: step_defs)

section \<open>How a delivery is settled\<close>

text \<open>
  The relation between the result of a delivery, the outcome stated in the recorder and the metric
  points issued on the way. A nil result means processed, skipped or accepted by the dead-letter
  sink; an error means failed and not dead-lettered; a panic states nothing.
\<close>

definition settles ::
    "goerr option go \<Rightarrow> 'w deliveryRecorder \<Rightarrow> 'w deliveryRecorder \<Rightarrow> point list \<Rightarrow> bool" where
  "settles res r r' ps \<longleftrightarrow> same_delivery r r'
     \<and> pt_instrument ` set ps \<subseteq> {Retries, Dlq, DlqPublishFailures}
     \<and> (case res of
          Panic \<Rightarrow> dr_kind r' = dr_kind r \<and> count_of Dlq ps = 0
        | Ret None \<Rightarrow> (dr_kind r' = OutcomeProcessed \<or> dr_kind r' = OutcomeSkipped) \<and> count_of Dlq ps = 0
                      \<or> dr_kind r' = OutcomeFailed \<and> count_of Dlq ps = 1
        | Ret (Some e) \<Rightarrow> dr_kind r' = OutcomeFailed \<and> count_of Dlq ps = 0)"

lemma settles_retry:
  "settles res r r' ps \<Longrightarrow> pt_instrument p = Retries \<Longrightarrow> settles res r r' (p # ps)"
  by (auto simp: settles_def split: go.splits option.splits)

lemma settles_deadLetter:
  assumes "deadLetter rt c ctx topic dl w = (err, w')" and "inst_live (co_inst c)"
    and "same_delivery r r'" and "dr_kind r' = OutcomeFailed"
  shows "\<exists>ps. metrics w' = metrics w @ ps \<and> settles (Ret err) r r' ps \<and> count_of Retries ps = 0"
proof -
  obtain ps where ps: "metrics w' = metrics w @ ps" "pt_instrument ` set ps \<subseteq> {Dlq, DlqPublishFailures}"
      "count_of Dlq ps = (if err = None then 1 else 0)"
    using deadLetter_metrics [OF assms(1,2)] by blast
  have "count_of Retries ps = 0"
    using ps(2) by (auto simp: count_of_def filter_empty_conv)
  with ps assms(3,4) show ?thesis
    by (intro exI [of _ ps]) (auto simp: settles_def split: option.splits)
qed

lemma retry_loop_settles:
  assumes "retry_loop rt c ctx topic payload attempt handler env lg i r w = (res, r', w')"
    and "inst_live (co_inst c)" and "dr_inst r = co_inst c"
  shows "\<exists>ps. metrics w' = metrics w @ ps \<and> settles res r r' ps
    \<and> count_of Retries ps \<le> nat (maxRetries c - i)"
  using assms(1)
proof (induction "nat (maxRetries c - i)" arbitrary: i w rule: less_induct)
  case less
  from less.prems show ?case
  proof (cases rule: retry_loop_cases)
    case (permanent e w1 dl w3 err)
    have "metrics w3 = metrics w"
      using newDeadLetter_frame(1) [OF permanent(3)] out_frame [OF permanent(1)] by simp
    with settles_deadLetter [OF permanent(4) assms(2), of r r'] permanent show ?thesis by auto
  next
    case (abandoned e w1)
    then show ?thesis
      using out_frame [OF abandoned(1)] sleepWithJitter_frame [OF abandoned(6)] assms(2,3)
      by (auto simp: settles_def)
  next
    case (again e w1 w4)
    from less.hyps [OF _ again(5)] again(3) obtain ps where
      "metrics w' = metrics w4 @ ps" "settles res r r' ps" "count_of Retries ps \<le> nat (maxRetries c - (i + 1))"
      by auto
    moreover obtain p where "metrics w4 = metrics w @ [p]" "pt_instrument p = Retries"
      using out_frame [OF again(1)] sleepWithJitter_frame [OF again(4)] assms(2,3) by auto
    ultimately show ?thesis
      using again(3) by (intro exI [of _ "p # ps"]) (auto intro: settles_retry)
  qed (auto simp: settles_def dest!: out_frame)
qed

lemma undeserializable_settles:
  assumes "undeserializable rt c ctx topic payload attempt msg lg doing e r w = (res, r', w')"
    and "inst_live (co_inst c)"
  shows "\<exists>ps. metrics w' = metrics w @ ps \<and> settles res r r' ps \<and> count_of Retries ps = 0"
proof -
  obtain dl w1 err where dl: "newDeadLetter rt c topic ReasonDeserializationFailed
      (WrapError [Lit doing, Quoted topic, Lit '': ''] e) attempt
      (log_at LError msg (lg @ [(''error'', AErr e)]) w) = (dl, w1)"
    and d: "deadLetter rt c ctx topic (dl\<lparr>dl_EventRaw := payload\<rparr>) w1 = (err, w')"
    and r: "res = Ret err" "r' = failed ''deserialization'' (Some e) r"
    using assms(1) by (auto simp: undeserializable_def Let_def split: prod.splits)
  from settles_deadLetter [OF d assms(2), of r r'] newDeadLetter_frame(1) [OF dl] r show ?thesis by auto
qed

lemma dispatch_capped_settles:
  assumes "dispatch_capped rt c ctx topic payload attempt lg r w = (res, r', w')"
    and "inst_live (co_inst c)"
  shows "\<exists>ps. metrics w' = metrics w @ ps \<and> settles res r r' ps \<and> count_of Retries ps = 0"
proof -
  define cause where "cause = ErrorString [Lit ''delivery attempt '', Dec attempt,
     Lit '' exceeded MaxDeliveryAttempts '', Dec (cc_MaxDeliveryAttempts (cfg_Consumer (co_cfg c)))]"
  define w0 where "w0 = log_at LWarn ''messaging: delivery attempt cap exceeded''
     (lg @ [(''topic'', AStr topic),
       (''max_delivery_attempts'', AInt (cc_MaxDeliveryAttempts (cfg_Consumer (co_cfg c))))]) w"
  obtain dl w1 err where dl: "newDeadLetter rt c topic ReasonMaxAttemptsExceeded cause attempt w0 = (dl, w1)"
    and d: "deadLetter rt c ctx topic (dl\<lparr>dl_Event := fst (deadLetterBody payload),
         dl_EventRaw := snd (deadLetterBody payload)\<rparr>) w1 = (err, w')"
    and r: "res = Ret err" "r' = failed ''max_attempts'' (Some cause) r"
    using assms(1) by (auto simp: dispatch_capped_def Let_def cause_def [symmetric] w0_def [symmetric] split: prod.splits)
  from settles_deadLetter [OF d assms(2), of r r'] newDeadLetter_frame(1) [OF dl] r show ?thesis
    by (auto simp: w0_def)
qed

text \<open>
  The decision \<open>dispatch\<close> takes before any handler runs, as a function of the message alone and the
  registry: the specification the rest of \<open>dispatch\<close> carries out.
\<close>

datatype 'w decision =
    OverCap
  | Undecodable goerr
  | InvalidEnvelope goerr raw_envelope
  | BadVersion goerr raw_envelope
  | NoHandler raw_envelope
  | Invoke "'w dispatchFunc" routeMatch raw_envelope

definition decide :: "'w consumer \<Rightarrow> string \<Rightarrow> bytes \<Rightarrow> metadata \<Rightarrow> 'w decision" where
  "decide c topic payload md =
     (if deliveryAttempt md > cc_MaxDeliveryAttempts (cfg_Consumer (co_cfg c)) then OverCap
      else case Unmarshal_envelope payload of
             Inl e \<Rightarrow> Undecodable e
           | Inr env \<Rightarrow>
               (case validateEnvelope env of
                  Some e \<Rightarrow> InvalidEnvelope e env
                | None \<Rightarrow>
                    (case majorVersion (ev_SchemaVersion env) of
                       Inl e \<Rightarrow> BadVersion e env
                     | Inr major \<Rightarrow>
                         (case lookup (co_registry c) topic (ev_EventType env) major of
                            (None, _) \<Rightarrow> NoHandler env
                          | (Some h, k) \<Rightarrow> Invoke h k env))))"

definition span_attempt :: "metadata \<Rightarrow> 'w world \<Rightarrow> 'w world" where
  "span_attempt md w =
     span_op (SpanSetAttributes [(''messaging.foi.delivery_attempt'', AInt (deliveryAttempt md))]) w"

definition span_envelope :: "raw_envelope \<Rightarrow> 'w world \<Rightarrow> 'w world" where
  "span_envelope env w =
     span_op (SpanSetAttributes
       [(''messaging.message.id'', AStr (ev_EventID env)),
        (''messaging.foi.event_type'', AStr (ev_EventType env)),
        (''messaging.foi.schema_version'', AStr (ev_SchemaVersion env)),
        (''messaging.foi.correlation_id'', AStr (ev_CorrelationID env))]) w"

lemma dispatch_body_decide:
  "dispatch_body rt c ctx topic payload md lg r w =
     (let attempt = deliveryAttempt md; w = span_attempt md w;
          lg_id = (\<lambda>env. lg @ [(''topic'', AStr topic), (''event_id'', AStr (ev_EventID env))])
      in case decide c topic payload md of
           OverCap \<Rightarrow> dispatch_capped rt c ctx topic payload attempt lg r w
         | Undecodable e \<Rightarrow>
             undeserializable rt c ctx topic payload attempt ''messaging: undecodable event envelope''
               (lg @ [(''topic'', AStr topic)]) ''unmarshalling envelope on topic '' e r w
         | InvalidEnvelope e env \<Rightarrow>
             undeserializable rt c ctx topic payload attempt ''messaging: invalid event envelope''
               (lg_id env) ''validating envelope on topic '' e r (span_envelope env w)
         | BadVersion e env \<Rightarrow>
             undeserializable rt c ctx topic payload attempt ''messaging: unparseable schema version''
               (lg_id env) ''parsing schema version on topic '' e r (span_envelope env w)
         | NoHandler env \<Rightarrow>
             (Ret None, skipped ''no_handler'' r,
              log_at LDebug ''messaging: no handler for event''
                (lg @ [(''topic'', AStr topic), (''event_type'', AStr (ev_EventType env)),
                       (''schema_version'', AStr (ev_SchemaVersion env)),
                       (''event_id'', AStr (ev_EventID env))]) (span_envelope env w))
         | Invoke h k env \<Rightarrow>
             runWithRetry rt c (contextWithCorrelationID ctx (ev_CorrelationID env)) topic payload attempt
               h env lg (if k = MatchTyped then setEventType (ev_EventType env) r else r)
               (span_envelope env w))"
  by (simp add: dispatch_body_def decide_def span_attempt_def span_envelope_def Let_def
      split: sum.split option.split prod.split)

lemma span_frame [simp]:
  "metrics (span_attempt md w) = metrics w" "metrics (span_envelope env w) = metrics w"
  "logs (span_attempt md w) = logs w" "logs (span_envelope env w) = logs w"
  "sleeps (span_attempt md w) = sleeps w" "sleeps (span_envelope env w) = sleeps w"
  "outside (span_attempt md w) = outside w" "outside (span_envelope env w) = outside w"
  "probe_out (span_attempt md w) = probe_out w" "probe_out (span_envelope env w) = probe_out w"
  by (simp_all add: span_attempt_def span_envelope_def)

lemma settles_setEventType: "settles res (setEventType t r) r' ps \<Longrightarrow> settles res r r' ps"
  by (auto simp: settles_def same_delivery_def setEventType_def split: go.splits option.splits)

lemma dispatch_body_settles:
  assumes "dispatch_body rt c ctx topic payload md lg r w = (res, r', w')"
    and "inst_live (co_inst c)" and "dr_inst r = co_inst c"
  shows "\<exists>ps. metrics w' = metrics w @ ps \<and> settles res r r' ps \<and> count_of Retries ps \<le> nat (maxRetries c)"
proof (cases "decide c topic payload md")
  case OverCap
  with assms dispatch_capped_settles [of rt c ctx topic payload "deliveryAttempt md" lg r "span_attempt md w" res r' w']
  show ?thesis by (fastforce simp: dispatch_body_decide)
next
  case (NoHandler env)
  with assms show ?thesis by (auto simp: dispatch_body_decide settles_def Let_def)
next
  case (Invoke h k env)
  let ?r = "if k = MatchTyped then setEventType (ev_EventType env) r else r"
  have "dr_inst ?r = co_inst c" using assms(3) by (simp add: setEventType_def)
  with Invoke assms(1) retry_loop_settles [OF _ assms(2), where r = ?r and i = 0 and w' = w'] obtain ps where
    "metrics w' = metrics w @ ps" "settles res ?r r' ps" "count_of Retries ps \<le> nat (maxRetries c)"
    by (fastforce simp: dispatch_body_decide runWithRetry_def Let_def)
  then show ?thesis by (intro exI [of _ ps]) (auto intro: settles_setEventType split: if_splits)
qed (use assms undeserializable_settles [OF _ assms(2), where r' = r' and w' = w' and r = r] in
      \<open>fastforce simp: dispatch_body_decide Let_def\<close>)+

section \<open>The whole delivery\<close>

lemma dispatch_open_frame:
  assumes "dispatch_open rt c ctx topic md w = (ctx', ids, r, w')"
  shows "metrics w' = metrics w" "logs w' = logs w" "sleeps w' = sleeps w"
    "dr_inst r = co_inst c" "dr_kind r = OutcomeUnset" "\<not> dr_ended r" "dr_probe r = FromContext ctx"
    "dr_topic r = topic" "dr_group r = cc_Group (cfg_Consumer (co_cfg c))" "dr_eventType r = []"
    "FromContext ctx' = FromContext ctx" "ctx_correlationID ctx' = ctx_correlationID ctx"
  using assms
  by (auto simp: dispatch_open_def Let_def out_def newDeliveryRecorder_def FromContext_def split: prod.splits)

lemma dispatch_received_frame [simp]:
  "logs (dispatch_received rt c topic md w) = logs w"
  "sleeps (dispatch_received rt c topic md w) = sleeps w"
  "span_ops (dispatch_received rt c topic md w) = span_ops w"
  "probe_out (dispatch_received rt c topic md w) = probe_out w"
  by (auto simp: dispatch_received_def Let_def out_def split: option.splits prod.splits)

lemma dispatch_received_metrics:
  assumes "inst_live (co_inst c)"
  shows "\<exists>ps. metrics (dispatch_received rt c topic md w) = metrics w @ ps
    \<and> count_of Received ps = 1 \<and> pt_instrument ` set ps \<subseteq> {Received, QueueLatency}
    \<and> list_all (\<lambda>p. 0 \<le> pt_value p) ps"
  using assms by (auto simp: dispatch_received_def Let_def out_def split: option.splits prod.splits)

lemma count_of_0: "i \<notin> pt_instrument ` set ps \<Longrightarrow> count_of i ps = 0"
  by (auto simp: count_of_def filter_empty_conv)

text \<open>The three parts of the points of one delivery, in order, and what its probe received.\<close>

lemma dispatch_record:
  fixes c :: "'w consumer"
  assumes "dispatch rt c ctx topic payload md w = (res, w')" and "inst_live (co_inst c)"
  obtains ps qs elapsed as and r r' :: "'w deliveryRecorder" where
    "metrics w' = metrics w @ ps @ qs @
       [\<lparr>pt_instrument = ProcessingDuration, pt_value = elapsed, pt_attrs = as\<rparr>,
        \<lparr>pt_instrument = terminal_of (dr_kind r'), pt_value = 1, pt_attrs = terminal_attrs r'\<rparr>]"
    "count_of Received ps = 1" "pt_instrument ` set ps \<subseteq> {Received, QueueLatency}"
    "dr_kind r = OutcomeUnset" "settles res r r' qs" "count_of Retries qs \<le> nat (maxRetries c)"
    "FromContext ctx \<noteq> None \<Longrightarrow> probe_out w' = Some (verdict_of r')"
proof -
  obtain ctx' ids r w1 where o: "dispatch_open rt c ctx topic md w = (ctx', ids, r, w1)"
    by (metis prod_cases4)
  define w2 where "w2 = dispatch_received rt c topic md w1"
  obtain r' w3 where b: "dispatch_body rt c ctx' topic payload md (dispatch_logger c payload md ids) r w2 = (res, r', w3)"
    and e: "snd (end_delivery rt r' w3) = w'"
    using assms(1) o by (auto simp: dispatch_def w2_def Let_def split: prod.splits)
  obtain r2 where e': "end_delivery rt r' w3 = (r2, w')" using e by (cases "end_delivery rt r' w3") auto
  obtain ps where ps: "metrics w2 = metrics w @ ps" "count_of Received ps = 1"
      "pt_instrument ` set ps \<subseteq> {Received, QueueLatency}"
    using dispatch_received_metrics [OF assms(2), of rt topic md w1] dispatch_open_frame(1) [OF o]
    by (auto simp: w2_def)
  obtain qs where qs: "metrics w3 = metrics w2 @ qs" "settles res r r' qs" "count_of Retries qs \<le> nat (maxRetries c)"
    using dispatch_body_settles [OF b assms(2)] dispatch_open_frame(4) [OF o] by auto
  have "\<not> dr_ended r'" "inst_live (dr_inst r')"
    using qs(2) dispatch_open_frame(4,6) [OF o] assms(2) by (auto simp: settles_def same_delivery_def)
  moreover have "dr_probe r' = FromContext ctx"
    using qs(2) dispatch_open_frame(7) [OF o] by (auto simp: settles_def same_delivery_def)
  ultimately have probe: "probe_out w' = Some (verdict_of r')" if "FromContext ctx \<noteq> None"
    using end_delivery_frame [OF e'] that by auto
  note \<open>\<not> dr_ended r'\<close> \<open>inst_live (dr_inst r')\<close>
  from end_delivery_metrics [OF e' this] obtain elapsed where "metrics w' = metrics w3 @
      [\<lparr>pt_instrument = ProcessingDuration, pt_value = elapsed,
        pt_attrs = consumeAttrs (dr_topic r') (dr_group r') (dr_eventType r') []\<rparr>,
       \<lparr>pt_instrument = terminal_of (dr_kind r'), pt_value = 1, pt_attrs = terminal_attrs r'\<rparr>]" ..
  then show thesis
    using ps qs dispatch_open_frame(5) [OF o] probe that [of ps qs elapsed _ r' r] by simp
qed

lemma dispatch_metrics:
  fixes c :: "'w consumer"
  assumes "dispatch rt c ctx topic payload md w = (res, w')" and "inst_live (co_inst c)"
  obtains ps qs elapsed as and r r' :: "'w deliveryRecorder" where
    "metrics w' = metrics w @ ps @ qs @
       [\<lparr>pt_instrument = ProcessingDuration, pt_value = elapsed, pt_attrs = as\<rparr>,
        \<lparr>pt_instrument = terminal_of (dr_kind r'), pt_value = 1, pt_attrs = terminal_attrs r'\<rparr>]"
    "count_of Received ps = 1" "pt_instrument ` set ps \<subseteq> {Received, QueueLatency}"
    "dr_kind r = OutcomeUnset" "settles res r r' qs" "count_of Retries qs \<le> nat (maxRetries c)"
  by (rule dispatch_record [OF assms]) (rule that)

text \<open>
  C3. Every delivery is counted exactly once, on every exit path of \<open>dispatch\<close>, a panicking
  handler included: one \<open>received\<close>, one \<open>processing.duration\<close>, and exactly one of \<open>processed\<close>,
  \<open>failed\<close> and \<open>skipped\<close>; \<open>dlq\<close> at most once and \<open>retries\<close> at most \<open>MaxImmediateRetries\<close> times.
\<close>

theorem dispatch_counts_once:
  fixes c :: "'w consumer"
  assumes "dispatch rt c ctx topic payload md w = (res, w')" and "inst_live (co_inst c)"
  shows "\<exists>ps. metrics w' = metrics w @ ps \<and> count_of Received ps = 1
    \<and> count_of ProcessingDuration ps = 1
    \<and> count_of Processed ps + count_of Failed ps + count_of Skipped ps = 1
    \<and> count_of Dlq ps \<le> 1 \<and> count_of Retries ps \<le> nat (rt_MaxImmediateRetries (cfg_Retry (co_cfg c)))"
proof -
  from assms obtain ps qs el as and r r' :: "'w deliveryRecorder" where m: "metrics w' = metrics w @ ps @ qs @
       [\<lparr>pt_instrument = ProcessingDuration, pt_value = el, pt_attrs = as\<rparr>,
        \<lparr>pt_instrument = terminal_of (dr_kind r'), pt_value = 1, pt_attrs = terminal_attrs r'\<rparr>]"
    and ps: "count_of Received ps = 1" "pt_instrument ` set ps \<subseteq> {Received, QueueLatency}"
    and qs: "settles res r r' qs" "count_of Retries qs \<le> nat (maxRetries c)"
    by (rule dispatch_metrics)
  have 0: "count_of i ps = 0" if "i \<notin> {Received, QueueLatency}" for i
    using that ps(2) by (intro count_of_0) blast
  have 1: "count_of i qs = 0" if "i \<notin> {Retries, Dlq, DlqPublishFailures}" for i
    using that qs(1) by (intro count_of_0) (auto simp: settles_def)
  have "count_of Dlq qs \<le> 1" using qs(1) by (auto simp: settles_def split: go.splits option.splits)
  then show ?thesis
    using m ps(1) qs(2) by (cases "dr_kind r'") (auto simp: 0 1 terminal_of_def)
qed

lemma dispatch_accounts:
  fixes c :: "'w consumer"
  assumes "dispatch rt c ctx topic payload md w = (res, w')" and "inst_live (co_inst c)"
  shows "\<exists>ps. metrics w' = metrics w @ ps
    \<and> count_of Processed ps + count_of Skipped ps + count_of Dlq ps = (if res = Ret None then 1 else 0)
    \<and> (res \<noteq> Ret None \<longrightarrow> count_of Failed ps = 1)"
proof -
  from assms obtain ps qs el as and r r' :: "'w deliveryRecorder" where m: "metrics w' = metrics w @ ps @ qs @
       [\<lparr>pt_instrument = ProcessingDuration, pt_value = el, pt_attrs = as\<rparr>,
        \<lparr>pt_instrument = terminal_of (dr_kind r'), pt_value = 1, pt_attrs = terminal_attrs r'\<rparr>]"
    and ps: "pt_instrument ` set ps \<subseteq> {Received, QueueLatency}"
    and qs: "settles res r r' qs" and r: "dr_kind r = OutcomeUnset"
    by (rule dispatch_metrics)
  have 0: "count_of i ps = 0" if "i \<notin> {Received, QueueLatency}" for i
    using that ps by (intro count_of_0) blast
  have 1: "count_of i qs = 0" if "i \<notin> {Retries, Dlq, DlqPublishFailures}" for i
    using that qs by (intro count_of_0) (auto simp: settles_def)
  show ?thesis
    using m qs r by (auto simp: 0 1 settles_def terminal_of_def split: go.splits option.splits)
qed

section \<open>What a delivery depends on\<close>

lemma registry_irrelevant [simp]:
  "newDeadLetter rt (c\<lparr>co_registry := reg\<rparr>) = newDeadLetter rt c"
  "sink_for (c\<lparr>co_registry := reg\<rparr>) = sink_for c"
  "dlqStream (c\<lparr>co_registry := reg\<rparr>) = dlqStream c"
  "dispatch_open rt (c\<lparr>co_registry := reg\<rparr>) = dispatch_open rt c"
  "dispatch_received rt (c\<lparr>co_registry := reg\<rparr>) = dispatch_received rt c"
  "dispatch_logger (c\<lparr>co_registry := reg\<rparr>) = dispatch_logger c"
  by (simp_all add: fun_eq_iff newDeadLetter_def sink_for_def dlqStream_def dispatch_open_def
      dispatch_received_def dispatch_logger_def streamName_def Let_def split_beta cong: option.case_cong)

lemma registry_irrelevant2 [simp]:
  "deadLetter rt (c\<lparr>co_registry := reg\<rparr>) = deadLetter rt c"
  by (simp add: fun_eq_iff deadLetter_def Let_def split_beta cong: option.case_cong sum.case_cong)

lemma registry_irrelevant3 [simp]:
  "undeserializable rt (c\<lparr>co_registry := reg\<rparr>) = undeserializable rt c"
  "dispatch_capped rt (c\<lparr>co_registry := reg\<rparr>) = dispatch_capped rt c"
  by (simp_all add: fun_eq_iff undeserializable_def dispatch_capped_def)

text \<open>The loop calls its handler at one context and one envelope only.\<close>

lemma retry_loop_handler_cong:
  assumes "handler ctx env = handler' ctx env"
  shows "retry_loop rt (c\<lparr>co_registry := reg\<rparr>) ctx topic payload attempt handler' env lg i r w =
         retry_loop rt c ctx topic payload attempt handler env lg i r w"
proof (induction "nat (maxRetries c - i)" arbitrary: i w rule: less_induct)
  case less
  have "retry_loop rt (c\<lparr>co_registry := reg\<rparr>) ctx topic payload attempt handler' env lg (i + 1) r w' =
        retry_loop rt c ctx topic payload attempt handler env lg (i + 1) r w'"
    if "\<not> maxRetries c \<le> i" for w'
    using that by (intro less) simp
  then show ?case
    by (simp add: assms [symmetric] retry_loop.simps [of _ _ _ _ _ _ _ _ _ i] Let_def
        split: prod.split go.split option.split)
qed

text \<open>
  A handler that refuses to run, by panicking, unless what it is given satisfies a predicate; and
  the registry in which every handler is guarded by the predicate for its own key.
\<close>

definition guarded :: "('w ctx \<Rightarrow> raw_envelope \<Rightarrow> bool) \<Rightarrow> 'w dispatchFunc \<Rightarrow> 'w dispatchFunc" where
  "guarded P h = (\<lambda>ctx env w. if P ctx env then h ctx env w else (Panic, w))"

definition guard_registry ::
    "(routeKey \<Rightarrow> 'w ctx \<Rightarrow> raw_envelope \<Rightarrow> bool) \<Rightarrow> (string \<Rightarrow> 'w ctx \<Rightarrow> raw_envelope \<Rightarrow> bool)
     \<Rightarrow> 'w registry \<Rightarrow> 'w registry" where
  "guard_registry P Q reg =
     reg\<lparr>reg_typed := map (\<lambda>(k, h). (k, guarded (P k) h)) (reg_typed reg),
         reg_raw := map (\<lambda>(t, h). (t, guarded (Q t) h)) (reg_raw reg)\<rparr>"

text \<open>What a handler may rely on when it is called for a message.\<close>

definition handler_may_assume ::
    "'w consumer \<Rightarrow> bytes \<Rightarrow> metadata \<Rightarrow> 'w ctx \<Rightarrow> raw_envelope \<Rightarrow> bool" where
  "handler_may_assume c payload md ctx env \<longleftrightarrow>
     Unmarshal_envelope payload = Inr env \<and> validateEnvelope env = None
     \<and> correlationIDFromContext ctx = Some (ev_CorrelationID env)
     \<and> deliveryAttempt md \<le> cc_MaxDeliveryAttempts (cfg_Consumer (co_cfg c))"

definition typed_may_assume ::
    "'w consumer \<Rightarrow> string \<Rightarrow> bytes \<Rightarrow> metadata \<Rightarrow> routeKey \<Rightarrow> 'w ctx \<Rightarrow> raw_envelope \<Rightarrow> bool" where
  "typed_may_assume c topic payload md key ctx env \<longleftrightarrow>
     handler_may_assume c payload md ctx env \<and> rk_topic key = topic
     \<and> rk_eventType key = ev_EventType env \<and> majorVersion (ev_SchemaVersion env) = Inr (rk_major key)"

definition raw_may_assume ::
    "'w consumer \<Rightarrow> string \<Rightarrow> bytes \<Rightarrow> metadata \<Rightarrow> string \<Rightarrow> 'w ctx \<Rightarrow> raw_envelope \<Rightarrow> bool" where
  "raw_may_assume c topic payload md t ctx env \<longleftrightarrow> handler_may_assume c payload md ctx env \<and> t = topic"

lemma map_of_map_key: "map_of (map (\<lambda>(k, h). (k, f k h)) xs) k = map_option (f k) (map_of xs k)"
  by (induction xs) auto

lemma lookup_guard_registry:
  "lookup (guard_registry P Q reg) topic et m =
     (case lookup reg topic et m of
        (Some h, MatchRaw) \<Rightarrow> (Some (guarded (Q topic) h), MatchRaw)
      | (Some h, k) \<Rightarrow> (Some (guarded (P \<lparr>rk_topic = topic, rk_eventType = et, rk_major = m\<rparr>) h), k)
      | x \<Rightarrow> x)"
  by (simp add: lookup_def guard_registry_def map_of_map_key split: option.split)

text \<open>
  C9. A handler only ever runs on an event that is fit for it. Guard every registered handler so
  that it panics unless: the payload decoded to exactly this envelope, the envelope is valid, the
  context carries its correlation id, the delivery is within the attempt cap, the topic is the one
  it was registered for and, for a typed handler, event type and major version are those of its
  key. Then \<open>dispatch\<close> behaves the same: the guard is never hit.
\<close>

theorem dispatch_handler_guarantee:
  "dispatch rt (c\<lparr>co_registry := guard_registry (typed_may_assume c topic payload md)
                                    (raw_may_assume c topic payload md) (co_registry c)\<rparr>)
     ctx topic payload md w
   = dispatch rt c ctx topic payload md w"
proof -
  let ?reg = "guard_registry (typed_may_assume c topic payload md) (raw_may_assume c topic payload md) (co_registry c)"
  let ?c = "c\<lparr>co_registry := ?reg\<rparr>"
  have "dispatch_body rt ?c ctx' topic payload md lg r w' = dispatch_body rt c ctx' topic payload md lg r w'"
    for ctx' lg r w'
  proof (cases "decide c topic payload md")
    case (Invoke h k env)
    then obtain major where env: "Unmarshal_envelope payload = Inr env" "validateEnvelope env = None"
        "deliveryAttempt md \<le> cc_MaxDeliveryAttempts (cfg_Consumer (co_cfg c))"
      and major: "majorVersion (ev_SchemaVersion env) = Inr major"
      and l: "lookup (co_registry c) topic (ev_EventType env) major = (Some h, k)"
      by (auto simp: decide_def split: if_splits sum.splits option.splits prod.splits)
    define key where "key = \<lparr>rk_topic = topic, rk_eventType = ev_EventType env, rk_major = major\<rparr>"
    define h' where "h' = (if k = MatchRaw then guarded (raw_may_assume c topic payload md topic) h
      else guarded (typed_may_assume c topic payload md key) h)"
    let ?ctx = "contextWithCorrelationID ctx' (ev_CorrelationID env)"
    have "decide ?c topic payload md = Invoke h' k env"
      using env l by (auto simp: decide_def major lookup_guard_registry h'_def key_def split: routeMatch.split)
    moreover have "h' ?ctx env = h ?ctx env"
      by (simp add: h'_def guarded_def raw_may_assume_def typed_may_assume_def handler_may_assume_def
          env major key_def fun_eq_iff)
    ultimately show ?thesis
      using Invoke
      by (simp add: dispatch_body_decide runWithRetry_def retry_loop_handler_cong [where handler = h and handler' = h'])
  next
    case (NoHandler env)
    then have "decide ?c topic payload md = NoHandler env"
      by (auto simp: decide_def lookup_guard_registry split: if_splits sum.splits option.splits prod.splits)
    with NoHandler show ?thesis by (simp add: dispatch_body_decide)
  qed (auto simp: dispatch_body_decide decide_def split: if_splits sum.splits option.splits prod.splits)
  then show ?thesis by (simp add: dispatch_def)
qed

section \<open>Events no handler sees\<close>

text \<open>
  A delivery that amounts to one dead letter: the result is that of a single \<open>deadLetter\<close> call, on
  a context with the same probe, for a document with the given reason and bytes.
\<close>

definition dead_letters_once ::
    "'w runtime \<Rightarrow> 'w consumer \<Rightarrow> 'w ctx \<Rightarrow> string \<Rightarrow> string \<Rightarrow> int \<Rightarrow> bytes \<times> bytes \<Rightarrow> goerr option go \<Rightarrow> bool" where
  "dead_letters_once rt c ctx topic reason attempt body res \<longleftrightarrow>
     (\<exists>ctx' dl w1 err w2. deadLetter rt c ctx' topic dl w1 = (err, w2) \<and> res = Ret err
        \<and> sink_for c ctx' = sink_for c ctx
        \<and> dl_Reason dl = reason \<and> dl_DeliveryAttempts dl = attempt \<and> dl_OriginalTopic dl = topic
        \<and> (dl_Event dl, dl_EventRaw dl) = body)"

lemma sink_for_cong: "FromContext ctx' = FromContext ctx \<Longrightarrow> sink_for c ctx' = sink_for c ctx"
  by (simp add: sink_for_def)

lemma undeserializable_dead_letters:
  "dead_letters_once rt c ctx topic ReasonDeserializationFailed attempt ([], payload)
     (fst (undeserializable rt c ctx topic payload attempt msg lg doing e r w))"
proof -
  obtain dl w1 where dl: "newDeadLetter rt c topic ReasonDeserializationFailed
      (WrapError [Lit doing, Quoted topic, Lit '': ''] e) attempt
      (log_at LError msg (lg @ [(''error'', AErr e)]) w) = (dl, w1)" by fastforce
  obtain err w2 where d: "deadLetter rt c ctx topic (dl\<lparr>dl_EventRaw := payload\<rparr>) w1 = (err, w2)" by fastforce
  have "fst (undeserializable rt c ctx topic payload attempt msg lg doing e r w) = Ret err"
    by (simp add: undeserializable_def Let_def dl d)
  with d newDeadLetter_frame [OF dl] show ?thesis
    unfolding dead_letters_once_def
    by (intro exI [of _ ctx] exI [of _ "dl\<lparr>dl_EventRaw := payload\<rparr>"] exI [of _ w1] exI [of _ err] exI [of _ w2]) simp
qed

lemma capped_dead_letters:
  "dead_letters_once rt c ctx topic ReasonMaxAttemptsExceeded attempt (deadLetterBody payload)
     (fst (dispatch_capped rt c ctx topic payload attempt lg r w))"
proof -
  define cap where "cap = cc_MaxDeliveryAttempts (cfg_Consumer (co_cfg c))"
  obtain dl w1 where dl: "newDeadLetter rt c topic ReasonMaxAttemptsExceeded
      (ErrorString [Lit ''delivery attempt '', Dec attempt, Lit '' exceeded MaxDeliveryAttempts '', Dec cap]) attempt
      (log_at LWarn ''messaging: delivery attempt cap exceeded''
        (lg @ [(''topic'', AStr topic), (''max_delivery_attempts'', AInt cap)]) w) = (dl, w1)" by fastforce
  let ?dl = "dl\<lparr>dl_Event := fst (deadLetterBody payload), dl_EventRaw := snd (deadLetterBody payload)\<rparr>"
  obtain err w2 where d: "deadLetter rt c ctx topic ?dl w1 = (err, w2)" by fastforce
  have "fst (dispatch_capped rt c ctx topic payload attempt lg r w) = Ret err"
    by (simp add: dispatch_capped_def Let_def dl d split_beta cap_def [symmetric])
  with d newDeadLetter_frame [OF dl] show ?thesis
    unfolding dead_letters_once_def
    by (intro exI [of _ ctx] exI [of _ ?dl] exI [of _ w1] exI [of _ err] exI [of _ w2]) simp
qed

lemma dead_letters_once_cong:
  "FromContext ctx' = FromContext ctx \<Longrightarrow> dead_letters_once rt c ctx' topic reason a b res \<Longrightarrow>
     dead_letters_once rt c ctx topic reason a b res"
  by (auto simp: dead_letters_once_def sink_for_cong [of ctx' ctx])

lemma fst_dispatch:
  obtains ctx' ids r w1 where "FromContext ctx' = FromContext ctx"
    "fst (dispatch rt c ctx topic payload md w) =
       fst (dispatch_body rt c ctx' topic payload md (dispatch_logger c payload md ids) r w1)"
proof -
  obtain ctx' ids r w1 where o: "dispatch_open rt c ctx topic md w = (ctx', ids, r, w1)"
    by (metis prod_cases4)
  show thesis
    by (rule that [OF dispatch_open_frame(11) [OF o], of ids r "dispatch_received rt c topic md w1"])
      (simp add: dispatch_def o Let_def split_beta)
qed

lemma over_cap_dead_letters:
  assumes "cc_MaxDeliveryAttempts (cfg_Consumer (co_cfg c)) < deliveryAttempt md"
  shows "dead_letters_once rt c ctx topic ReasonMaxAttemptsExceeded (deliveryAttempt md)
           (deadLetterBody payload) (fst (dispatch rt c ctx topic payload md w))
    \<and> dispatch rt (c\<lparr>co_registry := reg\<rparr>) ctx topic payload md w = dispatch rt c ctx topic payload md w"
proof
  obtain ctx' ids r w1 where o: "FromContext ctx' = FromContext ctx"
    "fst (dispatch rt c ctx topic payload md w) =
       fst (dispatch_body rt c ctx' topic payload md (dispatch_logger c payload md ids) r w1)"
    by (rule fst_dispatch)
  show "dead_letters_once rt c ctx topic ReasonMaxAttemptsExceeded (deliveryAttempt md)
           (deadLetterBody payload) (fst (dispatch rt c ctx topic payload md w))"
    by (rule dead_letters_once_cong [OF o(1)])
      (simp add: o(2) dispatch_body_decide decide_def assms Let_def capped_dead_letters)
  have "decide (c\<lparr>co_registry := reg\<rparr>) topic payload md = OverCap" "decide c topic payload md = OverCap"
    using assms by (simp_all add: decide_def)
  then show "dispatch rt (c\<lparr>co_registry := reg\<rparr>) ctx topic payload md w = dispatch rt c ctx topic payload md w"
    by (simp add: dispatch_def dispatch_body_decide)
qed

text \<open>
  C17. The attempt cap comes first. A delivery past \<open>MaxDeliveryAttempts\<close> is dead-lettered with
  reason \<open>max_attempts_exceeded\<close>, its attempt count and its bytes (as \<open>event\<close> when they are valid
  JSON, else as \<open>event_raw\<close>), whatever its content; which handlers are registered has no influence
  on anything it does, so none is invoked.
\<close>

theorem dispatch_over_cap:
  assumes "cc_MaxDeliveryAttempts (cfg_Consumer (co_cfg c)) < deliveryAttempt md"
  shows "dead_letters_once rt c ctx topic ReasonMaxAttemptsExceeded (deliveryAttempt md)
           (deadLetterBody payload) (fst (dispatch rt c ctx topic payload md w))
    \<and> dispatch rt (c\<lparr>co_registry := reg\<rparr>) ctx topic payload md w = dispatch rt c ctx topic payload md w"
  using assms by (rule over_cap_dead_letters)

text \<open>When the bytes cannot be read as an event that could be dispatched.\<close>

definition unreadable :: "bytes \<Rightarrow> bool" where
  "unreadable payload \<longleftrightarrow>
     (case Unmarshal_envelope payload of
        Inl e \<Rightarrow> True
      | Inr env \<Rightarrow> validateEnvelope env \<noteq> None \<or> isl (majorVersion (ev_SchemaVersion env)))"

lemma unreadable_decide:
  assumes "unreadable payload" and "deliveryAttempt md \<le> cc_MaxDeliveryAttempts (cfg_Consumer (co_cfg c))"
  shows "(\<exists>e. decide c topic payload md = Undecodable e) \<or> (\<exists>e env. decide c topic payload md = InvalidEnvelope e env)
    \<or> (\<exists>e env. decide c topic payload md = BadVersion e env)"
  using assms by (auto simp: unreadable_def decide_def split: sum.splits option.splits)

lemma decide_registry:
  assumes "unreadable payload"
  shows "decide (c\<lparr>co_registry := reg\<rparr>) topic payload md = decide c topic payload md"
  using assms by (auto simp: unreadable_def decide_def split: sum.splits option.splits)

text \<open>
  C21. What cannot be read is dead-lettered at once. An event within the cap whose bytes do not
  decode, or decode to an envelope that fails validation, or carry an unparseable major version, is
  dead-lettered on that very delivery with reason \<open>deserialization_failed\<close> and its bytes in
  \<open>event_raw\<close>; no handler is involved.
\<close>

theorem dispatch_unreadable:
  assumes "unreadable payload" and "deliveryAttempt md \<le> cc_MaxDeliveryAttempts (cfg_Consumer (co_cfg c))"
  shows "dead_letters_once rt c ctx topic ReasonDeserializationFailed (deliveryAttempt md) ([], payload)
           (fst (dispatch rt c ctx topic payload md w))
    \<and> dispatch rt (c\<lparr>co_registry := reg\<rparr>) ctx topic payload md w = dispatch rt c ctx topic payload md w"
proof
  obtain ctx' ids r w1 where o: "FromContext ctx' = FromContext ctx"
    "fst (dispatch rt c ctx topic payload md w) =
       fst (dispatch_body rt c ctx' topic payload md (dispatch_logger c payload md ids) r w1)"
    by (rule fst_dispatch)
  show "dead_letters_once rt c ctx topic ReasonDeserializationFailed (deliveryAttempt md) ([], payload)
           (fst (dispatch rt c ctx topic payload md w))"
    using unreadable_decide [OF assms, of topic]
    by (intro dead_letters_once_cong [OF o(1)])
      (auto simp: o(2) dispatch_body_decide Let_def undeserializable_dead_letters)
  show "dispatch rt (c\<lparr>co_registry := reg\<rparr>) ctx topic payload md w = dispatch rt c ctx topic payload md w"
    using unreadable_decide [OF assms, of topic] decide_registry [OF assms(1), of _ c topic md]
    by (auto simp: dispatch_def dispatch_body_decide Let_def)
qed

text \<open>
  What a skipped delivery does is a function of the configuration, the message and the runtime: no
  handler and no sink, neither the consumer's nor the probe's, has any part in it.
\<close>

lemma no_handler_frame:
  assumes "decide c topic payload md = NoHandler env" and "decide (c\<lparr>co_registry := reg, co_dlq := sink\<rparr>) topic payload md = NoHandler env"
  shows "dispatch rt (c\<lparr>co_registry := reg, co_dlq := sink\<rparr>) (ctx\<lparr>ctx_probe := map_option (\<lambda>p. p\<lparr>Sink := f\<rparr>) (ctx_probe ctx)\<rparr>)
      topic payload md w = dispatch rt c ctx topic payload md w"
proof -
  let ?c = "c\<lparr>co_registry := reg, co_dlq := sink\<rparr>"
  let ?ctx = "ctx\<lparr>ctx_probe := map_option (\<lambda>p. p\<lparr>Sink := f\<rparr>) (ctx_probe ctx)\<rparr>"
  obtain ctx1 ids r w1 where o: "dispatch_open rt c ctx topic md w = (ctx1, ids, r, w1)"
    by (metis prod_cases4)
  then have o': "dispatch_open rt ?c ?ctx topic md w =
      (ctx1\<lparr>ctx_probe := map_option (\<lambda>p. p\<lparr>Sink := f\<rparr>) (ctx_probe ctx)\<rparr>, ids,
       r\<lparr>dr_probe := map_option (\<lambda>p. p\<lparr>Sink := f\<rparr>) (ctx_probe ctx)\<rparr>, w1)"
    by (auto simp: dispatch_open_def streamName_def newDeliveryRecorder_def FromContext_def Let_def split: prod.splits)
  have probe: "dr_probe r = ctx_probe ctx" using dispatch_open_frame(7) [OF o] by (simp add: FromContext_def)
  have "dispatch_received rt ?c = dispatch_received rt c" "dispatch_logger ?c = dispatch_logger c"
    by (simp_all add: fun_eq_iff dispatch_received_def dispatch_logger_def Let_def split_beta cong: option.case_cong)
  moreover have "snd (end_delivery rt (skipped why (r\<lparr>dr_probe := map_option (\<lambda>p. p\<lparr>Sink := f\<rparr>) (ctx_probe ctx)\<rparr>)) v) =
      snd (end_delivery rt (skipped why r) v)" for why v
    using probe by (cases "ctx_probe ctx") (simp_all add: end_delivery_def skipped_def consumeAttrs_def Let_def split_beta)
  ultimately show ?thesis
    by (simp add: dispatch_def o o' dispatch_body_decide assms Let_def split_beta)
qed

text \<open>
  C30. An event nobody registered for is a normal outcome: it is acknowledged, counted as skipped
  with reason \<open>no_handler\<close>, and touches neither a handler nor a dead-letter sink: the delivery is the
  same, in result, records and effect on the outside, under any registry that has nothing for the event
  either, whatever its handlers, and whatever the consumer's sink and the probe's would do.
\<close>

theorem dispatch_no_handler:
  assumes "deliveryAttempt md \<le> cc_MaxDeliveryAttempts (cfg_Consumer (co_cfg c))"
    and "Unmarshal_envelope payload = Inr env" and "validateEnvelope env = None"
    and "majorVersion (ev_SchemaVersion env) = Inr major"
    and "lookup (co_registry c) topic (ev_EventType env) major = (None, MatchNone)"
    and "inst_live (co_inst c)"
  shows "fst (dispatch rt c ctx topic payload md w) = Ret None
    \<and> last (metrics (snd (dispatch rt c ctx topic payload md w))) =
        \<lparr>pt_instrument = Skipped, pt_value = 1,
         pt_attrs = [(''topic'', topic), (''group'', cc_Group (cfg_Consumer (co_cfg c))), (''reason'', ''no_handler'')]\<rparr>
    \<and> (\<forall>reg sink f. lookup reg topic (ev_EventType env) major = (None, MatchNone) \<longrightarrow>
         dispatch rt (c\<lparr>co_registry := reg, co_dlq := sink\<rparr>) (ctx\<lparr>ctx_probe := map_option (\<lambda>p. p\<lparr>Sink := f\<rparr>) (ctx_probe ctx)\<rparr>)
           topic payload md w = dispatch rt c ctx topic payload md w)"
proof -
  have d: "decide c topic payload md = NoHandler env" using assms by (simp add: decide_def)
  obtain ctx' ids r w1 where o: "dispatch_open rt c ctx topic md w = (ctx', ids, r, w1)"
    by (metis prod_cases4)
  let ?r = "skipped ''no_handler'' r"
  let ?w = "log_at LDebug ''messaging: no handler for event''
     (dispatch_logger c payload md ids @ [(''topic'', AStr topic), (''event_type'', AStr (ev_EventType env)),
       (''schema_version'', AStr (ev_SchemaVersion env)), (''event_id'', AStr (ev_EventID env))])
     (span_envelope env (span_attempt md (dispatch_received rt c topic md w1)))"
  obtain r2 w2 where e: "end_delivery rt ?r ?w = (r2, w2)" by fastforce
  have eq: "dispatch rt c ctx topic payload md w = (Ret None, w2)"
    by (simp add: dispatch_def o dispatch_body_decide d Let_def e)
  have "\<not> dr_ended ?r" "inst_live (dr_inst ?r)"
    using dispatch_open_frame(4,6) [OF o] assms(6) by (simp_all add: skipped_def)
  from end_delivery_metrics [OF e this] have "last (metrics w2) =
      \<lparr>pt_instrument = terminal_of (dr_kind ?r), pt_value = 1, pt_attrs = terminal_attrs ?r\<rparr>" by auto
  then have "last (metrics w2) = \<lparr>pt_instrument = Skipped, pt_value = 1,
      pt_attrs = [(''topic'', topic), (''group'', cc_Group (cfg_Consumer (co_cfg c))), (''reason'', ''no_handler'')]\<rparr>"
    using dispatch_open_frame(8,9) [OF o] by (simp add: terminal_of_def terminal_attrs_def consumeAttrs_def skipped_def)
  moreover have "dispatch rt (c\<lparr>co_registry := reg, co_dlq := sink\<rparr>) (ctx\<lparr>ctx_probe := map_option (\<lambda>p. p\<lparr>Sink := f\<rparr>) (ctx_probe ctx)\<rparr>)
      topic payload md w = dispatch rt c ctx topic payload md w"
    if "lookup reg topic (ev_EventType env) major = (None, MatchNone)" for reg sink f
    by (rule no_handler_frame [OF d]) (use assms that in \<open>simp add: decide_def\<close>)
  ultimately show ?thesis by (simp add: eq)
qed

end
