(* ===== verification/Delivery_Bounds.thy ===== *)
theory Delivery_Bounds
  imports Delivery_Props
begin

text \<open>
  Bounds on one delivery: handler invocations, backoff sleep, the retry loop absorbing transient
  failures, and where a panic can come from.
\<close>

section \<open>How often the handler runs\<close>

text \<open>
  \<open>calls\<close> counts handler invocations in the outside state: nothing the runtime does changes it, nor
  does the dead-letter sink, and each handler invocation adds one.
\<close>

definition counts_only_handlers :: "('w \<Rightarrow> nat) \<Rightarrow> 'w runtime \<Rightarrow> 'w consumer \<Rightarrow> 'w ctx \<Rightarrow> bool" where
  "counts_only_handlers calls rt c ctx \<longleftrightarrow>
     (\<forall>w. calls (snd (os_now rt w)) = calls w) \<and> (\<forall>n w. calls (snd (os_rand rt n w)) = calls w)
     \<and> (\<forall>x d w. calls (snd (os_timer rt x d w)) = calls w)
     \<and> (\<forall>x w. calls (snd (os_ctx_err rt x w)) = calls w)
     \<and> (\<forall>t w. calls (snd (otel_start rt t w)) = calls w)
     \<and> (\<forall>sink v s b w. sink_for c ctx = Some sink \<longrightarrow> calls (snd (publish_sink rt sink v s b w)) = calls w)
     \<and> (\<forall>h \<in> snd ` set (reg_typed (co_registry c)) \<union> snd ` set (reg_raw (co_registry c)).
          \<forall>x env w. calls (snd (h x env w)) = Suc (calls w))"

lemma out_calls:
  assumes "out f w = (a, w')" and "\<And>x. calls (snd (f x)) = calls x"
  shows "calls (outside w') = calls (outside w)"
  using assms(1) assms(2) [of "outside w"] by (auto simp: out_def split: prod.splits)

lemma deadLetter_calls:
  assumes "deadLetter rt c ctx topic dl w = (err, w')"
    and "\<And>sink v s b w. sink_for c ctx = Some sink \<Longrightarrow> calls (snd (publish_sink rt sink v s b w)) = calls w"
  shows "calls (outside w') = calls (outside w)"
proof (cases "sink_for c ctx")
  case (Some sink)
  show ?thesis
    using assms(1) assms(2) [OF Some, of "ctx_values.truncate ctx" "dlqStream c topic"]
    by (auto simp: deadLetter_def Some Let_def out_def split: sum.splits option.splits prod.splits)
      (metis snd_conv)+
qed (use assms(1) in \<open>auto simp: deadLetter_def Let_def\<close>)

lemma newDeadLetter_calls:
  assumes "newDeadLetter rt c topic reason cause attempt w = (dl, w')"
    and "\<And>w. calls (snd (os_now rt w)) = calls w"
  shows "calls (outside w') = calls (outside w)"
  using assms(1) assms(2) [of "outside w"] by (auto simp: newDeadLetter_def out_def split: prod.splits)

lemma sleepWithJitter_calls:
  assumes "sleepWithJitter rt ctx upper w = (woke, w')"
    and "\<And>n w. calls (snd (os_rand rt n w)) = calls w" "\<And>x d w. calls (snd (os_timer rt x d w)) = calls w"
    "\<And>x w. calls (snd (os_ctx_err rt x w)) = calls w"
  shows "calls (outside w') = calls (outside w)"
  using assms(1)
  by (auto simp: sleepWithJitter_guarded Let_def out_def split: if_splits prod.splits)
    (metis assms(2-4) snd_conv)+

lemma retry_loop_calls:
  assumes "retry_loop rt c ctx topic payload attempt handler env lg i r w = (res, r', w')"
    and "inst_live (co_inst c)" and "dr_inst r = co_inst c"
    and calm: "counts_only_handlers calls rt c ctx"
    and h: "\<And>x env w. calls (snd (handler x env w)) = Suc (calls w)"
  shows "\<exists>ps. metrics w' = metrics w @ ps
    \<and> calls (outside w) + 1 \<le> calls (outside w') \<and> calls (outside w) + count_of Retries ps \<le> calls (outside w')
    \<and> calls (outside w') \<le> calls (outside w) + 1 + count_of Retries ps"
  using assms(1)
proof (induction "nat (maxRetries c - i)" arbitrary: i w rule: less_induct)
  case less
  have called: "calls (outside w1) = Suc (calls (outside w)) \<and> metrics w1 = metrics w"
    if "out (handler ctx env) w = (a, w1)" for a w1
    using out_frame [OF that] that h [of ctx env "outside w"] by (auto simp: out_def split: prod.splits)
  from less.prems show ?case
  proof (cases rule: retry_loop_cases)
    case (permanent e w1 dl w3 err)
    have "calls (outside w') = calls (outside w3)"
      by (rule deadLetter_calls [OF permanent(4)]) (use calm in \<open>simp add: counts_only_handlers_def\<close>)
    moreover have "calls (outside w3) = calls (outside w1)"
      using newDeadLetter_calls [OF permanent(3), of calls] calm by (simp add: counts_only_handlers_def)
    moreover obtain ps where "metrics w' = metrics w3 @ ps" "count_of Retries ps = 0"
      using settles_deadLetter [OF permanent(4) assms(2), of r r'] permanent by auto
    ultimately show ?thesis
      using called [OF permanent(1)] newDeadLetter_frame(1) [OF permanent(3)] by auto
  next
    case (abandoned e w1)
    have "calls (outside w') = calls (outside w1)"
      using sleepWithJitter_calls [OF abandoned(6), of calls] calm by (simp add: counts_only_handlers_def)
    then show ?thesis
      using called [OF abandoned(1)] sleepWithJitter_frame [OF abandoned(6)] assms(2,3) by auto
  next
    case (again e w1 w4)
    from less.hyps [OF _ again(5)] again(3) obtain ps where
      "metrics w' = metrics w4 @ ps" "calls (outside w4) + 1 \<le> calls (outside w')"
      "calls (outside w4) + count_of Retries ps \<le> calls (outside w')"
      "calls (outside w') \<le> calls (outside w4) + 1 + count_of Retries ps"
      by auto
    moreover obtain p where "metrics w4 = metrics w @ [p]" "pt_instrument p = Retries"
      using called [OF again(1)] sleepWithJitter_frame [OF again(4)] assms(2,3) by auto
    moreover have "calls (outside w4) = calls (outside w1)"
      using sleepWithJitter_calls [OF again(4), of calls] calm by (simp add: counts_only_handlers_def)
    ultimately show ?thesis
      using called [OF again(1)] by (intro exI [of _ "p # ps"]) simp
  qed (auto dest!: called)
qed

lemma lookup_registered:
  "lookup reg topic et m = (Some h, k) \<Longrightarrow> h \<in> snd ` set (reg_typed reg) \<union> snd ` set (reg_raw reg)"
  by (auto simp: lookup_def split: option.splits dest!: map_of_SomeD intro: rev_image_eqI)

lemma counts_ctx_cong:
  "FromContext ctx' = FromContext ctx \<Longrightarrow> counts_only_handlers calls rt c ctx \<Longrightarrow> counts_only_handlers calls rt c ctx'"
  by (simp add: counts_only_handlers_def sink_for_cong [of ctx' ctx])

lemma dead_letter_exit_calls:
  assumes "counts_only_handlers calls rt c ctx"
  shows "undeserializable rt c ctx topic payload attempt msg lg doing e r w = (res, r', w') \<Longrightarrow>
           calls (outside w') = calls (outside w)"
    and "dispatch_capped rt c ctx topic payload attempt lg r w = (res, r', w') \<Longrightarrow>
           calls (outside w') = calls (outside w)"
  using assms deadLetter_calls [of rt c ctx topic _ _ _ _ calls] newDeadLetter_calls [of rt c topic _ _ _ _ _ _ calls]
  by (fastforce simp: undeserializable_def dispatch_capped_def counts_only_handlers_def Let_def split: prod.splits)+

text \<open>
  The invocations of one delivery: none unless the decision is to invoke, and then at least one, at
  most one more than the immediate retries allowed.
\<close>

lemma dispatch_body_calls:
  assumes "dispatch_body rt c ctx topic payload md lg r w = (res, r', w')"
    and "inst_live (co_inst c)" and "dr_inst r = co_inst c" and calm: "counts_only_handlers calls rt c ctx"
  shows "(case decide c topic payload md of
            Invoke h k env \<Rightarrow> calls (outside w) + 1 \<le> calls (outside w')
              \<and> calls (outside w') \<le> calls (outside w) + 1 + nat (maxRetries c)
          | _ \<Rightarrow> calls (outside w') = calls (outside w))"
proof (cases "decide c topic payload md")
  case (Invoke h k env)
  let ?r = "if k = MatchTyped then setEventType (ev_EventType env) r else r"
  let ?ctx = "contextWithCorrelationID ctx (ev_CorrelationID env)"
  from Invoke have "h \<in> snd ` set (reg_typed (co_registry c)) \<union> snd ` set (reg_raw (co_registry c))"
    by (auto simp: decide_def split: if_splits sum.splits option.splits prod.splits dest!: lookup_registered)
  then have h: "calls (snd (h x env w)) = Suc (calls w)" for x env w
    using calm unfolding counts_only_handlers_def by blast
  have i: "dr_inst ?r = co_inst c" using assms(3) by (simp add: setEventType_def)
  from assms(1) Invoke obtain lg' where l: "retry_loop rt c ?ctx topic payload (deliveryAttempt md) h env lg' 0 ?r
      (span_envelope env (span_attempt md w)) = (res, r', w')"
    by (auto simp: dispatch_body_decide runWithRetry_def Let_def)
  have calm': "counts_only_handlers calls rt c ?ctx" by (rule counts_ctx_cong [OF _ calm]) simp
  obtain ps where ps: "metrics w' = metrics w @ ps" "calls (outside w) + 1 \<le> calls (outside w')"
      "calls (outside w') \<le> calls (outside w) + 1 + count_of Retries ps"
    using retry_loop_calls [where calls = calls, OF l assms(2) i calm'] h by auto
  obtain qs where "metrics w' = metrics w @ qs" "count_of Retries qs \<le> nat (maxRetries c)"
    using retry_loop_settles [OF l assms(2) i] by auto
  with ps Invoke show ?thesis by simp
qed (use assms(1) dead_letter_exit_calls [OF calm] in \<open>fastforce simp: dispatch_body_decide Let_def\<close>)+

lemma dispatch_parts:
  assumes "dispatch rt c ctx topic payload md w = (res, w')"
  obtains ctx' ids r w1 r' w3 r2 where "dispatch_open rt c ctx topic md w = (ctx', ids, r, w1)"
    "dispatch_body rt c ctx' topic payload md (dispatch_logger c payload md ids) r
       (dispatch_received rt c topic md w1) = (res, r', w3)"
    "end_delivery rt r' w3 = (r2, w')"
proof -
  obtain ctx' ids r w1 where o: "dispatch_open rt c ctx topic md w = (ctx', ids, r, w1)"
    by (metis prod_cases4)
  obtain res' r' w3 where b: "dispatch_body rt c ctx' topic payload md (dispatch_logger c payload md ids) r
      (dispatch_received rt c topic md w1) = (res', r', w3)" by (metis prod_cases3)
  obtain r2 w2 where e: "end_delivery rt r' w3 = (r2, w2)" by fastforce
  from assms o b e have "res' = res" "w2 = w'" by (simp_all add: dispatch_def Let_def)
  with o b e show thesis by (auto intro: that)
qed

text \<open>The parts of \<open>dispatch\<close> around its body call the clock and the tracer only.\<close>

lemma outer_keeps:
  assumes now: "\<And>x. calls (snd (os_now rt x)) = calls x" and start: "\<And>t x. calls (snd (otel_start rt t x)) = calls x"
  shows "dispatch_open rt c x topic md w = (x', ids, r, w') \<Longrightarrow> calls (outside w') = calls (outside w)"
    and "calls (outside (dispatch_received rt c topic md w)) = calls (outside w)"
    and "end_delivery rt r1 w = (r2, w2) \<Longrightarrow> calls (outside w2) = calls (outside w)"
proof -
  show "dispatch_open rt c x topic md w = (x', ids, r, w') \<Longrightarrow> calls (outside w') = calls (outside w)"
    by (auto simp: dispatch_open_def Let_def out_def split: prod.splits) (metis now start snd_conv)
  show "calls (outside (dispatch_received rt c topic md w)) = calls (outside w)"
    by (auto simp: dispatch_received_def Let_def out_def split: option.splits prod.splits) (metis now snd_conv)
  show "end_delivery rt r1 w = (r2, w2) \<Longrightarrow> calls (outside w2) = calls (outside w)"
    using now [of "outside w"]
    by (cases "dr_kind r1") (auto simp: end_delivery_def Let_def out_def split: prod.splits option.splits if_splits)
qed

lemma outer_calls:
  assumes "counts_only_handlers calls rt c ctx"
  shows "dispatch_open rt c x topic md w = (x', ids, r, w') \<Longrightarrow> calls (outside w') = calls (outside w)"
    and "calls (outside (dispatch_received rt c topic md w)) = calls (outside w)"
    and "end_delivery rt r1 w = (r2, w2) \<Longrightarrow> calls (outside w2) = calls (outside w)"
  using assms outer_keeps [where calls = calls and rt = rt] by (simp_all add: counts_only_handlers_def)

lemma dispatch_calls:
  assumes "dispatch rt c ctx topic payload md w = (res, w')"
    and "inst_live (co_inst c)" and calm: "counts_only_handlers calls rt c ctx"
  shows "(case decide c topic payload md of
            Invoke h k env \<Rightarrow> calls (outside w) + 1 \<le> calls (outside w')
              \<and> calls (outside w') \<le> calls (outside w) + 1 + nat (maxRetries c)
          | _ \<Rightarrow> calls (outside w') = calls (outside w))"
proof -
  from assms(1) obtain ctx' ids r w1 r' w3 r2 where o: "dispatch_open rt c ctx topic md w = (ctx', ids, r, w1)"
    and b: "dispatch_body rt c ctx' topic payload md (dispatch_logger c payload md ids) r
       (dispatch_received rt c topic md w1) = (res, r', w3)"
    and e: "end_delivery rt r' w3 = (r2, w')" by (rule dispatch_parts)
  from dispatch_body_calls [OF b assms(2) dispatch_open_frame(4) [OF o]
      counts_ctx_cong [OF dispatch_open_frame(11) [OF o] calm]]
  show ?thesis unfolding outer_calls(1) [OF calm o] outer_calls(2) [OF calm] outer_calls(3) [OF calm e] .
qed

lemma deliveryAttempt_stamped:
  assumes "1 \<le> i" and "i < 2 ^ 63"
  shows "deliveryAttempt (md(MetadataDeliveryAttempt \<mapsto> FormatInt i)) = i"
proof -
  have "int64 i" using assms by (simp add: int64_def)
  from ParseInt_FormatInt [OF this] assms(1) show ?thesis by (simp add: deliveryAttempt_def md_get_def)
qed

section \<open>How long a delivery sleeps\<close>

definition rand_in_range :: "'w runtime \<Rightarrow> bool" where
  "rand_in_range rt \<longleftrightarrow> (\<forall>n w. 0 < n \<longrightarrow> 0 \<le> fst (os_rand rt n w) \<and> fst (os_rand rt n w) < n)"

lemma sleepWithJitter_sleeps:
  assumes "sleepWithJitter rt ctx upper w = (woke, w')" and "rand_in_range rt"
  shows "\<exists>ss. sleeps w' = sleeps w @ ss \<and> sum_list ss \<le> max 0 upper \<and> list_all (\<lambda>d. 0 \<le> d) ss"
  using assms(1) assms(2) [unfolded rand_in_range_def, rule_format, of upper "outside w"]
  by (auto simp: sleepWithJitter_guarded Let_def out_def split: if_splits prod.splits)

lemma retry_loop_sleeps:
  assumes "retry_loop rt c ctx topic payload attempt handler env lg i r w = (res, r', w')"
    and "rand_in_range rt" and wf: "retry_wf (cfg_Retry (co_cfg c))" and "0 \<le> i"
  shows "\<exists>ss. sleeps w' = sleeps w @ ss
    \<and> sum_list ss \<le> (\<Sum>j<nat (maxRetries c - i). backoffUpperBound (cfg_Retry (co_cfg c)) (i + int j))"
  using assms(1,4)
proof (induction "nat (maxRetries c - i)" arbitrary: i w rule: less_induct)
  case less
  let ?b = "\<lambda>i. backoffUpperBound (cfg_Retry (co_cfg c)) i"
  have nonneg: "0 \<le> ?b (i + int j)" for j
    using retry.bound_nonneg [OF wf, of "nat i + j"] less.prems(2) by simp
  have up: "max 0 (retry_upper c r i) \<le> ?b i"
    using nonneg [of 0] by (simp add: retry_upper_def split: option.split)
  have sum0: "0 \<le> (\<Sum>j<n. ?b (i + int j))" for n by (intro sum_nonneg nonneg)
  have suc: "(\<Sum>j<nat (maxRetries c - i). ?b (i + int j)) =
      ?b i + (\<Sum>j<nat (maxRetries c - (i + 1)). ?b (i + 1 + int j))" if "i < maxRetries c"
  proof -
    have "nat (maxRetries c - i) = Suc (nat (maxRetries c - (i + 1)))" using that by simp
    then show ?thesis by (simp add: sum.lessThan_Suc_shift add.assoc del: sum.lessThan_Suc)
  qed
  from less.prems(1) show ?case
  proof (cases rule: retry_loop_cases)
    case (permanent e w1 dl w3 err)
    have "sleeps w' = sleeps w"
      using deadLetter_frame [OF permanent(4)] newDeadLetter_frame(4) [OF permanent(3)] out_frame [OF permanent(1)]
      by simp
    with sum0 show ?thesis by simp
  next
    case (abandoned e w1)
    obtain ss where "sleeps w' = sleeps w @ ss" "sum_list ss \<le> max 0 (retry_upper c r i)"
      using sleepWithJitter_sleeps [OF abandoned(6) assms(2)] out_frame [OF abandoned(1)] by auto
    moreover have "0 \<le> (\<Sum>j<nat (maxRetries c - (i + 1)). ?b (i + 1 + int j))"
      using nonneg by (intro sum_nonneg) (metis add.assoc of_nat_Suc add.commute)
    ultimately show ?thesis
      using up suc [OF abandoned(3)] by (intro exI [of _ ss]) linarith
  next
    case (again e w1 w4)
    obtain ss where "sleeps w4 = sleeps w @ ss" "sum_list ss \<le> max 0 (retry_upper c r i)"
      using sleepWithJitter_sleeps [OF again(4) assms(2)] out_frame [OF again(1)] by auto
    moreover obtain ts where "sleeps w' = sleeps w4 @ ts"
        "sum_list ts \<le> (\<Sum>j<nat (maxRetries c - (i + 1)). ?b (i + 1 + int j))"
      using less.hyps [OF _ again(5)] again(3) less.prems(2) by auto
    ultimately have "sleeps w' = sleeps w @ ss @ ts"
      "sum_list ss + sum_list ts \<le> (\<Sum>j<nat (maxRetries c - i). ?b (i + int j))"
      using up unfolding suc [OF again(3)] by (simp, linarith)
    then show ?thesis by (intro exI [of _ "ss @ ts"]) simp
  qed (use sum0 in \<open>auto dest!: out_frame\<close>)
qed

lemma dead_letter_exit_sleeps:
  "undeserializable rt c ctx topic payload attempt msg lg doing e r w = (res, r', w') \<Longrightarrow> sleeps w' = sleeps w"
  "dispatch_capped rt c ctx topic payload attempt lg r w = (res, r', w') \<Longrightarrow> sleeps w' = sleeps w"
  by (auto simp: undeserializable_def dispatch_capped_def Let_def split: prod.splits
      dest!: deadLetter_frame newDeadLetter_frame(4))

lemma dispatch_sleeps:
  assumes "dispatch rt c ctx topic payload md w = (res, w')" and "rand_in_range rt"
    and wf: "retry_wf (cfg_Retry (co_cfg c))"
  shows "\<exists>ss. sleeps w' = sleeps w @ ss
    \<and> sum_list ss \<le> (\<Sum>j<nat (maxRetries c). backoffUpperBound (cfg_Retry (co_cfg c)) (int j))"
proof -
  let ?B = "\<Sum>j<nat (maxRetries c). backoffUpperBound (cfg_Retry (co_cfg c)) (int j)"
  have B: "0 \<le> ?B" by (intro sum_nonneg retry.bound_nonneg wf)
  from assms(1) obtain ctx' ids r w1 r' w3 r2 where o: "dispatch_open rt c ctx topic md w = (ctx', ids, r, w1)"
    and b: "dispatch_body rt c ctx' topic payload md (dispatch_logger c payload md ids) r
       (dispatch_received rt c topic md w1) = (res, r', w3)"
    and e: "end_delivery rt r' w3 = (r2, w')" by (rule dispatch_parts)
  have outer: "sleeps w' = sleeps w3" "sleeps w1 = sleeps w"
    using end_delivery_frame [OF e] dispatch_open_frame(3) [OF o] by auto
  have "\<exists>ss. sleeps w3 = sleeps w1 @ ss \<and> sum_list ss \<le> ?B"
  proof (cases "decide c topic payload md")
    case (Invoke h k env)
    from b [unfolded dispatch_body_decide runWithRetry_def Let_def Invoke decision.case]
      retry_loop_sleeps [OF _ assms(2) wf, where i = 0 and w' = w3]
    show ?thesis by fastforce
  qed (use b B dead_letter_exit_sleeps in \<open>fastforce simp: dispatch_body_decide Let_def\<close>)+
  then show ?thesis by (simp add: outer)
qed

text \<open>
  C14. A delivery cannot sleep itself into being reclaimed. For a consumer whose configuration passed
  both validators and whose backoff arithmetic fits in 64 bits, the backoff timers of one delivery
  add up to less than \<open>ClaimMinIdle\<close>, whatever the handler, the sink and the random source do,
  provided \<open>rand.Int64N(n)\<close> returns a value in \<open>[0, n)\<close>.
\<close>

theorem dispatch_sleep_below_claim_idle:
  assumes "consumer_wf c" and "rand_in_range rt"
    and "rt_MaxBackoff (cfg_Retry (co_cfg c)) \<le> 2 ^ 62"
    and "rt_MaxImmediateRetries (cfg_Retry (co_cfg c)) * rt_MaxBackoff (cfg_Retry (co_cfg c)) < 2 ^ 63"
  shows "\<exists>ss. sleeps (snd (dispatch rt c ctx topic payload md w)) = sleeps w @ ss
    \<and> sum_list ss < cc_ClaimMinIdle (cfg_Consumer (co_cfg c))"
proof -
  let ?r = "cfg_Retry (co_cfg c)"
  have ok: "retry_ok ?r" "worstCaseBackoff ?r < cc_ClaimMinIdle (cfg_Consumer (co_cfg c))"
    using assms(1) by (simp_all add: consumer_wf_def config_ok_def consumer_ok_def Let_def)
  then have wf: "retry_wf ?r" and n: "0 \<le> rt_MaxImmediateRetries ?r"
    using assms(3) by (simp_all add: retry_wf_def retry_ok_def)
  have "worstCaseBackoff ?r = (\<Sum>j<nat (rt_MaxImmediateRetries ?r). backoffUpperBound ?r (int j))"
    unfolding worstCaseBackoff_def using worst_case_loop_sum [OF wf, of 0] n assms(4) by simp
  with dispatch_sleeps [OF prod.collapse [symmetric] assms(2) wf, of ctx topic payload md w] ok(2)
  show ?thesis by fastforce
qed

section \<open>Retrying until it works\<close>

text \<open>
  C22. Transient failures are absorbed. A handler that fails \<open>k\<close> times with retryable errors and then
  succeeds, with \<open>k\<close> within \<open>MaxImmediateRetries\<close> and no timer interrupted, ends the retry loop with
  a nil result and the outcome processed, after exactly \<open>k + 1\<close> invocations.
\<close>

theorem runWithRetry_absorbs_transient:
  assumes "\<And>w. calls w < calls0 + k \<Longrightarrow>
      \<exists>e w'. handler ctx env w = (Ret (Some e), w') \<and> IsRetryable (Some e) \<and> calls w' = Suc (calls w)"
    and "\<And>w. calls w = calls0 + k \<Longrightarrow> \<exists>w'. handler ctx env w = (Ret None, w') \<and> calls w' = Suc (calls w)"
    and "\<And>n w. calls (snd (os_rand rt n w)) = calls w"
    and "\<And>d w. fst (os_timer rt ctx d w) \<and> calls (snd (os_timer rt ctx d w)) = calls w"
    and "\<And>w. \<not> fst (os_ctx_err rt ctx w) \<and> calls (snd (os_ctx_err rt ctx w)) = calls w"
    and "int k \<le> rt_MaxImmediateRetries (cfg_Retry (co_cfg c))" and "calls (outside w) = calls0"
  shows "\<exists>w'. runWithRetry rt c ctx topic payload attempt handler env lg r w = (Ret None, processed r, w')
    \<and> calls (outside w') = calls0 + k + 1"
proof -
  have woke: "fst (sleepWithJitter rt ctx u v) = Ret True \<and> calls (outside (snd (sleepWithJitter rt ctx u v))) = calls (outside v)"
    for u v
    using assms(3) [of u "outside v"] assms(4,5)
    by (auto simp: sleepWithJitter_guarded Let_def out_def split_beta)
  have "\<exists>w'. retry_loop rt c ctx topic payload attempt handler env lg' i r w = (Ret None, processed r, w')
      \<and> calls (outside w') = calls0 + k + 1"
    if "calls (outside w) = calls0 + (k - j)" "j \<le> k" "i = int (k - j)" for i j w lg'
    using that
  proof (induction j arbitrary: i w)
    case 0
    then obtain w' where "handler ctx env (outside w) = (Ret None, w')" "calls w' = Suc (calls (outside w))"
      using assms(2) [of "outside w"] by auto
    with 0 show ?case by (subst retry_loop.simps) (simp add: out_def)
  next
    case (Suc j)
    then obtain e w' where h: "handler ctx env (outside w) = (Ret (Some e), w')" "IsRetryable (Some e)"
        "calls w' = Suc (calls (outside w))"
      using assms(1) [of "outside w"] by auto
    then have c: "\<not> IsDiscard (Some e)" "\<not> IsPermanent (Some e)" by (simp_all add: IsRetryable_iff)
    let ?v = "record_retry (i + 1) e r (log_at LDebug ''messaging: retrying handler''
      (lg' @ [(''immediate_attempt'', AInt (i + 1)), (''error'', AErr e)]) (w\<lparr>outside := w'\<rparr>))"
    obtain v where s: "sleepWithJitter rt ctx (retry_upper c r i) ?v = (Ret True, v)" "calls (outside v) = calls w'"
      using woke [of "retry_upper c r i" ?v] by (cases "sleepWithJitter rt ctx (retry_upper c r i) ?v") auto
    have "\<not> rt_MaxImmediateRetries (cfg_Retry (co_cfg c)) \<le> i" using Suc.prems assms(6) by simp
    with h c s have "retry_loop rt c ctx topic payload attempt handler env lg' i r w =
        retry_loop rt c ctx topic payload attempt handler env lg' (i + 1) r v"
      by (simp add: retry_loop.simps [of _ _ _ _ _ _ _ _ _ i] out_def Let_def retry_upper_def [symmetric])
    with Suc.IH [of v "i + 1"] Suc.prems h(3) s(2) show ?case by fastforce
  qed
  from this [where j = k and i = 0 and w = w] assms(7) show ?thesis by (simp add: runWithRetry_def)
qed

section \<open>Where a panic can come from\<close>

lemma retry_loop_returns:
  assumes "retry_loop rt c ctx topic payload attempt handler env lg i r w = (res, r', w')"
    and calm: "\<And>v. fst (handler ctx env v) \<noteq> Panic"
  shows "res \<noteq> Panic"
  using assms(1)
proof (induction "nat (maxRetries c - i)" arbitrary: i w rule: less_induct)
  case less
  from less.prems show ?case
  proof (cases rule: retry_loop_cases)
    case panic
    then have "fst (handler ctx env (outside w)) = Panic" by (auto simp: out_def split: prod.splits)
    with calm show ?thesis by blast
  next
    case (again e w1 w4)
    show ?thesis by (rule less.hyps [OF _ again(5)]) (use again(3) in simp)
  qed simp_all
qed

text \<open>The handler \<open>dispatch\<close> invokes is registered for the message, and the message is fit for it.\<close>

lemma invoked_handler:
  assumes "decide c topic payload md = Invoke h k env"
  shows "(\<exists>key. (key, h) \<in> set (reg_typed (co_registry c))
        \<and> typed_may_assume c topic payload md key (contextWithCorrelationID x (ev_CorrelationID env)) env)
    \<or> ((topic, h) \<in> set (reg_raw (co_registry c))
        \<and> raw_may_assume c topic payload md topic (contextWithCorrelationID x (ev_CorrelationID env)) env)"
proof -
  from assms obtain major where env: "Unmarshal_envelope payload = Inr env" "validateEnvelope env = None"
      "deliveryAttempt md \<le> cc_MaxDeliveryAttempts (cfg_Consumer (co_cfg c))"
    and major: "majorVersion (ev_SchemaVersion env) = Inr major"
    and l: "lookup (co_registry c) topic (ev_EventType env) major = (Some h, k)"
    by (auto simp: decide_def split: if_splits sum.splits option.splits prod.splits)
  let ?key = "\<lparr>rk_topic = topic, rk_eventType = ev_EventType env, rk_major = major\<rparr>"
  have fit: "handler_may_assume c payload md (contextWithCorrelationID x (ev_CorrelationID env)) env"
    using env by (simp add: handler_may_assume_def)
  from l consider "map_of (reg_typed (co_registry c)) ?key = Some h" | "map_of (reg_raw (co_registry c)) topic = Some h"
    by (auto simp: lookup_def split: option.splits)
  then show ?thesis
  proof cases
    case 1
    with fit major show ?thesis by (auto simp: typed_may_assume_def dest!: map_of_SomeD intro!: exI [of _ ?key])
  next
    case 2
    with fit show ?thesis by (auto simp: raw_may_assume_def dest!: map_of_SomeD)
  qed
qed

text \<open>
  C16. The library itself never panics in a delivery. If every registered handler returns, with nil or
  an error, on the events it may be given (within the cap, decoded, valid, of its topic and, for a typed
  one, its type and major version, with the correlation id on the context), then so does \<open>dispatch\<close>,
  whatever bytes arrive and whatever the configuration is; \<open>rand.Int64N\<close> in particular is never
  called with a bound it panics on.
\<close>

theorem dispatch_never_panics:
  assumes "\<And>key h x env v. (key, h) \<in> set (reg_typed (co_registry c)) \<Longrightarrow>
      typed_may_assume c topic payload md key x env \<Longrightarrow> fst (h x env v) \<noteq> Panic"
    and "\<And>t h x env v. (t, h) \<in> set (reg_raw (co_registry c)) \<Longrightarrow>
      raw_may_assume c topic payload md t x env \<Longrightarrow> fst (h x env v) \<noteq> Panic"
  shows "fst (dispatch rt c ctx topic payload md w) \<noteq> Panic"
proof -
  obtain ctx' ids r w1 where b: "fst (dispatch rt c ctx topic payload md w) =
      fst (dispatch_body rt c ctx' topic payload md (dispatch_logger c payload md ids) r w1)" by (rule fst_dispatch)
  show ?thesis
  proof (cases "decide c topic payload md")
    case (Invoke h k env)
    let ?x = "contextWithCorrelationID ctx' (ev_CorrelationID env)"
    have h: "fst (h ?x env v) \<noteq> Panic" for v
      using invoked_handler [OF Invoke, of ctx'] assms(1) [of _ h ?x env v] assms(2) [of _ h ?x env v] by blast
    have "fst (retry_loop rt c ?x topic payload a h env lg i r w) \<noteq> Panic" for a lg i r w
    proof -
      obtain res r' w' where l: "retry_loop rt c ?x topic payload a h env lg i r w = (res, r', w')" by (rule prod_cases3)
      have "res \<noteq> Panic" by (rule retry_loop_returns [OF l]) (rule h)
      with l show ?thesis by simp
    qed
    then show ?thesis using b Invoke by (simp add: dispatch_body_decide runWithRetry_def Let_def)
  qed (use b in \<open>simp_all add: dispatch_body_decide dispatch_capped_def undeserializable_def Let_def split_beta\<close>)
qed

end
