(* ===== verification/Delivery_Telemetry.thy ===== *)
theory Delivery_Telemetry
  imports Delivery_Bounds
begin

text \<open>
  What the telemetry of a delivery carries: bounded labels, no \<open>payload\<close> attribute outside the
  logs, the probe's verdict, and when a dead letter counts as written.
\<close>

section \<open>What telemetry reveals\<close>

definition attr_keys :: "(string \<times> 'v) list \<Rightarrow> string set" where
  "attr_keys as = fst ` set as"

fun span_keys :: "span_op \<Rightarrow> string set" where
  "span_keys (SpanStart n as) = attr_keys as"
| "span_keys (SpanSetAttributes as) = attr_keys as"
| "span_keys (SpanAddEvent n as) = attr_keys as"
| "span_keys _ = {}"

text \<open>
  \<open>tidy T lp w w'\<close>: on the way from \<open>w\<close> to \<open>w'\<close> every metric point carries as \<open>event_type\<close> only
  values of \<open>T\<close> and no payload, no span operation carries a payload, and log lines do only if
  \<open>lp\<close>.
\<close>

definition tidy_point :: "string set \<Rightarrow> point \<Rightarrow> bool" where
  "tidy_point T p \<longleftrightarrow> list_all (\<lambda>(k, v). k \<noteq> ''payload'' \<and> (k = ''event_type'' \<longrightarrow> v \<in> T)) (pt_attrs p)"

definition tidy :: "string set \<Rightarrow> bool \<Rightarrow> 'w world \<Rightarrow> 'w world \<Rightarrow> bool" where
  "tidy T lp w w' \<longleftrightarrow> (\<exists>ps ls os. metrics w' = metrics w @ ps \<and> logs w' = logs w @ ls
     \<and> span_ops w' = span_ops w @ os \<and> list_all (tidy_point T) ps
     \<and> list_all (\<lambda>l. lp \<or> ''payload'' \<notin> attr_keys (ll_attrs l)) ls
     \<and> list_all (\<lambda>s. ''payload'' \<notin> span_keys s) os)"

lemma tidy_refl [simp]: "tidy T lp w w"
  by (simp add: tidy_def)

lemma tidy_trans: "tidy T lp w w1 \<Longrightarrow> tidy T lp w1 w2 \<Longrightarrow> tidy T lp w w2"
  unfolding tidy_def
proof (elim exE conjE)
  fix ps ls os ps' ls' os'
  assume "metrics w1 = metrics w @ ps" "logs w1 = logs w @ ls" "span_ops w1 = span_ops w @ os"
    "list_all (tidy_point T) ps" "list_all (\<lambda>l. lp \<or> ''payload'' \<notin> attr_keys (ll_attrs l)) ls"
    "list_all (\<lambda>s. ''payload'' \<notin> span_keys s) os"
    and "metrics w2 = metrics w1 @ ps'" "logs w2 = logs w1 @ ls'" "span_ops w2 = span_ops w1 @ os'"
    "list_all (tidy_point T) ps'" "list_all (\<lambda>l. lp \<or> ''payload'' \<notin> attr_keys (ll_attrs l)) ls'"
    "list_all (\<lambda>s. ''payload'' \<notin> span_keys s) os'"
  then show "\<exists>ps ls os. metrics w2 = metrics w @ ps \<and> logs w2 = logs w @ ls
     \<and> span_ops w2 = span_ops w @ os \<and> list_all (tidy_point T) ps
     \<and> list_all (\<lambda>l. lp \<or> ''payload'' \<notin> attr_keys (ll_attrs l)) ls
     \<and> list_all (\<lambda>s. ''payload'' \<notin> span_keys s) os"
    by (intro exI [of _ "ps @ ps'"] exI [of _ "ls @ ls'"] exI [of _ "os @ os'"]) simp
qed

lemma tidy_same:
  "metrics w' = metrics w \<Longrightarrow> logs w' = logs w \<Longrightarrow> span_ops w' = span_ops w \<Longrightarrow> tidy T lp w w'"
  by (simp add: tidy_def)

lemma tidy_out: "out f w = (a, w') \<Longrightarrow> tidy T lp w w'"
  by (drule out_frame) (simp add: tidy_same)

lemma tidy_log: "lp \<or> ''payload'' \<notin> attr_keys as \<Longrightarrow> tidy T lp w (log_at l m as w)"
  by (simp add: tidy_def log_at_def)

lemma tidy_span: "''payload'' \<notin> span_keys s \<Longrightarrow> tidy T lp w (span_op s w)"
  by (simp add: tidy_def span_op_def)

lemma tidy_add_point:
  "inst_live inst \<longrightarrow> tidy_point T \<lparr>pt_instrument = i, pt_value = v, pt_attrs = as\<rparr> \<Longrightarrow> tidy T lp w (add_point inst i v as w)"
  by (simp add: tidy_def)

lemma tidy_consumeAttrs:
  "et = [] \<or> et \<in> T \<Longrightarrow> tidy_point T \<lparr>pt_instrument = i, pt_value = v, pt_attrs = extra\<rparr> \<Longrightarrow>
   tidy_point T \<lparr>pt_instrument = i, pt_value = v, pt_attrs = consumeAttrs topic grp et extra\<rparr>"
  by (auto simp: tidy_point_def consumeAttrs_def)

lemma attr_keys_simps [simp]:
  "attr_keys [] = {}" "attr_keys ((k, v) # as) = insert k (attr_keys as)"
  "attr_keys (as @ bs) = attr_keys as \<union> attr_keys bs"
  by (auto simp: attr_keys_def)

lemma tidy_log_ext:
  "lp \<or> ''payload'' \<notin> attr_keys lg \<Longrightarrow> ''payload'' \<notin> attr_keys as \<Longrightarrow> tidy T lp w (log_at l m (lg @ as) w)"
  by (rule tidy_log) simp

lemma tidy_counted_log:
  "tidy_point T \<lparr>pt_instrument = i, pt_value = v, pt_attrs = at\<rparr> \<Longrightarrow> ''payload'' \<notin> attr_keys as \<Longrightarrow>
   tidy T lp w (log_at l m as (add_point inst i v at w))"
  by (rule tidy_trans [OF tidy_add_point tidy_log]) simp_all

lemma tidy_deadLetter:
  assumes "deadLetter rt c ctx topic dl w = (err, w')"
  shows "tidy T lp w w'"
proof (cases "sink_for c ctx = None \<or> isl (Marshal_dead_letter dl)")
  case True
  with assms have "w' = w" by (auto simp: deadLetter_def Let_def split: option.splits sum.splits)
  then show ?thesis by simp
next
  case False
  then obtain sink body where s: "sink_for c ctx = Some sink" "Marshal_dead_letter dl = Inr body"
    by (auto simp: isl_def) (metis sum.exhaust)
  obtain e w1 where p: "out (publish_sink rt sink (ctx_values.truncate ctx) (dlqStream c topic) body) w = (e, w1)"
    by fastforce
  have at: "tidy_point T \<lparr>pt_instrument = i, pt_value = v, pt_attrs = consumeAttrs topic g [] [(''reason'', rs)]\<rparr>" for i v g rs
    by (intro tidy_consumeAttrs) (simp_all add: tidy_point_def)
  have "tidy T lp w1 w'"
    using assms s p at by (cases e) (auto simp: deadLetter_def Let_def intro!: tidy_counted_log)
  then show ?thesis by (rule tidy_trans [OF tidy_out [OF p]])
qed

lemma tidy_newDeadLetter: "newDeadLetter rt c topic reason cause attempt w = (dl, w') \<Longrightarrow> tidy T lp w w'"
  by (rule tidy_same) (simp_all add: newDeadLetter_frame)

lemma tidy_sleep: "sleepWithJitter rt ctx upper w = (woke, w') \<Longrightarrow> tidy T lp w w'"
  by (rule tidy_same) (simp_all add: sleepWithJitter_frame)

lemma tidy_record_retry:
  assumes "dr_eventType r = [] \<or> dr_eventType r \<in> T"
  shows "tidy T lp w (record_retry n e r w)"
proof -
  have "tidy_point T \<lparr>pt_instrument = Retries, pt_value = 1,
      pt_attrs = consumeAttrs (dr_topic r) (dr_group r) (dr_eventType r) []\<rparr>"
    using assms by (intro tidy_consumeAttrs) (simp_all add: tidy_point_def)
  then show ?thesis
    by (auto simp: record_retry_def Let_def intro!: tidy_trans [OF tidy_add_point tidy_span])
qed

lemma tidy_retry_loop:
  assumes "retry_loop rt c ctx topic payload attempt handler env lg i r w = (res, r', w')"
    and "dr_eventType r = [] \<or> dr_eventType r \<in> T" and "lp \<or> ''payload'' \<notin> attr_keys lg"
  shows "tidy T lp w w' \<and> dr_eventType r' = dr_eventType r"
  using assms(1)
proof (induction "nat (maxRetries c - i)" arbitrary: i w rule: less_induct)
  case less
  have retried: "tidy T lp w w4" if "out (handler ctx env) w = (Ret (Some e), w1)"
    "sleepWithJitter rt ctx u (record_retry (i + 1) e r (log_at LDebug ''messaging: retrying handler''
       (lg @ [(''immediate_attempt'', AInt (i + 1)), (''error'', AErr e)]) w1)) = (woke, w4)" for e w1 u woke w4
    by (rule tidy_trans [OF tidy_trans [OF tidy_trans [OF tidy_out [OF that(1)] tidy_log]
          tidy_record_retry] tidy_sleep [OF that(2)]]) (use assms(2,3) in auto)
  from less.prems show ?case
  proof (cases rule: retry_loop_cases)
    case (permanent e w1 dl w3 err)
    have "tidy T lp w w'"
      by (rule tidy_trans [OF tidy_trans [OF tidy_trans [OF tidy_out [OF permanent(1)] tidy_log]
            tidy_newDeadLetter [OF permanent(3)]] tidy_deadLetter [OF permanent(4)]]) (use assms(3) in auto)
    with permanent show ?thesis by (simp add: failed_def)
  next
    case (abandoned e w1)
    with retried show ?thesis by (auto simp: failed_def)
  next
    case (again e w1 w4)
    have "tidy T lp w4 w' \<and> dr_eventType r' = dr_eventType r"
      using less.hyps [OF _ again(5)] again(3) by simp
    with retried [OF again(1,4)] show ?thesis by (auto intro: tidy_trans)
  qed (auto simp: processed_def skipped_def failed_def
      intro: tidy_out tidy_trans [OF tidy_out tidy_log_ext [OF assms(3)]])
qed

lemma tidy_undeserializable:
  assumes "undeserializable rt c ctx topic payload attempt msg lg doing e r w = (res, r', w')"
    and lg: "lp \<or> ''payload'' \<notin> attr_keys lg"
  shows "tidy T lp w w' \<and> dr_eventType r' = dr_eventType r"
proof -
  obtain dl w1 err where dl: "newDeadLetter rt c topic ReasonDeserializationFailed
      (WrapError [Lit doing, Quoted topic, Lit '': ''] e) attempt
      (log_at LError msg (lg @ [(''error'', AErr e)]) w) = (dl, w1)"
    and d: "deadLetter rt c ctx topic (dl\<lparr>dl_EventRaw := payload\<rparr>) w1 = (err, w')"
    and r: "r' = failed ''deserialization'' (Some e) r"
    using assms(1) by (auto simp: undeserializable_def Let_def split: prod.splits)
  have "tidy T lp w w'"
    by (rule tidy_trans [OF tidy_trans [OF tidy_log_ext [OF lg] tidy_newDeadLetter [OF dl]] tidy_deadLetter [OF d]]) simp
  with r show ?thesis by (simp add: failed_def)
qed

lemma tidy_capped:
  assumes "dispatch_capped rt c ctx topic payload attempt lg r w = (res, r', w')"
    and lg: "lp \<or> ''payload'' \<notin> attr_keys lg"
  shows "tidy T lp w w' \<and> dr_eventType r' = dr_eventType r"
proof -
  define cap where "cap = cc_MaxDeliveryAttempts (cfg_Consumer (co_cfg c))"
  define cause where "cause = ErrorString [Lit ''delivery attempt '', Dec attempt,
    Lit '' exceeded MaxDeliveryAttempts '', Dec cap]"
  obtain dl w1 err where dl: "newDeadLetter rt c topic ReasonMaxAttemptsExceeded cause attempt
      (log_at LWarn ''messaging: delivery attempt cap exceeded''
        (lg @ [(''topic'', AStr topic), (''max_delivery_attempts'', AInt cap)]) w) = (dl, w1)"
    and d: "deadLetter rt c ctx topic (dl\<lparr>dl_Event := fst (deadLetterBody payload),
      dl_EventRaw := snd (deadLetterBody payload)\<rparr>) w1 = (err, w')"
    and r: "r' = failed ''max_attempts'' (Some cause) r"
    using assms(1)
    by (auto simp: dispatch_capped_def Let_def cap_def [symmetric] cause_def [symmetric] split: prod.splits)
  have "tidy T lp w w'"
    by (rule tidy_trans [OF tidy_trans [OF tidy_log_ext [OF lg] tidy_newDeadLetter [OF dl]] tidy_deadLetter [OF d]]) simp
  with r show ?thesis by (simp add: failed_def)
qed

lemma tidy_span_attempt: "tidy T lp w (span_attempt md w)" "tidy T lp w (span_envelope env w)"
  by (simp_all add: span_attempt_def span_envelope_def tidy_span)

lemma tidy_dispatch_body:
  assumes "dispatch_body rt c ctx topic payload md lg r w = (res, r', w')"
    and "lp \<or> ''payload'' \<notin> attr_keys lg" and "dr_eventType r = []"
    and T: "T = rk_eventType ` fst ` set (reg_typed (co_registry c))"
  shows "tidy T lp w w' \<and> (dr_eventType r' = [] \<or> dr_eventType r' \<in> T)"
proof (cases "decide c topic payload md")
  case OverCap
  with assms(1) have "dispatch_capped rt c ctx topic payload (deliveryAttempt md) lg r (span_attempt md w) = (res, r', w')"
    by (simp add: dispatch_body_decide Let_def)
  from tidy_capped [OF this assms(2)] assms(3) show ?thesis
    by (auto intro: tidy_trans [OF tidy_span_attempt(1)])
next
  case (Invoke h k env)
  let ?r = "if k = MatchTyped then setEventType (ev_EventType env) r else r"
  have "k = MatchTyped \<Longrightarrow> ev_EventType env \<in> T"
    using Invoke unfolding T
    by (auto simp: decide_def lookup_def split: if_splits sum.splits option.splits dest!: map_of_SomeD
        intro!: rev_image_eqI)
  then have et: "dr_eventType ?r = [] \<or> dr_eventType ?r \<in> T"
    using assms(3) by (simp add: setEventType_def)
  from assms(1) Invoke obtain lg' where l: "retry_loop rt c (contextWithCorrelationID ctx (ev_CorrelationID env))
      topic payload (deliveryAttempt md) h env lg' 0 ?r (span_envelope env (span_attempt md w)) = (res, r', w')"
    and lg': "attr_keys lg' = attr_keys lg \<union> {''topic'', ''event_type'', ''schema_version'', ''event_id'', ''delivery_attempt''}"
    by (auto simp: dispatch_body_decide runWithRetry_def Let_def)
  have "lp \<or> ''payload'' \<notin> attr_keys lg'" using assms(2) lg' by simp
  from tidy_retry_loop [OF l et this] et show ?thesis
    by (auto intro: tidy_trans [OF tidy_trans [OF tidy_span_attempt(1) tidy_span_attempt(2)]])
next
  case (NoHandler env)
  with assms(1) have w': "r' = skipped ''no_handler'' r" "w' = log_at LDebug ''messaging: no handler for event''
      (lg @ [(''topic'', AStr topic), (''event_type'', AStr (ev_EventType env)),
        (''schema_version'', AStr (ev_SchemaVersion env)), (''event_id'', AStr (ev_EventID env))])
      (span_envelope env (span_attempt md w))"
    by (simp_all add: dispatch_body_decide Let_def)
  have "tidy T lp w w'"
    unfolding w'(2)
    by (rule tidy_trans [OF tidy_trans [OF tidy_span_attempt(1) tidy_span_attempt(2)] tidy_log_ext [OF assms(2)]]) simp
  with w'(1) assms(3) show ?thesis by (simp add: skipped_def)
next
  case (Undecodable e)
  then have "tidy T lp (span_attempt md w) w' \<and> dr_eventType r' = dr_eventType r"
    using assms(2)
    by (intro tidy_undeserializable [OF assms(1) [unfolded dispatch_body_decide Let_def Undecodable decision.case]]) auto
  with assms(3) show ?thesis by (auto intro: tidy_trans [OF tidy_span_attempt(1)])
next
  case (InvalidEnvelope e env)
  then have "tidy T lp (span_envelope env (span_attempt md w)) w' \<and> dr_eventType r' = dr_eventType r"
    using assms(2)
    by (intro tidy_undeserializable [OF assms(1) [unfolded dispatch_body_decide Let_def InvalidEnvelope decision.case]]) auto
  with assms(3) show ?thesis by (auto intro: tidy_trans [OF tidy_trans [OF tidy_span_attempt(1) tidy_span_attempt(2)]])
next
  case (BadVersion e env)
  then have "tidy T lp (span_envelope env (span_attempt md w)) w' \<and> dr_eventType r' = dr_eventType r"
    using assms(2)
    by (intro tidy_undeserializable [OF assms(1) [unfolded dispatch_body_decide Let_def BadVersion decision.case]]) auto
  with assms(3) show ?thesis by (auto intro: tidy_trans [OF tidy_trans [OF tidy_span_attempt(1) tidy_span_attempt(2)]])
qed

lemma tidy_end_delivery:
  assumes "end_delivery rt r w = (r', w')" and "dr_eventType r = [] \<or> dr_eventType r \<in> T"
  shows "tidy T lp w w'"
proof (cases "dr_ended r")
  case True
  with assms(1) show ?thesis by (simp add: end_delivery_def)
next
  case False
  have base: "tidy_point T \<lparr>pt_instrument = i, pt_value = v,
      pt_attrs = consumeAttrs (dr_topic r) (dr_group r) et extra\<rparr>"
    if "et = [] \<or> et = dr_eventType r" "tidy_point T \<lparr>pt_instrument = i, pt_value = v, pt_attrs = extra\<rparr>" for i v et extra
    using that assms(2) by (intro tidy_consumeAttrs) auto
  have cat: "tidy_point T \<lparr>pt_instrument = i, pt_value = v,
      pt_attrs = consumeAttrs (dr_topic r) (dr_group r) (dr_eventType r) [] @ [(''error_category'', x)]\<rparr>" for i v x
    using base [of "dr_eventType r" i v "[]"] by (simp add: tidy_point_def)
  show ?thesis
    using assms(1) False base [of "dr_eventType r" _ _ "[]"] base [of "[]" Skipped 1 "[(''reason'', dr_reason r)]"] cat
    by (cases "dr_kind r")
      (auto simp: end_delivery_def Let_def out_def tidy_def recordFailure_def span_op_def log_at_def
        add_point_def tidy_point_def split: prod.splits option.splits)
qed

lemma tidy_dispatch:
  assumes "dispatch rt c ctx topic payload md w = (res, w')"
  shows "tidy (rk_eventType ` fst ` set (reg_typed (co_registry c))) (tc_LogPayloads (cfg_Telemetry (co_cfg c))) w w'"
    (is "tidy ?T ?lp w w'")
proof -
  from assms(1) obtain ctx' ids r w1 r' w3 r2 where o: "dispatch_open rt c ctx topic md w = (ctx', ids, r, w1)"
    and b: "dispatch_body rt c ctx' topic payload md (dispatch_logger c payload md ids) r
       (dispatch_received rt c topic md w1) = (res, r', w3)"
    and e: "end_delivery rt r' w3 = (r2, w')" by (rule dispatch_parts)
  have "tidy ?T ?lp w w1"
    using o by (auto simp: dispatch_open_def Let_def out_def tidy_def span_op_def split: prod.splits)
  moreover have "tidy ?T ?lp w1 (dispatch_received rt c topic md w1)"
    by (auto simp: dispatch_received_def Let_def out_def tidy_def add_point_def tidy_point_def
        split: option.splits prod.splits)
  moreover have "?lp \<or> ''payload'' \<notin> attr_keys (dispatch_logger c payload md ids)"
    by (simp add: dispatch_logger_def)
  note tidy_dispatch_body [OF b this dispatch_open_frame(10) [OF o] refl]
  ultimately show ?thesis using tidy_end_delivery [OF e, of ?T ?lp] by (blast intro: tidy_trans)
qed

text \<open>
  C25. The \<open>event_type\<close> label of the metrics is bounded by what was registered: whatever a producer
  writes, every value the metric points of a delivery carry under \<open>event_type\<close> is the event type of
  some typed registration.
\<close>

theorem dispatch_event_type_bounded:
  "\<exists>ps. metrics (snd (dispatch rt c ctx topic payload md w)) = metrics w @ ps
     \<and> snd ` Set.filter (\<lambda>(k, v). k = ''event_type'') (set (concat (map pt_attrs ps)))
         \<subseteq> rk_eventType ` fst ` set (reg_typed (co_registry c))"
proof -
  obtain ps where "metrics (snd (dispatch rt c ctx topic payload md w)) = metrics w @ ps"
      "list_all (tidy_point (rk_eventType ` fst ` set (reg_typed (co_registry c)))) ps"
    using tidy_dispatch [OF prod.collapse [symmetric], where rt = rt and c = c and ctx = ctx and topic = topic and payload = payload and md = md and w = w]
    by (auto simp: tidy_def)
  then show ?thesis
    by (intro exI [of _ ps]) (fastforce simp: tidy_point_def list_all_iff)
qed

text \<open>
  The attribute \<open>payload\<close> occurs in log lines only, and there only with \<open>LogPayloads\<close>; that no payload
  is recorded under another name either is shown in \<open>Payload_Confinement\<close>.
\<close>

lemma payload_attribute_confined:
  "\<exists>ps ls os. metrics (snd (dispatch rt c ctx topic payload md w)) = metrics w @ ps
     \<and> logs (snd (dispatch rt c ctx topic payload md w)) = logs w @ ls
     \<and> span_ops (snd (dispatch rt c ctx topic payload md w)) = span_ops w @ os
     \<and> ''payload'' \<notin> \<Union> (attr_keys ` pt_attrs ` set ps) \<union> \<Union> (span_keys ` set os)
     \<and> (\<not> tc_LogPayloads (cfg_Telemetry (co_cfg c)) \<longrightarrow> ''payload'' \<notin> \<Union> (attr_keys ` ll_attrs ` set ls))"
proof -
  from tidy_dispatch [OF prod.collapse [symmetric], where rt = rt and c = c and ctx = ctx and topic = topic and payload = payload and md = md and w = w]
  obtain ps ls os where "metrics (snd (dispatch rt c ctx topic payload md w)) = metrics w @ ps"
    "logs (snd (dispatch rt c ctx topic payload md w)) = logs w @ ls"
    "span_ops (snd (dispatch rt c ctx topic payload md w)) = span_ops w @ os"
    "list_all (tidy_point (rk_eventType ` fst ` set (reg_typed (co_registry c)))) ps"
    "list_all (\<lambda>l. tc_LogPayloads (cfg_Telemetry (co_cfg c)) \<or> ''payload'' \<notin> attr_keys (ll_attrs l)) ls"
    "list_all (\<lambda>s. ''payload'' \<notin> span_keys s) os"
    by (auto simp: tidy_def)
  moreover from this(4) have "''payload'' \<notin> attr_keys (pt_attrs p)" if "p \<in> set ps" for p
    using that by (fastforce simp: tidy_point_def list_all_iff attr_keys_def)
  ultimately show ?thesis
    by (intro exI [of _ ps] exI [of _ ls] exI [of _ os]) (auto simp: list_all_iff)
qed

section \<open>The probe and the dead-letter sink\<close>

text \<open>
  C27. A test probe cannot report an outcome production would not have: the verdict it receives names
  the terminal counter the same delivery incremented.
\<close>

theorem dispatch_probe_verdict:
  assumes "FromContext ctx = Some p" and "inst_live (co_inst c)"
  shows "\<exists>v ps n as. probe_out (snd (dispatch rt c ctx topic payload md w)) = Some v
    \<and> metrics (snd (dispatch rt c ctx topic payload md w)) = ps @ [\<lparr>pt_instrument = n, pt_value = 1, pt_attrs = as\<rparr>]
    \<and> (pv_Kind v, n) \<in> {(''processed'', Processed), (''skipped'', Skipped), (''failed'', Failed)}
    \<and> (n = Skipped \<longleftrightarrow> (''reason'', pv_Reason v) \<in> set as)"
proof -
  obtain res w' where d: "dispatch rt c ctx topic payload md w = (res, w')" by fastforce
  from d obtain ctx' ids r w1 r' w3 r2 where o: "dispatch_open rt c ctx topic md w = (ctx', ids, r, w1)"
    and b: "dispatch_body rt c ctx' topic payload md (dispatch_logger c payload md ids) r
       (dispatch_received rt c topic md w1) = (res, r', w3)"
    and e: "end_delivery rt r' w3 = (r2, w')" by (rule dispatch_parts)
  have "same_delivery r r'"
    using dispatch_body_settles [OF b assms(2) dispatch_open_frame(4) [OF o]] by (auto simp: settles_def)
  then have r': "\<not> dr_ended r'" "inst_live (dr_inst r')" "dr_probe r' = Some p"
    using dispatch_open_frame(4,6,7) [OF o] assms by (auto simp: same_delivery_def)
  have "probe_out w' = Some (verdict_of r')" using end_delivery_frame [OF e] r' by simp
  moreover obtain ps where "metrics w' = ps @
      [\<lparr>pt_instrument = terminal_of (dr_kind r'), pt_value = 1, pt_attrs = terminal_attrs r'\<rparr>]"
    using end_delivery_metrics [OF e r'(1,2)] by (metis append_Cons append_Nil append_assoc)
  moreover have "(pv_Kind (verdict_of r'), terminal_of (dr_kind r')) \<in>
      {(''processed'', Processed), (''skipped'', Skipped), (''failed'', Failed)}"
    by (cases "dr_kind r'") (simp_all add: verdict_of_def kindName_def terminal_of_def)
  moreover have "terminal_of (dr_kind r') = Skipped \<longleftrightarrow> (''reason'', pv_Reason (verdict_of r')) \<in> set (terminal_attrs r')"
    by (cases "dr_kind r'") (auto simp: verdict_of_def terminal_of_def terminal_attrs_def consumeAttrs_def)
  ultimately show ?thesis unfolding d by auto
qed

text \<open>
  \<open>deadLetter\<close> returns nil, which lets the caller acknowledge, exactly when there is a sink, the
  document marshals, and the sink accepted it on the topic's \<open>.dlq\<close> stream; a missing sink, an
  encoding failure and a publish failure all leave the event pending.
\<close>

lemma deadLetter_nil_iff_published:
  "fst (deadLetter rt c ctx topic dl w) = None \<longleftrightarrow>
     (\<exists>sink body. sink_for c ctx = Some sink \<and> Marshal_dead_letter dl = Inr body
        \<and> fst (publish_sink rt sink (ctx_values.truncate ctx)
                 (cfg_StreamPrefix (co_cfg c) @ '':'' @ topic @ ''.dlq'') body (outside w)) = None)"
  by (auto simp: deadLetter_def dlqStream_def streamName_def Let_def out_def split: option.splits sum.splits prod.splits)

end
