(* ===== verification/Samples.thy ===== *)
theory Samples
  imports Delivery_Telemetry
begin

text \<open>
  One concrete setting in which the properties of the delivery path are exercised: a runtime whose
  clock stands still and whose timers fire, a validated consumer with one typed handler, and one
  encoded event. The outside state is the number of handler invocations and of accepted dead
  letters.
\<close>

type_synonym tally = "nat \<times> nat"

definition sample_runtime :: "'w runtime" where
  "sample_runtime =
     \<lparr>os_now = (\<lambda>w. (\<lparr>ns_since_zero = 63900000000000000000, zone_offset = 0\<rparr>, w)),
      os_rand = (\<lambda>n w. (0, w)), os_timer = (\<lambda>ctx d w. (True, w)), os_ctx_err = (\<lambda>ctx w. (False, w)),
      os_uuid = (\<lambda>w. (Inr ''0197-id'', w)), otel_extract = (\<lambda>t md. t), otel_inject = (\<lambda>t md. md),
      otel_start = (\<lambda>t w. ((t, ''trace'', ''span''), w))\<rparr>"

definition sample_context :: "'w ctx" where
  "sample_context = \<lparr>ctx_correlationID = None, ctx_trace = [], ctx_probe = None\<rparr>"

definition sample_event :: bytes where
  "sample_event =
     ''{'' @ [CHR 0x22] @ ''event_id'' @ [CHR 0x22] @ '':'' @ [CHR 0x22] @ ''e1'' @ [CHR 0x22] @
      '','' @ [CHR 0x22] @ ''event_type'' @ [CHR 0x22] @ '':'' @ [CHR 0x22] @ ''a.b'' @ [CHR 0x22] @
      '','' @ [CHR 0x22] @ ''timestamp'' @ [CHR 0x22] @ '':'' @ [CHR 0x22] @ ''2025-01-01T00:00:00Z'' @
      [CHR 0x22] @ '','' @ [CHR 0x22] @ ''schema_version'' @ [CHR 0x22] @ '':'' @ [CHR 0x22] @ ''1.0.0'' @
      [CHR 0x22] @ '','' @ [CHR 0x22] @ ''correlation_id'' @ [CHR 0x22] @ '':'' @ [CHR 0x22] @ ''c1'' @
      [CHR 0x22] @ '','' @ [CHR 0x22] @ ''source'' @ [CHR 0x22] @ '':'' @ [CHR 0x22] @ ''s'' @ [CHR 0x22] @
      '','' @ [CHR 0x22] @ ''payload'' @ [CHR 0x22] @ '':1}''"

definition sample_envelope :: raw_envelope where
  "sample_envelope =
     \<lparr>ev_EventID = ''e1'', ev_EventType = ''a.b'',
      ev_Timestamp = \<lparr>ns_since_zero = 63871286400000000000, zone_offset = 0\<rparr>,
      ev_SchemaVersion = ''1.0.0'', ev_CorrelationID = ''c1'', ev_Source = ''s'', ev_Payload = ''1''\<rparr>"

lemma sample_event_decodes: "Unmarshal_envelope sample_event = Inr sample_envelope"
  by code_simp

lemma sample_event_valid: "Valid sample_event"
  by code_simp

lemma sample_validates: "validateEnvelope sample_envelope = None"
proof -
  have "segment ''a''" "segment ''b''"
    by (simp_all add: segment_def lower_def)
  then have "event_type_ok (''a'' @ ''.'' @ ''b'')" unfolding event_type_ok_def by blast
  moreover have "number ''1''" "number ''0''"
    by (simp_all add: number_def is_digit_def)
  then have "version_ok (''1'' @ ''.'' @ ''0'' @ ''.'' @ ''0'')" unfolding version_ok_def by blast
  ultimately show ?thesis
    by (simp add: validateEnvelope_None envelope_ok_def sample_envelope_def IsZero_def)
qed

lemma sample_version: "majorVersion ''1.0.0'' = Inr 1"
proof -
  have "number ''1''" by (simp add: number_def is_digit_def)
  from majorVersion_number [OF this, of "''0.0''"] show ?thesis
    by (simp add: decimal_def digit_value_def)
qed

text \<open>A handler whose result depends on how often it was called before.\<close>

definition scripted :: "(nat \<Rightarrow> goerr option) \<Rightarrow> tally dispatchFunc" where
  "scripted f = (\<lambda>ctx env (n, d). (Ret (f n), (Suc n, d)))"

definition accepting_sink :: "tally deadLetterSink" where
  "accepting_sink = RedisDeadLetterSink (\<lambda>ctx stream i body md (n, d). (None, (n, Suc d)))"

definition sample_consumer :: "(nat \<Rightarrow> goerr option) \<Rightarrow> tally consumer" where
  "sample_consumer f =
     \<lparr>co_cfg = minimal_consumer,
      co_registry = registerAll [Typed ''t'' ''a.b'' 1 (scripted f)],
      co_running = True, co_dlq = Some accepting_sink, co_reader = Some 0,
      co_inst = \<lparr>inst_created = map fst instrument_specs, inst_live = True\<rparr>\<rparr>"

lemma minimal_consumer_simps [simp]:
  "cc_MaxDeliveryAttempts (cfg_Consumer minimal_consumer) = 5"
  "cfg_Retry minimal_consumer =
     \<lparr>rt_MaxImmediateRetries = 3, rt_InitialBackoff = 100000000, rt_MaxBackoff = 5000000000\<rparr>"
  "cc_ClaimMinIdle (cfg_Consumer minimal_consumer) = 60 * Second"
  using validateConsumer_success(2,7) [OF validate_minimal_consumer]
  by (simp_all add: validateConsumer_defaults_fields minimal_config_def)
    (simp add: minimal_consumer_def validateConsumer_def Let_def validateConsumer_defaults_fields
      minimal_config_def defaultConsumerName_def)

lemma sample_consumer_simps [simp]:
  "co_cfg (sample_consumer f) = minimal_consumer" "inst_live (co_inst (sample_consumer f))"
  "co_dlq (sample_consumer f) = Some accepting_sink"
  "lookup (co_registry (sample_consumer f)) ''t'' ''a.b'' 1 = (Some (scripted f), MatchTyped)"
  by (simp_all add: sample_consumer_def registerAll_def newRegistry_def addTyped_def lookup_def Let_def)

lemma sample_decide:
  assumes "deliveryAttempt md \<le> 5"
  shows "decide (sample_consumer f) ''t'' sample_event md = Invoke (scripted f) MatchTyped sample_envelope"
  using assms sample_version
  by (simp add: decide_def sample_event_decodes sample_validates)
    (simp add: sample_envelope_def)

lemma first_attempt [simp]: "deliveryAttempt Map.empty = 1"
  by (simp add: deliveryAttempt_def md_get_def ParseInt_def)

section \<open>The delivery properties at work\<close>

definition start :: "tally world" where
  "start = start_world (0, 0)"

text \<open>The first and the sixth delivery; the sixth is past the default cap of five.\<close>

definition attempt_md :: "int \<Rightarrow> metadata" where
  "attempt_md i = Map.empty(MetadataDeliveryAttempt \<mapsto> FormatInt i)"

lemma attempt_md [simp]: "1 \<le> i \<Longrightarrow> i < 2 ^ 63 \<Longrightarrow> deliveryAttempt (attempt_md i) = i"
  unfolding attempt_md_def by (rule deliveryAttempt_stamped)

definition always_ok :: "nat \<Rightarrow> goerr option" where
  "always_ok n = None"

definition fails_twice :: "nat \<Rightarrow> goerr option" where
  "fails_twice n = (if n < 2 then Some (OpaqueError ''timeout'') else None)"

definition sample_run :: "(nat \<Rightarrow> goerr option) \<Rightarrow> tally ctx \<Rightarrow> string \<Rightarrow> bytes \<Rightarrow> metadata \<Rightarrow> goerr option go \<times> tally world" where
  "sample_run f ctx topic payload md = dispatch sample_runtime (sample_consumer f) ctx topic payload md start"

lemma start_metrics [simp]: "metrics start = []" "outside start = (0, 0)" "sleeps start = []" "logs start = []"
  "span_ops start = []"
  by (simp_all add: start_def start_world_def)

theorem dispatch_counts_once_witness:
  "count_of Received (metrics (snd (sample_run fails_twice sample_context ''t'' sample_event Map.empty))) = 1
   \<and> terminal_count (metrics (snd (sample_run fails_twice sample_context ''t'' sample_event Map.empty))) = 1"
  using dispatch_counts_once [OF prod.collapse [symmetric], where rt = sample_runtime and c = "sample_consumer fails_twice"
      and ctx = sample_context and topic = "''t''" and payload = sample_event and md = Map.empty and w = start]
  by (auto simp: sample_run_def terminal_count_def)

lemma sample_ok:
  assumes "deliveryAttempt md \<le> 5"
  shows "fst (sample_run always_ok sample_context ''t'' sample_event md) = Ret None"
proof -
  obtain ctx' ids r w1 where o: "fst (sample_run always_ok sample_context ''t'' sample_event md) =
      fst (dispatch_body sample_runtime (sample_consumer always_ok) ctx' ''t'' sample_event md
             (dispatch_logger (sample_consumer always_ok) sample_event md ids) r w1)"
    unfolding sample_run_def by (rule fst_dispatch)
  show ?thesis
    unfolding o
    by (simp add: dispatch_body_decide sample_decide [OF assms] Let_def runWithRetry_def retry_loop.simps scripted_def
        always_ok_def out_def split_beta)
qed

theorem dispatch_over_cap_witness:
  "dead_letters_once sample_runtime (sample_consumer always_ok) sample_context ''t'' ReasonMaxAttemptsExceeded 6
     (sample_event, []) (fst (sample_run always_ok sample_context ''t'' sample_event (attempt_md 6)))"
  using dispatch_over_cap [of "sample_consumer always_ok" "attempt_md 6" sample_runtime sample_context "''t''" sample_event start]
  by (simp add: sample_run_def deadLetterBody_def sample_event_valid)

lemma unreadable_empty: "unreadable []"
  by (simp add: unreadable_def Unmarshal_envelope_def Unmarshal_struct_def Valid_def skip_ws_def)

theorem dispatch_unreadable_witness:
  "dead_letters_once sample_runtime (sample_consumer always_ok) sample_context ''t'' ReasonDeserializationFailed 1
     ([], []) (fst (sample_run always_ok sample_context ''t'' [] Map.empty))"
  using dispatch_unreadable [OF unreadable_empty, of Map.empty "sample_consumer always_ok" sample_runtime sample_context "''t''" start]
  by (simp add: sample_run_def)

text \<open>The second consumer has a handler for another topic that would panic, and no sink.\<close>

theorem dispatch_no_handler_witness:
  "fst (sample_run always_ok sample_context ''u'' sample_event Map.empty) = Ret None
   \<and> dispatch sample_runtime ((sample_consumer always_ok)\<lparr>co_registry := registerAll [Raw ''t'' (\<lambda>x env w. (Panic, w))], co_dlq := None\<rparr>)
        sample_context ''u'' sample_event Map.empty start = sample_run always_ok sample_context ''u'' sample_event Map.empty"
proof -
  let ?reg = "registerAll [Raw ''t'' (\<lambda>x env w. (Panic, w))] :: tally registry"
  have l: "lookup (co_registry (sample_consumer always_ok)) ''u'' (ev_EventType sample_envelope) 1 = (None, MatchNone)"
    "lookup ?reg ''u'' (ev_EventType sample_envelope) 1 = (None, MatchNone)"
    by (simp_all add: sample_consumer_def registerAll_def newRegistry_def addTyped_def addRaw_def lookup_def Let_def)
  have "majorVersion (ev_SchemaVersion sample_envelope) = Inr 1"
    using sample_version by (simp add: sample_envelope_def)
  note skip = dispatch_no_handler [OF _ sample_event_decodes sample_validates this l(1), where rt = sample_runtime
      and ctx = sample_context and md = Map.empty and w = start]
  have same: "sample_context\<lparr>ctx_probe := map_option f (ctx_probe sample_context)\<rparr> = sample_context" for f
    by (simp add: sample_context_def)
  show ?thesis using skip [THEN conjunct2, THEN conjunct2, rule_format, OF _ _ l(2), of None, unfolded same] skip
    by (simp add: sample_run_def)
qed

lemma sample_counts: "counts_only_handlers fst sample_runtime (sample_consumer f) sample_context"
  by (auto simp: counts_only_handlers_def sample_runtime_def sample_consumer_def sink_for_def FromContext_def
      sample_context_def accepting_sink_def registerAll_def newRegistry_def addTyped_def Let_def scripted_def
      split: prod.splits)

lemma sample_consumer_wf: "consumer_wf (sample_consumer f)"
  using validateConsumer_success [OF validate_minimal_consumer] registerAll_wf validated_minimal_simps(3)
  by (simp add: consumer_wf_def sample_consumer_def config_ok_def)

theorem dispatch_sleep_below_claim_idle_witness:
  "\<exists>ss. sleeps (snd (sample_run fails_twice sample_context ''t'' sample_event Map.empty)) = ss \<and> sum_list ss < 60 * Second"
  using dispatch_sleep_below_claim_idle [OF sample_consumer_wf, of sample_runtime fails_twice sample_context "''t''" sample_event Map.empty start]
  by (simp add: sample_run_def rand_in_range_def sample_runtime_def)

definition sample_recorder :: "tally deliveryRecorder" where
  "sample_recorder = newDeliveryRecorder (co_inst (sample_consumer fails_twice)) ''t'' ''g'' zero_time None"

theorem runWithRetry_absorbs_transient_witness:
  "\<exists>w'. runWithRetry sample_runtime (sample_consumer fails_twice) sample_context ''t'' sample_event 1
      (scripted fails_twice) sample_envelope [] sample_recorder start = (Ret None, processed sample_recorder, w') \<and> fst (outside w') = 3"
proof -
  have "\<exists>w'. runWithRetry sample_runtime (sample_consumer fails_twice) sample_context ''t'' sample_event 1
      (scripted fails_twice) sample_envelope [] sample_recorder start = (Ret None, processed sample_recorder, w') \<and> fst (outside w') = 0 + 2 + 1"
    by (rule runWithRetry_absorbs_transient)
      (auto simp: scripted_def fails_twice_def sample_runtime_def IsRetryable_def classOf_def split: prod.splits)
  then show ?thesis by (simp add: numeral_3_eq_3)
qed

definition sample_probe :: "tally probe" where
  "sample_probe = \<lparr>NoBackoff = True, Sink = None\<rparr>"

theorem dispatch_probe_verdict_witness:
  "\<exists>v. probe_out (snd (sample_run always_ok (NewContext sample_context sample_probe) ''t'' sample_event Map.empty)) = Some v
     \<and> pv_Kind v \<in> {''processed'', ''skipped'', ''failed''}"
  using dispatch_probe_verdict [of "NewContext sample_context sample_probe" sample_probe "sample_consumer always_ok"
      sample_runtime "''t''" sample_event Map.empty start]
  by (auto simp: sample_run_def)

theorem dispatch_never_panics_witness:
  "fst (sample_run fails_twice sample_context ''t'' sample_event (attempt_md 1)) \<noteq> Panic"
  unfolding sample_run_def
  by (rule dispatch_never_panics)
    (auto simp: sample_consumer_def registerAll_def newRegistry_def addTyped_def Let_def scripted_def split: prod.splits)

section \<open>A negative attempt cap\<close>

definition negative_cap_config :: Config where
  "negative_cap_config = validated_minimal\<lparr>cfg_Consumer :=
     (cfg_Consumer minimal_config)\<lparr>cc_MaxDeliveryAttempts := -1\<rparr>\<rparr>"

text \<open>
  C35. A negative \<open>MaxDeliveryAttempts\<close> is not rejected, and it silently disables processing: the
  validator accepts it, and a consumer with that configuration dead-letters every event on its first
  delivery as \<open>max_attempts_exceeded\<close>, whatever handlers are registered.
\<close>

theorem negative_cap_dead_letters_everything:
  "\<exists>cfg. config_ok negative_cap_config
     \<and> validateConsumer (Inr ''host'') (Inr ''abc'') negative_cap_config = (None, cfg)
     \<and> dead_letters_once rt (c\<lparr>co_cfg := cfg\<rparr>) ctx topic ReasonMaxAttemptsExceeded (deliveryAttempt md)
          (deadLetterBody payload) (fst (dispatch rt (c\<lparr>co_cfg := cfg\<rparr>) ctx topic payload md w))
     \<and> dispatch rt (c\<lparr>co_cfg := cfg, co_registry := reg\<rparr>) ctx topic payload md w
         = dispatch rt (c\<lparr>co_cfg := cfg\<rparr>) ctx topic payload md w"
proof -
  let ?v = "validateConsumer (Inr ''host'') (Inr ''abc'') negative_cap_config"
  have "fst ?v = None"
    by (simp add: negative_cap_config_def validateConsumer_def validateConsumer_defaults_fields defaultConsumerName_def
        minimal_config_def Let_def)
  then obtain cfg where v: "?v = (None, cfg)" by (cases ?v) auto
  have "cc_MaxDeliveryAttempts (cfg_Consumer cfg) = -1"
    using validateConsumer_success(7) [OF v] by (simp add: validateConsumer_defaults_fields negative_cap_config_def)
  moreover have "1 \<le> deliveryAttempt md" by (simp add: deliveryAttempt_def split: sum.split)
  ultimately have cap: "cc_MaxDeliveryAttempts (cfg_Consumer (co_cfg (c\<lparr>co_cfg := cfg\<rparr>))) < deliveryAttempt md" by simp
  moreover have "config_ok negative_cap_config"
    using validated_minimal_simps(3) by (simp add: negative_cap_config_def config_ok_def)
  ultimately show ?thesis using v over_cap_dead_letters [OF cap] by auto
qed


end
