(* ===== verification/Undecodable.thy ===== *)
theory Undecodable
  imports Run Samples
begin

text \<open>
  Stream entries the transport cannot decode: the subscriber's \<open>emit\<close> composed with the consumer's
  \<open>handleUndecodable\<close>, the hook \<open>Run\<close> installs.
\<close>

section \<open>Entries the transport cannot decode\<close>

lemma topicByStream_lookup: "topic \<in> set topics \<Longrightarrow> map_of (rev (topicByStream c topics)) (streamName c topic) = Some topic"
proof -
  have "map_of (rev (topicByStream c ts)) s = (if \<exists>t \<in> set ts. s = streamName c t then Some (drop (length (streamName c [])) s) else None)"
    for ts s
    by (induction ts rule: rev_induct) (auto simp: topicByStream_def streamName_def)
  then show "topic \<in> set topics \<Longrightarrow> ?thesis" by (auto simp: streamName_def)
qed

text \<open>The document written for an undecodable entry of a topic.\<close>

definition undecodable_letter :: "'w runtime \<Rightarrow> 'w consumer \<Rightarrow> string \<Rightarrow> Entry \<Rightarrow> 'w \<Rightarrow> DeadLetter" where
  "undecodable_letter rt c topic e w =
     \<lparr>dl_DeadLetteredAt = UTC (fst (os_now rt w)), dl_Reason = ''deserialization_failed'',
      dl_Error = ''stream entry '' @ Quote (en_ID e) @ '' could not be unmarshalled'',
      dl_DeliveryAttempts = 1, dl_ConsumerGroup = cc_Group (cfg_Consumer (co_cfg c)),
      dl_ConsumerName = cc_ConsumerName (cfg_Consumer (co_cfg c)), dl_OriginalTopic = topic, dl_Event = [],
      dl_EventRaw = Marshal_fields (en_Fields e)\<rparr>"

lemma handleUndecodable_known:
  assumes "topic \<in> set topics"
  shows "handleUndecodable rt c ctx (topicByStream c topics) (streamName c topic) (en_ID e) (en_Fields e) w =
     deadLetter rt c ctx topic (undecodable_letter rt c topic e (outside w))
       (let w1 = add_point (co_inst c) Received 1 [(''topic'', topic)] w in w1\<lparr>outside := snd (os_now rt (outside w))\<rparr>)"
  by (simp add: handleUndecodable_def topicByStream_lookup [OF assms] Marshal_any_def newDeadLetter_def out_def
      undecodable_letter_def reason_defs render_def Let_def split: prod.splits)

text \<open>
  C4. An entry the marshaller cannot read is neither lost nor redelivered forever. When the read or
  the claim loop of the subscription \<open>Run\<close> created meets such an entry, and the hook answers what
  \<open>handleUndecodable\<close> returns, then the entry is acknowledged exactly when a sink accepted, on the
  topic's \<open>.dlq\<close> stream, a document with its raw fields; it is counted once as received, once as
  dead-lettered exactly when it was, and under no outcome of a delivery; and the slot is given back.
\<close>

theorem undecodable_entry_settled:
  assumes "run_subscriber c = Inr s" and "decodeEntry um e attempt = Inl err" and "topic \<in> set topics"
    and "inst_live (co_inst c)"
    and hook: "handleUndecodable rt c ctx (topicByStream c topics) (streamName c topic) (en_ID e) (en_Fields e) w = (hook, w')"
    and emit: "emit s um e attempt (Answers hook acked) sc = Some (go_on, sc')"
  shows "sc_xacks sc' = sc_xacks sc @ (if hook = None then [en_ID e] else [])
    \<and> (hook = None \<longleftrightarrow>
      (\<exists>sink body. sink_for c ctx = Some sink
         \<and> Marshal_dead_letter (undecodable_letter rt c topic e (outside w)) = Inr body
         \<and> fst (publish_sink rt sink (ctx_values.truncate ctx) (streamName c topic @ ''.dlq'') body
                  (snd (os_now rt (outside w)))) = None))
    \<and> (\<exists>ps. metrics w' = metrics w @ ps \<and> count_of Received ps = 1 \<and> count_of Dlq ps = (if hook = None then 1 else 0)
         \<and> count_of Processed ps = 0 \<and> count_of Skipped ps = 0 \<and> count_of Failed ps = 0)
    \<and> Suc (sc_sem sc') = sc_sem sc \<and> sc_waiters sc' = sc_waiters sc"
proof -
  have on: "sb_onUndecodable s" using run_subscriber_ok [of c] assms(1) by auto
  note d = hook [unfolded handleUndecodable_known [OF assms(3)] Let_def]
  have entry: "sc_xacks sc' = sc_xacks sc @ (if hook = None then [en_ID e] else [])"
    and slot: "Suc (sc_sem sc') = sc_sem sc \<and> sc_waiters sc' = sc_waiters sc"
    using emit on assms(2)
    by (auto simp: emit_def emit_undecodable_def ack_def sc_log_def release_def Let_def
        split: option.splits if_splits)
  have settled: "hook = None \<longleftrightarrow>
      (\<exists>sink body. sink_for c ctx = Some sink
         \<and> Marshal_dead_letter (undecodable_letter rt c topic e (outside w)) = Inr body
         \<and> fst (publish_sink rt sink (ctx_values.truncate ctx) (streamName c topic @ ''.dlq'') body
                  (snd (os_now rt (outside w)))) = None)"
    using d by (auto simp: deadLetter_def dlqStream_def Let_def out_def split: option.splits sum.splits prod.splits)
  from deadLetter_metrics [OF d assms(4)] obtain ps where
    ps: "metrics w' = (metrics w @ [\<lparr>pt_instrument = Received, pt_value = 1, pt_attrs = [(''topic'', topic)]\<rparr>]) @ ps"
      "pt_instrument ` set ps \<subseteq> {Dlq, DlqPublishFailures}" "count_of Dlq ps = (if hook = None then 1 else 0)"
    using assms(4) by auto
  from ps(2) have "i \<notin> {Dlq, DlqPublishFailures} \<Longrightarrow> count_of i ps = 0" for i using count_of_0 [of i ps] by blast
  with ps have points: "\<exists>ps. metrics w' = metrics w @ ps \<and> count_of Received ps = 1 \<and> count_of Dlq ps = (if hook = None then 1 else 0)
         \<and> count_of Processed ps = 0 \<and> count_of Skipped ps = 0 \<and> count_of Failed ps = 0"
    by (intro exI [of _ "\<lparr>pt_instrument = Received, pt_value = 1, pt_attrs = [(''topic'', topic)]\<rparr> # ps"]) simp
  show ?thesis by (intro conjI entry settled points slot [THEN conjunct1] slot [THEN conjunct2])
qed

definition bad_entry :: Entry where
  "bad_entry = \<lparr>en_ID = ''1-0'', en_Fields = [(''garbage'', ''x'')]\<rparr>"

definition no_um :: unmarshaller where
  "no_um fs = Inl (OpaqueError ''missing metadata'')"

definition holding_slot :: subscription where
  "holding_slot = \<lparr>sc_stream = ''foi:t'', sc_ctx_done = False, sc_closing = False, sc_sem = 1,
     sc_read = REmit bad_entry, sc_claim = COff, sc_waiters = [], sc_left = [], sc_sent = [], sc_xacks = [],
     sc_hook_ok = [], sc_handler_acks = [], sc_late = [], sc_logs = [], sc_out_closed = False\<rparr>"

theorem undecodable_entry_settled_witness:
  "\<exists>s hook w' go_on sc'.
     handleUndecodable sample_runtime (sample_consumer always_ok) sample_context (topicByStream (sample_consumer always_ok) [''t''])
       (streamName (sample_consumer always_ok) ''t'') (en_ID bad_entry) (en_Fields bad_entry) start = (hook, w')
     \<and> emit s no_um bad_entry 1 (Answers hook None) holding_slot = Some (go_on, sc')
     \<and> sc_xacks sc' = (if hook = None then [''1-0''] else []) \<and> sc_sem sc' = 0"
proof -
  let ?c = "sample_consumer always_ok"
  obtain s where s: "run_subscriber ?c = Inr s" and on: "sb_onUndecodable s" using run_subscriber_ok by blast
  obtain hook w' where h: "handleUndecodable sample_runtime ?c sample_context (topicByStream ?c [''t''])
       (streamName ?c ''t'') (en_ID bad_entry) (en_Fields bad_entry) start = (hook, w')" by fastforce
  have d: "decodeEntry no_um bad_entry 1 = Inl (WrapError [Lit ''unmarshalling entry '', Quoted (en_ID bad_entry), Lit '': '']
      (OpaqueError ''missing metadata''))" by (simp add: decodeEntry_def no_um_def)
  have "emit s no_um bad_entry 1 (Answers hook None) holding_slot \<noteq> None"
    using d on by (cases hook) (simp_all add: emit_def emit_undecodable_def ack_def sc_log_def release_def holding_slot_def Let_def)
  then obtain go_on sc' where e: "emit s no_um bad_entry 1 (Answers hook None) holding_slot = Some (go_on, sc')" by fastforce
  have "''t'' \<in> set [''t'']" by simp
  note settled = undecodable_entry_settled [OF s d this _ h e]
  show ?thesis
    using h e settled by (intro exI [of _ s] exI [of _ hook] exI conjI) (auto simp: holding_slot_def bad_entry_def)
qed

end
