(* ===== verification/Delivery_Sink.thy ===== *)
theory Delivery_Sink
  imports Samples
begin

text \<open>
  What reaches the dead-letter sink in one delivery: the log of the documents the sink accepted, how it
  and the counters decide whether the delivery is acknowledged, and which document is filed.
\<close>

section \<open>The log of accepted documents\<close>

text \<open>
  \<open>log\<close> reads from the outside state which documents the sink of a delivery took, with their streams:
  the sink adds the document it is given exactly when it reports success, and nothing else writes there.
\<close>

definition logs_letters :: "('w \<Rightarrow> (string \<times> bytes) list) \<Rightarrow> 'w runtime \<Rightarrow> 'w consumer \<Rightarrow> 'w ctx \<Rightarrow> bool" where
  "logs_letters log rt c ctx \<longleftrightarrow>
     (\<forall>w. log (snd (os_now rt w)) = log w) \<and> (\<forall>n w. log (snd (os_rand rt n w)) = log w)
     \<and> (\<forall>x d w. log (snd (os_timer rt x d w)) = log w) \<and> (\<forall>x w. log (snd (os_ctx_err rt x w)) = log w)
     \<and> (\<forall>t w. log (snd (otel_start rt t w)) = log w)
     \<and> (\<forall>sink v s b w. sink_for c ctx = Some sink \<longrightarrow> log (snd (publish_sink rt sink v s b w)) =
          log w @ (if fst (publish_sink rt sink v s b w) = None then [(s, b)] else []))
     \<and> (\<forall>h \<in> snd ` set (reg_typed (co_registry c)) \<union> snd ` set (reg_raw (co_registry c)).
          \<forall>x env w. log (snd (h x env w)) = log w)"

lemma logs_ctx_cong:
  "FromContext ctx' = FromContext ctx \<Longrightarrow> logs_letters log rt c ctx \<Longrightarrow> logs_letters log rt c ctx'"
  by (simp add: logs_letters_def sink_for_cong [of ctx' ctx])

lemma deadLetter_files:
  assumes "deadLetter rt c ctx topic dl w = (err, w')" and "logs_letters log rt c ctx"
  obtains b where "err = None" "Marshal_dead_letter dl = Inr b" "log (outside w') = log (outside w) @ [(dlqStream c topic, b)]"
  | "err \<noteq> None" "log (outside w') = log (outside w)"
proof (cases "sink_for c ctx = None \<or> isl (Marshal_dead_letter dl)")
  case True
  with assms(1) that show thesis by (auto simp: deadLetter_def Let_def split: option.splits sum.splits)
next
  case False
  then obtain sink b where s: "sink_for c ctx = Some sink" and m: "Marshal_dead_letter dl = Inr b"
    by (auto simp: isl_def) (metis sum.exhaust)
  obtain e x where p: "publish_sink rt sink (ctx_values.truncate ctx) (dlqStream c topic) b (outside w) = (e, x)" by fastforce
  have "log x = log (outside w) @ (if e = None then [(dlqStream c topic, b)] else [])"
    using assms(2) s p unfolding logs_letters_def by (metis fst_conv snd_conv)
  with assms(1) s m p that show thesis by (cases e) (auto simp: deadLetter_def Let_def out_def)
qed

section \<open>The document of a delivery\<close>

text \<open>
  Why a delivery ends as a dead letter, as a function of the message: the reason and the error, in
  the words of the code. For a permanent failure the error is one the handler returned for the envelope.
\<close>

definition letter_cause :: "'w consumer \<Rightarrow> string \<Rightarrow> bytes \<Rightarrow> metadata \<Rightarrow> string \<Rightarrow> goerr \<Rightarrow> bool" where
  "letter_cause c topic payload md reason cause =
     (case decide c topic payload md of
        OverCap \<Rightarrow> reason = ReasonMaxAttemptsExceeded
          \<and> cause = ErrorString [Lit ''delivery attempt '', Dec (deliveryAttempt md), Lit '' exceeded MaxDeliveryAttempts '',
                                 Dec (cc_MaxDeliveryAttempts (cfg_Consumer (co_cfg c)))]
      | Undecodable e \<Rightarrow> reason = ReasonDeserializationFailed
          \<and> cause = WrapError [Lit ''unmarshalling envelope on topic '', Quoted topic, Lit '': ''] e
      | InvalidEnvelope e env \<Rightarrow> reason = ReasonDeserializationFailed
          \<and> cause = WrapError [Lit ''validating envelope on topic '', Quoted topic, Lit '': ''] e
      | BadVersion e env \<Rightarrow> reason = ReasonDeserializationFailed
          \<and> cause = WrapError [Lit ''parsing schema version on topic '', Quoted topic, Lit '': ''] e
      | NoHandler env \<Rightarrow> False
      | Invoke h k env \<Rightarrow> reason = ReasonPermanent \<and> IsPermanent (Some cause)
          \<and> (\<exists>x v. correlationIDFromContext x = Some (ev_CorrelationID env) \<and> fst (h x env v) = Ret (Some cause)))"

text \<open>The document: bytes that could not be read go to \<open>event_raw\<close>, others where \<open>deadLetterBody\<close> puts them.\<close>

definition consumer_letter :: "'w consumer \<Rightarrow> string \<Rightarrow> bytes \<Rightarrow> metadata \<Rightarrow> string \<Rightarrow> goerr \<Rightarrow> gotime \<Rightarrow> DeadLetter" where
  "consumer_letter c topic payload md reason cause at =
     (let body = (if reason = ReasonDeserializationFailed then ([], payload) else deadLetterBody payload)
      in \<lparr>dl_DeadLetteredAt = UTC at, dl_Reason = reason, dl_Error = Error cause, dl_DeliveryAttempts = deliveryAttempt md,
          dl_ConsumerGroup = cc_Group (cfg_Consumer (co_cfg c)), dl_ConsumerName = cc_ConsumerName (cfg_Consumer (co_cfg c)),
          dl_OriginalTopic = topic, dl_Event = fst body, dl_EventRaw = snd body\<rparr>)"

definition filed :: "'w consumer \<Rightarrow> string \<Rightarrow> bytes \<Rightarrow> metadata \<Rightarrow> string \<times> bytes \<Rightarrow> bool" where
  "filed c topic payload md d \<longleftrightarrow> fst d = dlqStream c topic
     \<and> (\<exists>reason cause at. letter_cause c topic payload md reason cause
          \<and> Marshal_dead_letter (consumer_letter c topic payload md reason cause at) = Inr (snd d))"

lemma newDeadLetter_letter:
  assumes "newDeadLetter rt c topic reason cause (deliveryAttempt md) w = (dl, w')"
  obtains at where "reason \<noteq> ReasonDeserializationFailed \<Longrightarrow>
      dl\<lparr>dl_Event := fst (deadLetterBody payload), dl_EventRaw := snd (deadLetterBody payload)\<rparr> = consumer_letter c topic payload md reason cause at"
    "reason = ReasonDeserializationFailed \<Longrightarrow> dl\<lparr>dl_EventRaw := payload\<rparr> = consumer_letter c topic payload md reason cause at"
  using assms by (auto simp: newDeadLetter_def consumer_letter_def Let_def split: prod.splits intro: that)

text \<open>What a result, and the outcome stated in the recorder, say about the documents accepted on the way.\<close>

definition files :: "'w consumer \<Rightarrow> string \<Rightarrow> bytes \<Rightarrow> metadata \<Rightarrow> goerr option go \<Rightarrow> outcomeKind \<Rightarrow> (string \<times> bytes) list \<Rightarrow> bool" where
  "files c topic payload md res k ds \<longleftrightarrow>
     (case res of
        Ret None \<Rightarrow> (k = OutcomeProcessed \<or> k = OutcomeSkipped) \<and> ds = []
                      \<or> k = OutcomeFailed \<and> (\<exists>d. ds = [d] \<and> filed c topic payload md d)
      | _ \<Rightarrow> ds = [])"

lemma files_deadLetter:
  assumes "deadLetter rt c ctx topic dl w = (err, w')" and "logs_letters log rt c ctx"
    and "letter_cause c topic payload md reason cause" and "dl = consumer_letter c topic payload md reason cause at"
  shows "\<exists>ds. log (outside w') = log (outside w) @ ds \<and> files c topic payload md (Ret err) OutcomeFailed ds"
  using assms(1,2)
proof (cases rule: deadLetter_files)
  case (1 b)
  with assms(3,4) show ?thesis
    by (intro exI [of _ "[(dlqStream c topic, b)]"]) (auto simp: files_def filed_def)
next
  case 2
  then show ?thesis by (intro exI [of _ "[]"]) (auto simp: files_def)
qed

lemma retry_loop_files:
  assumes "retry_loop rt c ctx topic payload (deliveryAttempt md) handler env lg i r w = (res, r', w')"
    and log: "logs_letters log rt c ctx" and h: "\<And>x env w. log (snd (handler x env w)) = log w"
    and d: "decide c topic payload md = Invoke handler k env" and x: "correlationIDFromContext ctx = Some (ev_CorrelationID env)"
  shows "\<exists>ds. log (outside w') = log (outside w) @ ds \<and> files c topic payload md res (dr_kind r') ds"
  using assms(1)
proof (induction "nat (maxRetries c - i)" arbitrary: i w rule: less_induct)
  case less
  have called: "log (outside w1) = log (outside w)" if "out (handler ctx env) w = (a, w1)" for a w1
    by (rule out_calls [OF that]) (rule h)
  have slept: "log (outside v') = log (outside v)" if "sleepWithJitter rt ctx upper v = (woke, v')" for upper v woke v'
    by (rule sleepWithJitter_calls [OF that]) (use log in \<open>simp_all add: logs_letters_def\<close>)
  from less.prems show ?case
  proof (cases rule: retry_loop_cases)
    case (permanent e w1 dl w3 err)
    have n: "log (outside w3) = log (outside w)"
      using newDeadLetter_calls [OF permanent(3), of log] log called [OF permanent(1)] by (simp add: logs_letters_def)
    have "fst (handler ctx env (outside w)) = Ret (Some e)" using permanent(1) by (auto simp: out_def split: prod.splits)
    then have "letter_cause c topic payload md ReasonPermanent e"
      using permanent(2) x by (auto simp: letter_cause_def d)
    moreover obtain at where "dl\<lparr>dl_Event := fst (deadLetterBody payload), dl_EventRaw := snd (deadLetterBody payload)\<rparr>
        = consumer_letter c topic payload md ReasonPermanent e at"
      using newDeadLetter_letter [OF permanent(3), of payload] by (auto simp: reason_defs)
    ultimately show ?thesis using files_deadLetter [OF permanent(4) log] permanent(5,6) n by auto
  next
    case (abandoned e w1)
    then show ?thesis using called [OF abandoned(1)] slept [OF abandoned(6)] by (auto simp: files_def)
  next
    case (again e w1 w4)
    have "nat (maxRetries c - (i + 1)) < nat (maxRetries c - i)" using again(3) by simp
    from less.hyps [OF this again(5)] called [OF again(1)] slept [OF again(4)] show ?thesis by simp
  qed (auto dest!: called simp: files_def)
qed

lemma undeserializable_files:
  assumes "undeserializable rt c ctx topic payload (deliveryAttempt md) msg lg doing e r w = (res, r', w')"
    and log: "logs_letters log rt c ctx"
    and "letter_cause c topic payload md ReasonDeserializationFailed (WrapError [Lit doing, Quoted topic, Lit '': ''] e)"
  shows "\<exists>ds. log (outside w') = log (outside w) @ ds \<and> files c topic payload md res (dr_kind r') ds"
proof -
  obtain dl w1 err where n: "newDeadLetter rt c topic ReasonDeserializationFailed
      (WrapError [Lit doing, Quoted topic, Lit '': ''] e) (deliveryAttempt md) (log_at LError msg (lg @ [(''error'', AErr e)]) w) = (dl, w1)"
    and dead: "deadLetter rt c ctx topic (dl\<lparr>dl_EventRaw := payload\<rparr>) w1 = (err, w')"
    and r: "res = Ret err" "r' = failed ''deserialization'' (Some e) r"
    using assms(1) by (auto simp: undeserializable_def Let_def split: prod.splits)
  have "log (outside w1) = log (outside w)"
    using newDeadLetter_calls [OF n, of log] log by (simp add: logs_letters_def)
  moreover obtain at where "dl\<lparr>dl_EventRaw := payload\<rparr> = consumer_letter c topic payload md ReasonDeserializationFailed
      (WrapError [Lit doing, Quoted topic, Lit '': ''] e) at"
    using newDeadLetter_letter [OF n, of payload] by blast
  ultimately show ?thesis using files_deadLetter [OF dead log assms(3)] r by simp
qed

lemma dispatch_capped_files:
  assumes "dispatch_capped rt c ctx topic payload (deliveryAttempt md) lg r w = (res, r', w')"
    and log: "logs_letters log rt c ctx" and "decide c topic payload md = OverCap"
  shows "\<exists>ds. log (outside w') = log (outside w) @ ds \<and> files c topic payload md res (dr_kind r') ds"
proof -
  define cause where "cause = ErrorString [Lit ''delivery attempt '', Dec (deliveryAttempt md),
     Lit '' exceeded MaxDeliveryAttempts '', Dec (cc_MaxDeliveryAttempts (cfg_Consumer (co_cfg c)))]"
  define w0 where "w0 = log_at LWarn ''messaging: delivery attempt cap exceeded''
     (lg @ [(''topic'', AStr topic),
       (''max_delivery_attempts'', AInt (cc_MaxDeliveryAttempts (cfg_Consumer (co_cfg c))))]) w"
  obtain dl w1 err where n: "newDeadLetter rt c topic ReasonMaxAttemptsExceeded cause (deliveryAttempt md) w0 = (dl, w1)"
    and dead: "deadLetter rt c ctx topic (dl\<lparr>dl_Event := fst (deadLetterBody payload),
         dl_EventRaw := snd (deadLetterBody payload)\<rparr>) w1 = (err, w')"
    and r: "res = Ret err" "r' = failed ''max_attempts'' (Some cause) r"
    using assms(1) by (auto simp: dispatch_capped_def Let_def cause_def [symmetric] w0_def [symmetric] split: prod.splits)
  have "log (outside w1) = log (outside w)"
    using newDeadLetter_calls [OF n, of log] log by (simp add: logs_letters_def w0_def)
  moreover obtain at where "dl\<lparr>dl_Event := fst (deadLetterBody payload), dl_EventRaw := snd (deadLetterBody payload)\<rparr>
      = consumer_letter c topic payload md ReasonMaxAttemptsExceeded cause at"
    using newDeadLetter_letter [OF n, of payload] by (auto simp: reason_defs)
  moreover have "letter_cause c topic payload md ReasonMaxAttemptsExceeded cause"
    by (simp add: letter_cause_def assms(3) cause_def)
  ultimately show ?thesis using files_deadLetter [OF dead log] r by simp
qed

lemma dispatch_body_files:
  assumes "dispatch_body rt c ctx topic payload md lg r w = (res, r', w')" and log: "logs_letters log rt c ctx"
  shows "\<exists>ds. log (outside w') = log (outside w) @ ds \<and> files c topic payload md res (dr_kind r') ds"
proof (cases "decide c topic payload md")
  case (Invoke h k env)
  let ?x = "contextWithCorrelationID ctx (ev_CorrelationID env)"
  from Invoke have "h \<in> snd ` set (reg_typed (co_registry c)) \<union> snd ` set (reg_raw (co_registry c))"
    by (auto simp: decide_def split: if_splits sum.splits option.splits prod.splits dest!: lookup_registered)
  then have h: "log (snd (h x env w)) = log w" for x env w using log unfolding logs_letters_def by blast
  have x: "logs_letters log rt c ?x" by (rule logs_ctx_cong [OF _ log]) simp
  from assms(1) Invoke obtain lg' r0 where "retry_loop rt c ?x topic payload (deliveryAttempt md) h env lg' 0 r0
      (span_envelope env (span_attempt md w)) = (res, r', w')"
    by (auto simp: dispatch_body_decide runWithRetry_def Let_def)
  from retry_loop_files [OF this x h Invoke] show ?thesis by simp
next
  case OverCap
  with assms dispatch_capped_files [OF _ log OverCap] show ?thesis by (fastforce simp: dispatch_body_decide Let_def)
next
  case (Undecodable e)
  with assms(1) obtain msg lg' where u: "undeserializable rt c ctx topic payload (deliveryAttempt md) msg lg'
      ''unmarshalling envelope on topic '' e r (span_attempt md w) = (res, r', w')"
    by (auto simp: dispatch_body_decide Let_def)
  from undeserializable_files [OF u log] show ?thesis by (simp add: letter_cause_def Undecodable)
next
  case (InvalidEnvelope e env)
  with assms(1) obtain msg lg' where u: "undeserializable rt c ctx topic payload (deliveryAttempt md) msg lg'
      ''validating envelope on topic '' e r (span_envelope env (span_attempt md w)) = (res, r', w')"
    by (auto simp: dispatch_body_decide Let_def)
  from undeserializable_files [OF u log] show ?thesis by (simp add: letter_cause_def InvalidEnvelope)
next
  case (BadVersion e env)
  with assms(1) obtain msg lg' where u: "undeserializable rt c ctx topic payload (deliveryAttempt md) msg lg'
      ''parsing schema version on topic '' e r (span_envelope env (span_attempt md w)) = (res, r', w')"
    by (auto simp: dispatch_body_decide Let_def)
  from undeserializable_files [OF u log] show ?thesis by (simp add: letter_cause_def BadVersion)
next
  case (NoHandler env)
  with assms(1) show ?thesis by (auto simp: dispatch_body_decide Let_def files_def)
qed

section \<open>Acknowledged exactly when accounted for\<close>

lemma dispatch_files:
  assumes d: "dispatch rt c ctx topic payload md w = (res, w')" and live: "inst_live (co_inst c)" and log: "logs_letters log rt c ctx"
  shows "\<exists>ps ds. metrics w' = metrics w @ ps \<and> log (outside w') = log (outside w) @ ds
    \<and> count_of Processed ps + count_of Skipped ps + length ds = (if res = Ret None then 1 else 0)
    \<and> (res \<noteq> Ret None \<longrightarrow> count_of Failed ps = 1) \<and> count_of Dlq ps = length ds
    \<and> (\<forall>x \<in> set ds. filed c topic payload md x)"
proof -
  from d obtain ctx' ids r w1 r' w3 r2 where o: "dispatch_open rt c ctx topic md w = (ctx', ids, r, w1)"
    and b: "dispatch_body rt c ctx' topic payload md (dispatch_logger c payload md ids) r
       (dispatch_received rt c topic md w1) = (res, r', w3)"
    and e: "end_delivery rt r' w3 = (r2, w')" by (rule dispatch_parts)
  have "\<And>x. log (snd (os_now rt x)) = log x" "\<And>t x. log (snd (otel_start rt t x)) = log x"
    using log by (simp_all add: logs_letters_def)
  note keeps = outer_keeps [where calls = log and rt = rt, OF this]
  obtain ds where ds: "log (outside w3) = log (outside (dispatch_received rt c topic md w1)) @ ds" "files c topic payload md res (dr_kind r') ds"
    using dispatch_body_files [OF b logs_ctx_cong [OF dispatch_open_frame(11) [OF o] log]] by blast
  obtain qs where qs: "metrics w3 = metrics (dispatch_received rt c topic md w1) @ qs" "settles res r r' qs"
    using dispatch_body_settles [OF b live dispatch_open_frame(4) [OF o]] by blast
  obtain ps where ps: "metrics (dispatch_received rt c topic md w1) = metrics w @ ps" "pt_instrument ` set ps \<subseteq> {Received, QueueLatency}"
    using dispatch_received_metrics [OF live, of rt topic md w1] dispatch_open_frame(1) [OF o] by auto
  have "\<not> dr_ended r'" "inst_live (dr_inst r')"
    using qs(2) dispatch_open_frame(4,6) [OF o] live by (auto simp: settles_def same_delivery_def)
  from end_delivery_metrics [OF e this] obtain p1 p2 where end': "metrics w' = metrics w3 @ [p1, p2]"
    "pt_instrument p1 = ProcessingDuration" "pt_instrument p2 = terminal_of (dr_kind r')" by auto
  have 0: "count_of i ps = 0" if "i \<notin> {Received, QueueLatency}" for i
    using that ps(2) by (intro count_of_0) blast
  have 1: "count_of i qs = 0" if "i \<notin> {Retries, Dlq, DlqPublishFailures}" for i
    using that qs(2) by (intro count_of_0) (auto simp: settles_def)
  let ?ps = "ps @ qs @ [p1, p2]"
  have "metrics w' = metrics w @ ?ps" using end'(1) qs(1) ps(1) by simp
  moreover have "log (outside w') = log (outside w) @ ds"
    using keeps(1) [OF o] keeps(2) [of c topic md w1] keeps(3) [OF e] ds(1) by simp
  moreover have "count_of Processed ?ps + count_of Skipped ?ps + length ds = (if res = Ret None then 1 else 0)
      \<and> (res \<noteq> Ret None \<longrightarrow> count_of Failed ?ps = 1) \<and> count_of Dlq ?ps = length ds"
    using ds(2) qs(2) dispatch_open_frame(5) [OF o] end'(2,3)
    by (auto simp: 0 1 files_def settles_def terminal_of_def split: go.splits option.splits)
  moreover have "\<forall>x \<in> set ds. filed c topic payload md x"
    using ds(2) by (auto simp: files_def split: go.splits option.splits)
  ultimately show ?thesis by blast
qed

text \<open>
  C2. A delivery is acknowledged only when its event is accounted for. \<open>dispatch\<close> returns nil exactly
  when the event was processed, deliberately skipped, or accepted by the dead-letter sink, and then only
  one of the three: what the sink took is one document, on the topic's \<open>.dlq\<close> stream, that states why
  this very message was given up and holds its bytes. In every other case the sink took nothing, and the
  event is counted as failed and stays pending. The \<open>dlq\<close> counter counts what the sink took.
\<close>

theorem dispatch_ack_iff_accounted:
  assumes "dispatch rt c ctx topic payload md w = (res, w')" and "inst_live (co_inst c)" and "logs_letters log rt c ctx"
  shows "\<exists>ps ds. metrics w' = metrics w @ ps \<and> log (outside w') = log (outside w) @ ds
    \<and> count_of Processed ps + count_of Skipped ps + length ds = (if res = Ret None then 1 else 0)
    \<and> (res \<noteq> Ret None \<longrightarrow> count_of Failed ps = 1) \<and> count_of Dlq ps = length ds
    \<and> (\<forall>(s, body) \<in> set ds. s = streamName c topic @ ''.dlq''
         \<and> (\<exists>reason cause at. letter_cause c topic payload md reason cause
              \<and> Marshal_dead_letter (consumer_letter c topic payload md reason cause at) = Inr body))"
  using dispatch_files [OF assms] by (simp add: filed_def dlqStream_def case_prod_beta)

section \<open>A sink with a log\<close>

type_synonym shelf = "(string \<times> bytes) list"

definition shelf_sink :: "shelf deadLetterSink" where
  "shelf_sink = RedisDeadLetterSink (\<lambda>ctx stream i body md l. (None, l @ [(stream, body)]))"

definition shelf_consumer :: "shelf consumer" where
  "shelf_consumer =
     \<lparr>co_cfg = minimal_consumer, co_registry = newRegistry, co_running = True, co_dlq = Some shelf_sink, co_reader = Some 0,
      co_inst = \<lparr>inst_created = map fst instrument_specs, inst_live = True\<rparr>\<rparr>"

lemma shelf_logs: "logs_letters id sample_runtime shelf_consumer sample_context"
  by (auto simp: logs_letters_def sample_runtime_def shelf_consumer_def sink_for_def FromContext_def sample_context_def
      shelf_sink_def newRegistry_def)

definition shelf_run :: "bytes \<Rightarrow> goerr option go \<times> shelf world" where
  "shelf_run payload = dispatch sample_runtime shelf_consumer sample_context ''t'' payload (attempt_md 6) (start_world [])"

lemma shelf_capped: "decide shelf_consumer ''t'' payload (attempt_md 6) = OverCap"
  by (simp add: decide_def shelf_consumer_def)

lemma sample_now_marshals: "\<exists>s. Marshal_time (UTC \<lparr>ns_since_zero = 63900000000000000000, zone_offset = 0\<rparr>) = Inr s"
proof -
  have "isl (Marshal_time (UTC \<lparr>ns_since_zero = 63900000000000000000, zone_offset = 0\<rparr>)) = False" by code_simp
  then show ?thesis by (cases "Marshal_time (UTC \<lparr>ns_since_zero = 63900000000000000000, zone_offset = 0\<rparr>)") auto
qed

lemma shelf_accepts:
  "fst (shelf_run payload) = Ret None \<and> (\<exists>body. outside (snd (shelf_run payload)) = [(dlqStream shelf_consumer ''t'', body)])"
proof -
  let ?rt = "sample_runtime :: shelf runtime"
  obtain res w' where d: "dispatch ?rt shelf_consumer sample_context ''t'' payload (attempt_md 6) (start_world []) = (res, w')" by fastforce
  then obtain ctx' ids r w1 r' w3 r2 where o: "dispatch_open ?rt shelf_consumer sample_context ''t'' (attempt_md 6) (start_world []) = (ctx', ids, r, w1)"
    and b: "dispatch_body ?rt shelf_consumer ctx' ''t'' payload (attempt_md 6) (dispatch_logger shelf_consumer payload (attempt_md 6) ids) r
       (dispatch_received ?rt shelf_consumer ''t'' (attempt_md 6) w1) = (res, r', w3)"
    and e: "end_delivery ?rt r' w3 = (r2, w')" by (rule dispatch_parts)
  note keeps = outer_keeps [where calls = id and rt = ?rt]
  have "outside (dispatch_received ?rt shelf_consumer ''t'' (attempt_md 6) w1) = []" "outside w' = outside w3"
    using keeps(1) [OF _ _ o] keeps(2) keeps(3) [OF _ _ e] by (simp_all add: sample_runtime_def start_world_def)
  moreover have "sink_for shelf_consumer ctx' = Some shelf_sink"
    using dispatch_open_frame(11) [OF o] by (simp add: sink_for_def FromContext_def sample_context_def shelf_consumer_def)
  moreover obtain s where "Marshal_time (UTC \<lparr>ns_since_zero = 63900000000000000000, zone_offset = 0\<rparr>) = Inr s"
    using sample_now_marshals by blast
  ultimately have "res = Ret None \<and> (\<exists>body. outside w' = [(dlqStream shelf_consumer ''t'', body)])"
    using b
    by (auto simp: dispatch_body_decide shelf_capped dispatch_capped_def newDeadLetter_def deadLetter_def shelf_sink_def
        out_def sample_runtime_def Marshal_dead_letter_def deadLetterBody_def Marshal_raw_def Let_def split: prod.splits if_splits)
  then show ?thesis by (simp add: shelf_run_def d)
qed

theorem dispatch_ack_iff_accounted_witness:
  "\<exists>body reason cause at. outside (snd (shelf_run sample_event)) = [(streamName shelf_consumer ''t'' @ ''.dlq'', body)]
     \<and> fst (shelf_run sample_event) = Ret None \<and> count_of Processed (metrics (snd (shelf_run sample_event))) = 0
     \<and> letter_cause shelf_consumer ''t'' sample_event (attempt_md 6) reason cause
     \<and> Marshal_dead_letter (consumer_letter shelf_consumer ''t'' sample_event (attempt_md 6) reason cause at) = Inr body"
proof -
  obtain body where b: "outside (snd (shelf_run sample_event)) = [(streamName shelf_consumer ''t'' @ ''.dlq'', body)]"
    "fst (shelf_run sample_event) = Ret None" using shelf_accepts [of sample_event] by (auto simp: dlqStream_def)
  moreover have "inst_live (co_inst shelf_consumer)" by (simp add: shelf_consumer_def)
  ultimately show ?thesis
    using dispatch_ack_iff_accounted [OF prod.collapse [symmetric] _ shelf_logs, of "''t''" sample_event "attempt_md 6" "start_world []"]
    by (auto simp: shelf_run_def start_world_def)
qed

end
