(* ===== verification/System.thy ===== *)
theory System
  imports Undecodable Delivery_Sink
begin

text \<open>
  One served topic of a running consumer: the subscription's state machine composed with the deliveries
  its messages cause. A step is one step of the subscription that involves no callback, an
  undecodable entry together with the hook's answer, or a delivery: the router calls \<open>dispatch\<close> with
  the message's payload and metadata and settles the message by the result, an ack for nil and a nack
  otherwise (\<open>MessageHandler\<close> in \<open>router.go\<close>); after \<open>Close\<close> the message's goroutine may have left
  before that. Between steps the outside may change in any way. Deliveries run concurrently in the
  program; here each is taken at one point, with the metric points and accepted documents it adds.
\<close>

section \<open>Steps\<close>

text \<open>
  The ledger \<open>sv_deeds\<close> keeps, for each call of the hook and each delivery, the entry it was for and the
  worlds before and after that very call.
\<close>

type_synonym 'w deed = "string \<times> 'w world \<times> 'w world"

record 'w served =
  sv_sub :: subscription
  sv_world :: "'w world"
  sv_deeds :: "'w deed list"

text \<open>The steps of a subscription that call neither the hook nor a handler.\<close>

fun quiet :: "event \<Rightarrow> bool" where
  "quiet (HandlerAck i) = False"
| "quiet (HandlerNack i) = False"
| "quiet (LateAck i) = False"
| "quiet (LateNack i) = False"
| "quiet (ReadLoop (REmitted (Answers hook acked))) = False"
| "quiet (ClaimLoop (CEmitted (Answers hook acked))) = False"
| "quiet _ = True"

text \<open>The entry a loop is emitting, and its event for the hook's answer.\<close>

definition emitting :: "bool \<Rightarrow> subscription \<Rightarrow> Entry option" where
  "emitting claiming sc =
     (if claiming then (case sc_claim sc of CEmit e attempt ps \<Rightarrow> Some e | _ \<Rightarrow> None)
      else (case sc_read sc of REmit e \<Rightarrow> Some e | _ \<Rightarrow> None))"

definition hook_event :: "bool \<Rightarrow> goerr option \<Rightarrow> goerr option \<Rightarrow> event" where
  "hook_event claiming hook acked =
     (if claiming then ClaimLoop (CEmitted (Answers hook acked)) else ReadLoop (REmitted (Answers hook acked)))"

text \<open>
  What watermill's router does with the result of a \<open>MessageHandler\<close>: nil acks the message, an error
  nacks it, and so does a panic; with and without a goroutine waiting for it.
\<close>

definition settle_event :: "nat \<Rightarrow> goerr option go \<Rightarrow> event" where
  "settle_event i res = (if res = Ret None then HandlerAck i else HandlerNack i)"

definition late_event :: "nat \<Rightarrow> goerr option go \<Rightarrow> event" where
  "late_event i res = (if res = Ret None then LateAck i else LateNack i)"

text \<open>
  A message is delivered while it is unsettled. Its context carries the values of \<open>Run\<close>'s, so the same
  probe if any; the router may have added others.
\<close>

inductive serve_step ::
    "'w runtime \<Rightarrow> 'w consumer \<Rightarrow> 'w ctx \<Rightarrow> string list \<Rightarrow> string \<Rightarrow> Subscriber \<Rightarrow> unmarshaller \<Rightarrow> 'w served \<Rightarrow> 'w served \<Rightarrow> bool"
  for rt c run_ctx topics topic s um where
  own: "quiet ev \<Longrightarrow> exec s um ev (sv_sub v) = Some sc \<Longrightarrow>
     serve_step rt c run_ctx topics topic s um v (v\<lparr>sv_sub := sc\<rparr>)"
| outside: "serve_step rt c run_ctx topics topic s um v (v\<lparr>sv_world := (sv_world v)\<lparr>outside := o'\<rparr>\<rparr>)"
| undecodable: "emitting claiming (sv_sub v) = Some e \<Longrightarrow>
     handleUndecodable rt c run_ctx (topicByStream c topics) (sc_stream (sv_sub v)) (en_ID e) (en_Fields e) (sv_world v) = (hook, w) \<Longrightarrow>
     exec s um (hook_event claiming hook acked) (sv_sub v) = Some sc \<Longrightarrow>
     serve_step rt c run_ctx topics topic s um v
       (v\<lparr>sv_sub := sc, sv_world := w, sv_deeds := sv_deeds v @ [(en_ID e, sv_world v, w)]\<rparr>)"
| delivery: "m \<in> set (sc_sent (sv_sub v)) \<Longrightarrow> i < length (sc_waiters (sv_sub v)) \<Longrightarrow>
     md_get (msg_Metadata m) MetadataStreamID = wt_ID (sc_waiters (sv_sub v) ! i) \<Longrightarrow> FromContext ctx = FromContext run_ctx \<Longrightarrow>
     dispatch rt c ctx topic (msg_Payload m) (msg_Metadata m) (sv_world v) = (res, w) \<Longrightarrow>
     exec s um (settle_event i res) (sv_sub v) = Some sc \<Longrightarrow>
     serve_step rt c run_ctx topics topic s um v
       (v\<lparr>sv_sub := sc, sv_world := w,
          sv_deeds := sv_deeds v @ [(md_get (msg_Metadata m) MetadataStreamID, sv_world v, w)]\<rparr>)"
| late: "m \<in> set (sc_sent (sv_sub v)) \<Longrightarrow> i < length (sc_left (sv_sub v)) \<Longrightarrow>
     md_get (msg_Metadata m) MetadataStreamID = sc_left (sv_sub v) ! i \<Longrightarrow> FromContext ctx = FromContext run_ctx \<Longrightarrow>
     dispatch rt c ctx topic (msg_Payload m) (msg_Metadata m) (sv_world v) = (res, w) \<Longrightarrow>
     exec s um (late_event i res) (sv_sub v) = Some sc \<Longrightarrow>
     serve_step rt c run_ctx topics topic s um v
       (v\<lparr>sv_sub := sc, sv_world := w,
          sv_deeds := sv_deeds v @ [(md_get (msg_Metadata m) MetadataStreamID, sv_world v, w)]\<rparr>)"

inductive_cases serve_stepE: "serve_step rt c run_ctx topics topic s um v v'"

text \<open>A fresh subscription of a subscriber \<open>Run\<close> built, before anything was counted.\<close>

definition serve_init :: "'w consumer \<Rightarrow> string list \<Rightarrow> string \<Rightarrow> Subscriber \<Rightarrow> 'w served \<Rightarrow> bool" where
  "serve_init c topics topic s v \<longleftrightarrow> run_subscriber c = Inr s \<and> topic \<in> set topics \<and> inst_live (co_inst c)
     \<and> Subscribe s (streamName c topic) None = Inr (sv_sub v) \<and> metrics (sv_world v) = [] \<and> sv_deeds v = []"

section \<open>The invariant\<close>

text \<open>The metric points and the accepted documents of one deed, and when it accounts for its entry.\<close>

definition deed_points :: "'w deed \<Rightarrow> point list" where
  "deed_points d = (case d of (i, w, w') \<Rightarrow> drop (length (metrics w)) (metrics w'))"

definition deed_letters :: "('w \<Rightarrow> (string \<times> bytes) list) \<Rightarrow> 'w deed \<Rightarrow> (string \<times> bytes) list" where
  "deed_letters log d = (case d of (i, w, w') \<Rightarrow> drop (length (log (outside w))) (log (outside w')))"

definition outcomes :: "('w \<Rightarrow> (string \<times> bytes) list) \<Rightarrow> 'w deed \<Rightarrow> nat" where
  "outcomes log d = count_of Processed (deed_points d) + count_of Skipped (deed_points d) + length (deed_letters log d)"

definition earned :: "subscription \<Rightarrow> string multiset" where
  "earned sc = mset (sc_hook_ok sc) + mset (sc_handler_acks sc)"

text \<open>A deed on the books: what it did, and that it earned an acknowledgement exactly by one outcome.\<close>

definition booked :: "('w \<Rightarrow> (string \<times> bytes) list) \<Rightarrow> string \<Rightarrow> 'w deed \<Rightarrow> bool \<Rightarrow> bool" where
  "booked log stream d ok \<longleftrightarrow> outcomes log d = (if ok then 1 else 0) \<and> fst ` set (deed_letters log d) \<subseteq> {stream @ ''.dlq''}
     \<and> metrics (snd (snd d)) = metrics (fst (snd d)) @ deed_points d"

definition serve_inv ::
    "('w \<Rightarrow> (string \<times> bytes) list) \<Rightarrow> 'w runtime \<Rightarrow> 'w ctx \<Rightarrow> 'w consumer \<Rightarrow> string list \<Rightarrow> string \<Rightarrow> Subscriber \<Rightarrow> 'w served \<Rightarrow> bool" where
  "serve_inv log rt run_ctx c topics topic s v \<longleftrightarrow>
     run_subscriber c = Inr s \<and> topic \<in> set topics \<and> inst_live (co_inst c)
     \<and> sub_inv s (sv_sub v) \<and> sc_stream (sv_sub v) = streamName c topic
     \<and> (logs_letters log rt c run_ctx \<longrightarrow>
          earned (sv_sub v) = mset (map fst (filter (\<lambda>d. outcomes log d = 1) (sv_deeds v)))
          \<and> list_all (\<lambda>d. \<exists>ok. booked log (streamName c topic) d ok) (sv_deeds v)
          \<and> metrics (sv_world v) = concat (map deed_points (sv_deeds v)))"

lemma bookedI:
  assumes "metrics w' = metrics w @ ps" and "log (outside w') = log (outside w) @ ds"
    and "count_of Processed ps + count_of Skipped ps + length ds = (if ok then 1 else 0)"
    and "\<forall>x \<in> set ds. fst x = stream @ ''.dlq''"
  shows "booked log stream (i, w, w') ok"
  using assms by (auto simp: booked_def outcomes_def deed_points_def deed_letters_def)

lemma dispatch_booked:
  assumes "dispatch rt c ctx topic payload md w = (res, w')" and "inst_live (co_inst c)"
    and "logs_letters log rt c run_ctx" and "FromContext ctx = FromContext run_ctx"
  shows "booked log (streamName c topic) (i, w, w') (res = Ret None)"
proof -
  from dispatch_files [OF assms(1,2) logs_ctx_cong [OF assms(4,3)]] show ?thesis
    by (auto simp: filed_def dlqStream_def intro!: bookedI)
qed

lemma undecodable_booked:
  fixes e :: Entry
  assumes "topic \<in> set topics" and "inst_live (co_inst c)" and log: "logs_letters log rt c ctx"
    and "handleUndecodable rt c ctx (topicByStream c topics) (streamName c topic) (en_ID e) (en_Fields e) w = (hook, w')"
  shows "booked log (streamName c topic) (i, w, w') (hook = None)"
proof -
  note d = assms(4) [unfolded handleUndecodable_known [OF assms(1)] Let_def]
  from deadLetter_metrics [OF d assms(2)] assms(2)
  obtain ps where ps: "metrics w' = metrics w @ \<lparr>pt_instrument = Received, pt_value = 1, pt_attrs = [(''topic'', topic)]\<rparr> # ps"
    "pt_instrument ` set ps \<subseteq> {Dlq, DlqPublishFailures}" by auto
  then have none: "count_of Processed ps = 0" "count_of Skipped ps = 0" by (auto intro!: count_of_0)
  have now: "log (snd (os_now rt (outside w))) = log (outside w)" using log by (simp add: logs_letters_def)
  from deadLetter_files [OF d log] obtain ds where "log (outside w') = log (outside w) @ ds"
    "length ds = (if hook = None then 1 else 0)" "\<forall>x \<in> set ds. fst x = streamName c topic @ ''.dlq''"
    by cases (fastforce simp: now dlqStream_def)+
  with none show ?thesis
    by (intro bookedI [OF ps(1), where ds = ds]) (auto simp: count_of_def)
qed

text \<open>A step with a deed keeps the ledger right.\<close>

lemma ledger_step:
  assumes "earned sc = mset (map fst (filter (\<lambda>d. outcomes log d = 1) ds))" and "list_all (\<lambda>d. \<exists>ok. booked log stream d ok) ds"
    and "metrics w = concat (map deed_points ds)"
    and "booked log stream (i, w, w') ok" and "earned sc' = earned sc + (if ok then {#i#} else {#})"
  shows "earned sc' = mset (map fst (filter (\<lambda>d. outcomes log d = 1) (ds @ [(i, w, w')])))
    \<and> list_all (\<lambda>d. \<exists>ok. booked log stream d ok) (ds @ [(i, w, w')]) \<and> metrics w' = concat (map deed_points (ds @ [(i, w, w')]))"
  using assms by (auto simp: booked_def)

section \<open>What each step earns\<close>

lemma emit_frame:
  assumes "emit s um e n b sc = Some (go_on, sc')"
  shows "sc_stream sc' = sc_stream sc"
  using assms by (auto elim!: emit_cases dest: core_fields)

lemma emit_earned:
  assumes "emit s um e n b sc = Some (go_on, sc')"
  shows "earned sc' = earned sc
    + (case b of Answers hook acked \<Rightarrow> if sb_onUndecodable s \<and> hook = None then {#en_ID e#} else {#} | _ \<Rightarrow> {#})"
  using assms
  by (auto simp: emit_def emit_undecodable_def release_Some earned_def Let_def ack_def sc_log_def
      split: sum.splits emit_branch.splits option.splits if_splits)

lemma earned_frame [simp]:
  "earned (sc\<lparr>sc_read := pc\<rparr>) = earned sc" "earned (sc\<lparr>sc_claim := pc'\<rparr>) = earned sc" "earned (sc\<lparr>sc_sem := n\<rparr>) = earned sc"
  "earned (sc_log l m as sc) = earned sc" "earned (recreateGroup ensured sc) = earned sc"
  by (simp_all add: earned_def)

lemma emit_quiet:
  assumes "emit s um e n b sc = Some (go_on, sc')"
  shows "sc_stream sc' = sc_stream sc \<and> ((\<forall>hook acked. b \<noteq> Answers hook acked) \<longrightarrow> earned sc' = earned sc)"
  using emit_frame [OF assms] emit_earned [OF assms] by (auto split: emit_branch.splits)

lemmas step_splits = read_event.splits claim_event.splits read_pc.splits claim_pc.splits sum.splits list.splits
  option.splits if_splits

lemma read_step_frame:
  assumes "read_step s um ev sc = Some sc'"
  shows "sc_stream sc' = sc_stream sc \<and> ((\<forall>hook acked. ev \<noteq> REmitted (Answers hook acked)) \<longrightarrow> earned sc' = earned sc)"
  using assms
  by (auto simp: read_step_def after_read_def release_Some acquire_Some Let_def split: step_splits dest!: emit_quiet)

lemma claim_step_frame:
  assumes "claim_step s um ev sc = Some sc'"
  shows "sc_stream sc' = sc_stream sc \<and> ((\<forall>hook acked. ev \<noteq> CEmitted (Answers hook acked)) \<longrightarrow> earned sc' = earned sc)"
  using assms
  by (auto simp: claim_step_def after_scan_def after_claim_def release_Some acquire_Some Let_def split: step_splits
      dest!: emit_quiet)

lemma exec_frame: "exec s um ev sc = Some sc' \<Longrightarrow> sc_stream sc' = sc_stream sc"
  by (cases ev; auto simp: exec_def settle_def settle_late_def waiter_leaves_def release_Some Let_def
      dest: read_step_frame claim_step_frame split: if_splits settlement.splits)

lemma quiet_earned: "quiet ev \<Longrightarrow> exec s um ev sc = Some sc' \<Longrightarrow> earned sc' = earned sc"
  by (cases ev rule: quiet.cases)
    (auto simp: exec_def waiter_leaves_def release_Some Let_def dest: read_step_frame claim_step_frame
      split: if_splits settlement.splits, auto simp: earned_def)

lemma hook_earned:
  assumes "emitting claiming sc = Some e" and "exec s um (hook_event claiming hook acked) sc = Some sc'"
    and "sb_onUndecodable s"
  shows "earned sc' = earned sc + (if hook = None then {#en_ID e#} else {#})"
proof -
  obtain n go_on sc1 where "emit s um e n (Answers hook acked) sc = Some (go_on, sc1)" "earned sc' = earned sc1"
    using assms(1,2)
    by (auto simp: emitting_def hook_event_def exec_def read_step_def claim_step_def earned_def
        split: if_splits read_pc.splits claim_pc.splits)
  with emit_earned [OF this(1)] assms(3) show ?thesis by simp
qed

lemma settle_earned:
  "exec s um (settle_event i res) sc = Some sc' \<Longrightarrow>
     earned sc' = earned sc + (if res = Ret None then {#wt_ID (sc_waiters sc ! i)#} else {#})"
  by (auto simp: settle_event_def exec_def settle_def earned_def split: if_splits)

lemma late_earned:
  "exec s um (late_event i res) sc = Some sc' \<Longrightarrow>
     earned sc' = earned sc + (if res = Ret None then {#sc_left sc ! i#} else {#})"
  by (auto simp: late_event_def exec_def settle_late_def earned_def Let_def split: if_splits)

lemma subscribed:
  "Subscribe s stream ensured = Inr sc \<Longrightarrow> sc_stream sc = stream \<and> sc_hook_ok sc = [] \<and> sc_handler_acks sc = []"
  by (auto simp: Subscribe_def split: option.splits)

interpretation serving: inductive_invariant "serve_init c topics topic s" "serve_step rt c run_ctx topics topic s um"
    "serve_inv log rt run_ctx c topics topic s" for c topics topic s rt run_ctx um log
proof
  show "serve_inv log rt run_ctx c topics topic s v" if "serve_init c topics topic s v" for v
  proof -
    have sub: "Subscribe s (streamName c topic) None = Inr (sv_sub v)" using that by (simp add: serve_init_def)
    moreover have "\<exists>opts. NewSubscriber opts = Inr s"
      using that by (auto simp: serve_init_def run_subscriber_def Let_def)
    ultimately have "sub_inv s (sv_sub v)" by (intro subscription.inv_init [where stream = "streamName c topic"]) (simp add: sub_init_def)
    with that subscribed [OF sub] show ?thesis by (simp add: serve_init_def serve_inv_def earned_def)
  qed
  show "serve_inv log rt run_ctx c topics topic s v'"
    if inv: "serve_inv log rt run_ctx c topics topic s v" and "serve_step rt c run_ctx topics topic s um v v'" for v v'
    using that(2)
  proof (cases rule: serve_step.cases)
    case (own ev sc)
    then show ?thesis
      using inv exec_inv [OF own(3)] quiet_earned [OF own(2,3)] exec_frame [OF own(3)] by (simp add: serve_inv_def)
  next
    case outside
    then show ?thesis using inv by (simp add: serve_inv_def)
  next
    case (undecodable claiming e hook w acked sc)
    have known: "topic \<in> set topics" "inst_live (co_inst c)" "sc_stream (sv_sub v) = streamName c topic" "sb_onUndecodable s"
      using inv run_subscriber_ok [of c] by (auto simp: serve_inv_def)
    have "booked log (streamName c topic) (en_ID e, sv_world v, w) (hook = None)" if "logs_letters log rt c run_ctx"
      using undecodable_booked [OF known(1,2) that] undecodable(3) known(3) by simp
    note step = ledger_step [OF _ _ _ this hook_earned [OF undecodable(2,4) known(4)]]
    show ?thesis
      using inv exec_inv [OF undecodable(4)] exec_frame [OF undecodable(4)] step unfolding serve_inv_def undecodable(1) by simp
  next
    case (delivery m i ctx res w sc)
    have live: "inst_live (co_inst c)" using inv by (simp add: serve_inv_def)
    note booked = dispatch_booked [OF delivery(6) live _ delivery(5), of log "md_get (msg_Metadata m) MetadataStreamID"]
    note step = ledger_step [OF _ _ _ booked settle_earned [OF delivery(7), folded delivery(4)]]
    show ?thesis
      using inv exec_inv [OF delivery(7)] exec_frame [OF delivery(7)] step unfolding serve_inv_def delivery(1) by simp
  next
    case (late m i ctx res w sc)
    have live: "inst_live (co_inst c)" using inv by (simp add: serve_inv_def)
    note booked = dispatch_booked [OF late(6) live _ late(5), of log "md_get (msg_Metadata m) MetadataStreamID"]
    note step = ledger_step [OF _ _ _ booked late_earned [OF late(7), folded late(4)]]
    show ?thesis
      using inv exec_inv [OF late(7)] exec_frame [OF late(7)] step unfolding serve_inv_def late(1) by simp
  qed
qed

section \<open>At least once, end to end\<close>

text \<open>
  C1. An entry is acknowledged only for its own outcome. Of a topic served by a running consumer, in
  every interleaving of reading, claiming, deliveries, handler outcomes, hook calls, cancellation and
  \<open>Close\<close>: the ids XACKed, with those acked and about to be and those acked after their goroutine had
  given up on \<open>Close\<close>, are, as a multiset, the ids of the entries of which a delivery, or the hook, ended
  with an outcome of its own: that very call counted one processed or one skipped, or the dead-letter
  sink accepted one document from it, on the topic's \<open>.dlq\<close> stream. No call has more than one outcome,
  one without leaves its entry pending, and the metrics hold nothing else. Before \<open>Close\<close> no ack is late.
\<close>

theorem served_acks_accounted:
  assumes "reach (serve_init c topics topic s) (serve_step rt c run_ctx topics topic s um) v"
    and "logs_letters log rt c run_ctx"
  shows "mset (sc_xacks (sv_sub v)) + mset (acked_ids (sc_waiters (sv_sub v))) + mset (sc_late (sv_sub v))
      = mset (map fst (filter (\<lambda>d. outcomes log d = 1) (sv_deeds v)))
    \<and> (\<forall>d \<in> set (sv_deeds v). outcomes log d \<le> 1 \<and> fst ` set (deed_letters log d) \<subseteq> {streamName c topic @ ''.dlq''})
    \<and> metrics (sv_world v) = concat (map deed_points (sv_deeds v))
    \<and> (\<not> sc_closing (sv_sub v) \<longrightarrow> sc_late (sv_sub v) = [])"
proof -
  note inv = serving.reach_inv [OF assms(1), of log, unfolded serve_inv_def]
  have books: "\<forall>d \<in> set (sv_deeds v). \<exists>ok. booked log (streamName c topic) d ok" using inv assms(2) by (simp add: list_all_iff)
  have "\<forall>d \<in> set (sv_deeds v). outcomes log d \<le> 1 \<and> fst ` set (deed_letters log d) \<subseteq> {streamName c topic @ ''.dlq''}"
  proof
    fix d assume "d \<in> set (sv_deeds v)"
    with books obtain ok where "booked log (streamName c topic) d ok" by blast
    then show "outcomes log d \<le> 1 \<and> fst ` set (deed_letters log d) \<subseteq> {streamName c topic @ ''.dlq''}"
      by (simp add: booked_def)
  qed
  moreover have "acks_ok (sv_sub v)" using inv by (simp add: sub_inv_def)
  ultimately show ?thesis using inv assms(2) by (simp add: acks_ok_def earned_def)
qed

section \<open>A served event\<close>

definition readable :: unmarshaller where
  "readable fs = Inr \<lparr>msg_UUID = ''u'', msg_Payload = sample_event, msg_Metadata = Map.empty\<rparr>"

definition good_entry :: Entry where
  "good_entry = \<lparr>en_ID = ''1-0'', en_Fields = []\<rparr>"

definition good_message :: message where
  "good_message = \<lparr>msg_UUID = ''u'', msg_Payload = sample_event,
     msg_Metadata = Map.empty(MetadataStreamID \<mapsto> ''1-0'', MetadataDeliveryAttempt \<mapsto> FormatInt 1)\<rparr>"

definition reading_events :: "event list" where
  "reading_events = [ReadLoop RGotSlot, ReadLoop (RRead (Inr [good_entry]) None), ReadLoop (REmitted SendBranch)]"

lemma own_events:
  assumes "reach (serve_init c topics topic s) (serve_step rt c run_ctx topics topic s um) v"
    and "list_all quiet evs" and "run_events s um evs (sv_sub v) = Some sc"
  shows "reach (serve_init c topics topic s) (serve_step rt c run_ctx topics topic s um) (v\<lparr>sv_sub := sc\<rparr>)"
  using assms
proof (induction evs arbitrary: v)
  case (Cons ev evs)
  then obtain sc1 where e: "exec s um ev (sv_sub v) = Some sc1" and r: "run_events s um evs sc1 = Some sc"
    by (auto split: option.splits)
  have "reach (serve_init c topics topic s) (serve_step rt c run_ctx topics topic s um) (v\<lparr>sv_sub := sc1\<rparr>)"
    using Cons.prems(1) serve_step.own [OF _ e] Cons.prems(2) by (auto intro: reach_step [where step = "serve_step rt c run_ctx topics topic s um"])
  from Cons.IH [OF this] Cons.prems(2) r show ?case by simp
next
  case (Nil v)
  then show ?case by (cases v) simp
qed

lemma wired_subscriber: "run_subscriber c = Inr s \<Longrightarrow> 1 \<le> sb_concurrency s"
  using run_subscriber_ok [of c] by auto

text \<open>A consumer whose handler succeeds, with the sink that keeps its documents.\<close>

definition serving_consumer :: "shelf consumer" where
  "serving_consumer = shelf_consumer\<lparr>co_registry := registerAll [Typed ''t'' ''a.b'' 1 (\<lambda>ctx env w. (Ret None, w))]\<rparr>"

lemma serving_consumer_simps:
  "inst_live (co_inst serving_consumer)" "cc_MaxDeliveryAttempts (cfg_Consumer (co_cfg serving_consumer)) = 5"
  "lookup (co_registry serving_consumer) ''t'' ''a.b'' 1 = (Some (\<lambda>ctx env w. (Ret None, w)), MatchTyped)"
  by (simp_all add: serving_consumer_def shelf_consumer_def registerAll_def newRegistry_def addTyped_def lookup_def Let_def)

lemma serving_logs: "logs_letters id sample_runtime serving_consumer sample_context"
  by (auto simp: logs_letters_def sample_runtime_def serving_consumer_def shelf_consumer_def sink_for_def FromContext_def
      sample_context_def shelf_sink_def newRegistry_def registerAll_def addTyped_def Let_def)

lemma serving_ok:
  assumes "deliveryAttempt md \<le> 5"
  shows "fst (dispatch sample_runtime serving_consumer sample_context ''t'' sample_event md (start_world [])) = Ret None"
proof -
  have d: "decide serving_consumer ''t'' sample_event md = Invoke (\<lambda>ctx env w. (Ret None, w)) MatchTyped sample_envelope"
    using assms sample_version
    by (simp add: decide_def sample_event_decodes sample_validates serving_consumer_simps)
      (simp add: sample_envelope_def serving_consumer_simps)
  obtain ctx' ids r w1 where o: "fst (dispatch sample_runtime serving_consumer sample_context ''t'' sample_event md (start_world [])) =
      fst (dispatch_body sample_runtime serving_consumer ctx' ''t'' sample_event md
             (dispatch_logger serving_consumer sample_event md ids) r w1)"
    by (rule fst_dispatch)
  show ?thesis
    unfolding o by (simp add: dispatch_body_decide d Let_def runWithRetry_def retry_loop.simps out_def split_beta)
qed

theorem served_acks_accounted_witness:
  "\<exists>s v w w'. reach (serve_init serving_consumer [''t''] ''t'' s)
        (serve_step sample_runtime serving_consumer sample_context [''t''] ''t'' s readable) v
     \<and> sc_xacks (sv_sub v) = [''1-0''] \<and> sc_late (sv_sub v) = [] \<and> sv_deeds v = [(''1-0'', w, w')]
     \<and> outcomes id (''1-0'', w, w') = 1 \<and> metrics w' = deed_points (''1-0'', w, w')"
proof -
  let ?c = serving_consumer and ?w = "start_world [] :: shelf world"
  obtain s where s: "run_subscriber ?c = Inr s" using run_subscriber_ok by blast
  let ?reach = "reach (serve_init ?c [''t''] ''t'' s) (serve_step sample_runtime ?c sample_context [''t''] ''t'' s readable)"
  obtain sc where sub: "Subscribe s (streamName ?c ''t'') None = Inr sc" by (auto simp: Subscribe_def)
  let ?v0 = "\<lparr>sv_sub = sc, sv_world = ?w, sv_deeds = []\<rparr>"
  have 0: "?reach ?v0"
    by (rule reach_init [where init = "serve_init ?c [''t''] ''t'' s"])
      (simp add: serve_init_def s sub serving_consumer_simps start_world_def)
  obtain sc1 where r: "run_events s readable reading_events sc = Some sc1"
    and sc1: "sc_sent sc1 = [good_message]" "sc_waiters sc1 = [\<lparr>wt_ID = ''1-0'', wt_settled = Waiting\<rparr>]"
      "sc_xacks sc1 = []" "\<not> sc_closing sc1" "sc_handler_acks sc1 = []" "sc_sem sc1 = 1"
    using sub wired_subscriber [OF s]
    by (auto simp: Subscribe_def reading_events_def exec_def read_step_def acquire_def after_read_def emit_def decodeEntry_def
        readable_def good_message_def good_entry_def)
  have 1: "?reach (?v0\<lparr>sv_sub := sc1\<rparr>)"
    by (rule own_events [OF 0, where evs = reading_events]) (simp_all add: r, simp add: reading_events_def)
  have md: "deliveryAttempt (msg_Metadata good_message) \<le> 5"
    using deliveryAttempt_stamped [of 1 "Map.empty(MetadataStreamID \<mapsto> ''1-0'')"] by (simp add: good_message_def)
  obtain w where d: "dispatch sample_runtime ?c sample_context ''t'' (msg_Payload good_message) (msg_Metadata good_message) ?w = (Ret None, w)"
    using serving_ok [OF md]
    by (cases "dispatch sample_runtime ?c sample_context ''t'' sample_event (msg_Metadata good_message) ?w") (simp add: good_message_def)
  obtain sc2 where e: "exec s readable (settle_event 0 (Ret None)) sc1 = Some sc2"
    and sc2: "sc_waiters sc2 = [\<lparr>wt_ID = ''1-0'', wt_settled = MsgAcked\<rparr>]" "sc_xacks sc2 = []" "\<not> sc_closing sc2" "sc_sem sc2 = 1"
    using sc1 by (simp add: settle_event_def exec_def settle_def)
  let ?v2 = "(?v0\<lparr>sv_sub := sc1\<rparr>)\<lparr>sv_sub := sc2, sv_world := w,
      sv_deeds := sv_deeds (?v0\<lparr>sv_sub := sc1\<rparr>) @ [(md_get (msg_Metadata good_message) MetadataStreamID, sv_world (?v0\<lparr>sv_sub := sc1\<rparr>), w)]\<rparr>"
  have "serve_step sample_runtime ?c sample_context [''t''] ''t'' s readable (?v0\<lparr>sv_sub := sc1\<rparr>) ?v2"
    by (rule serve_step.delivery [where m = good_message and i = 0 and ctx = sample_context and res = "Ret None"])
      (use sc1 d e in \<open>simp_all add: good_message_def md_get_def MetadataStreamID_def MetadataDeliveryAttempt_def\<close>)
  with 1 have 2: "?reach ?v2"
    by (rule reach_step [where step = "serve_step sample_runtime ?c sample_context [''t''] ''t'' s readable"])
  obtain sc3 where e3: "run_events s readable [WaiterLeaves 0 None] sc2 = Some sc3"
    and sc3: "sc_xacks sc3 = [''1-0'']" "sc_waiters sc3 = []" "\<not> sc_closing sc3"
    using sc2 by (simp add: exec_def waiter_leaves_def ack_def release_def)
  let ?v = "\<lparr>sv_sub = sc3, sv_world = w, sv_deeds = [(''1-0'', ?w, w)]\<rparr>"
  have "md_get (msg_Metadata good_message) MetadataStreamID = ''1-0''"
    by (simp add: good_message_def md_get_def MetadataStreamID_def MetadataDeliveryAttempt_def)
  then have 3: "?reach ?v" using own_events [OF 2, of "[WaiterLeaves 0 None]" sc3] e3 by simp
  from served_acks_accounted [OF this serving_logs] sc3
  have "outcomes id (''1-0'', ?w, w) = 1" "sc_late sc3 = []" "metrics w = deed_points (''1-0'', ?w, w)"
    by (simp_all split: if_splits)
  with 3 sc3 show ?thesis
    by (intro exI [of _ s] exI [of _ ?v] exI [of _ ?w] exI [of _ w]) simp
qed

end
