(* ===== verification/Subscriber_Pool.thy ===== *)
theory Subscriber_Pool
  imports Subscriber
begin

text \<open>
  What a subscription promises, as a pool of work with ten rules, and the simulation that the state
  machine of theory \<open>Subscriber\<close> implements it: loops, semaphore channel and goroutines are gone.
\<close>

section \<open>The pool\<close>

text \<open>
  \<open>pl_slots\<close> counts the slots taken for which no entry is in work yet, \<open>pl_working\<close> holds the entries
  whose handler has not settled, \<open>pl_passed\<close> and \<open>pl_failed\<close> those it settled, \<open>pl_acked\<close> the ones
  acknowledged in Redis.
\<close>

record pool =
  pl_slots :: nat
  pl_working :: "string multiset"
  pl_passed :: "string multiset"
  pl_failed :: "string multiset"
  pl_acked :: "string multiset"
  pl_closed :: bool

definition pool_load :: "pool \<Rightarrow> nat" where
  "pool_load p = pl_slots p + size (pl_working p) + size (pl_passed p) + size (pl_failed p)"

definition empty_pool :: pool where
  "empty_pool = \<lparr>pl_slots = 0, pl_working = {#}, pl_passed = {#}, pl_failed = {#}, pl_acked = {#}, pl_closed = False\<rparr>"

inductive pool_step :: "int \<Rightarrow> pool \<Rightarrow> pool \<Rightarrow> bool" for cap where
  take_slot: "int (pool_load p) < cap \<Longrightarrow> pool_step cap p (p\<lparr>pl_slots := pl_slots p + 1\<rparr>)"
| give_back: "0 < pl_slots p \<Longrightarrow> pool_step cap p (p\<lparr>pl_slots := pl_slots p - 1\<rparr>)"
| set_aside: "0 < pl_slots p \<Longrightarrow> pool_step cap p (p\<lparr>pl_slots := pl_slots p - 1, pl_acked := pl_acked p + {#i#}\<rparr>)"
| begin_work: "0 < pl_slots p \<Longrightarrow> pool_step cap p (p\<lparr>pl_slots := pl_slots p - 1, pl_working := pl_working p + {#i#}\<rparr>)"
| pass: "pl_working p = w + {#i#} \<Longrightarrow> pool_step cap p (p\<lparr>pl_working := w, pl_passed := pl_passed p + {#i#}\<rparr>)"
| fail: "pl_working p = w + {#i#} \<Longrightarrow> pool_step cap p (p\<lparr>pl_working := w, pl_failed := pl_failed p + {#i#}\<rparr>)"
| acknowledge: "pl_passed p = w + {#i#} \<Longrightarrow> pool_step cap p (p\<lparr>pl_passed := w, pl_acked := pl_acked p + {#i#}\<rparr>)"
| forget: "pl_failed p = w + {#i#} \<Longrightarrow> pool_step cap p (p\<lparr>pl_failed := w\<rparr>)"
| close: "pool_step cap p (p\<lparr>pl_closed := True\<rparr>)"
| abandon: "pl_closed p \<Longrightarrow> pl_working p = w + {#i#} \<Longrightarrow> pool_step cap p (p\<lparr>pl_working := w\<rparr>)"

text \<open>The pool a subscription is.\<close>

definition settled_ids :: "settlement \<Rightarrow> waiter list \<Rightarrow> string multiset" where
  "settled_ids st ws = mset (map wt_ID (filter (\<lambda>w. wt_settled w = st) ws))"

definition pool_of :: "subscription \<Rightarrow> pool" where
  "pool_of sc =
     \<lparr>pl_slots = read_holds (sc_read sc) + claim_holds (sc_claim sc),
      pl_working = settled_ids Waiting (sc_waiters sc), pl_passed = settled_ids MsgAcked (sc_waiters sc),
      pl_failed = settled_ids MsgNacked (sc_waiters sc), pl_acked = mset (sc_xacks sc), pl_closed = sc_closing sc\<rparr>"

section \<open>Simulation\<close>

lemma settled_ids_simps [simp]:
  "settled_ids st [] = {#}" "settled_ids st (ws @ vs) = settled_ids st ws + settled_ids st vs"
  "settled_ids st (w # ws) = (if wt_settled w = st then {#wt_ID w#} else {#}) + settled_ids st ws"
  by (simp_all add: settled_ids_def)

lemma size_settled: "size (settled_ids Waiting ws) + size (settled_ids MsgAcked ws) + size (settled_ids MsgNacked ws) = length ws"
proof (induction ws)
  case (Cons w ws)
  then show ?case by (cases "wt_settled w") simp_all
qed simp

text \<open>Every token in the semaphore channel is part of the pool's load.\<close>

lemma pool_load_of: "slots_ok s sc \<Longrightarrow> pool_load (pool_of sc) = sc_sem sc"
  using size_settled [of "sc_waiters sc"] by (simp add: pool_load_def pool_of_def slots_ok_def)

text \<open>The steps of the two loops, by what they do to the slot the loop holds.\<close>

definition loop_step :: "int \<Rightarrow> subscription \<Rightarrow> subscription \<Rightarrow> bool" where
  "loop_step cap sc sc' \<longleftrightarrow> sc_closing sc' = sc_closing sc \<and>
     (let h = read_holds (sc_read sc) + claim_holds (sc_claim sc); h' = read_holds (sc_read sc') + claim_holds (sc_claim sc')
      in (h' = h \<and> sc_waiters sc' = sc_waiters sc \<and> sc_xacks sc' = sc_xacks sc)
       \<or> (h' = h + 1 \<and> int (sc_sem sc) < cap \<and> sc_waiters sc' = sc_waiters sc \<and> sc_xacks sc' = sc_xacks sc)
       \<or> (h = h' + 1 \<and> sc_waiters sc' = sc_waiters sc
          \<and> (\<exists>ids. (ids = [] \<or> length ids = 1) \<and> sc_xacks sc' = sc_xacks sc @ ids))
       \<or> (h = h' + 1 \<and> (\<exists>i. sc_waiters sc' = sc_waiters sc @ [\<lparr>wt_ID = i, wt_settled = Waiting\<rparr>]) \<and> sc_xacks sc' = sc_xacks sc))"

lemma emit_loop_step:
  assumes "emit s um e n b sc = Some (go_on, sc1)"
  shows "sc_closing sc1 = sc_closing sc \<and> sc_read sc1 = sc_read sc \<and> sc_claim sc1 = sc_claim sc
    \<and> ((sc_waiters sc1 = sc_waiters sc \<and> (\<exists>ids. (ids = [] \<or> length ids = 1) \<and> sc_xacks sc1 = sc_xacks sc @ ids))
      \<or> ((\<exists>i. sc_waiters sc1 = sc_waiters sc @ [\<lparr>wt_ID = i, wt_settled = Waiting\<rparr>]) \<and> sc_xacks sc1 = sc_xacks sc))"
  using assms
proof (cases rule: emit_cases)
  case (bad err ids)
  from core_fields [OF bad(5)] bad(4) show ?thesis by auto
qed auto

lemma after_read_frame:
  "after_read res ensured sc = Some sc' \<Longrightarrow> sc_claim sc' = sc_claim sc \<and> sc_closing sc' = sc_closing sc
    \<and> sc_waiters sc' = sc_waiters sc \<and> sc_xacks sc' = sc_xacks sc \<and> read_holds (sc_read sc') \<le> 1"
  by (auto simp: after_read_def release_Some Let_def split: sum.splits list.splits option.splits if_splits)

lemma after_scan_frame:
  "sc_read (after_scan res ensured sc) = sc_read sc \<and> sc_closing (after_scan res ensured sc) = sc_closing sc
    \<and> sc_waiters (after_scan res ensured sc) = sc_waiters sc \<and> sc_xacks (after_scan res ensured sc) = sc_xacks sc
    \<and> claim_holds (sc_claim (after_scan res ensured sc)) = 0"
  by (simp add: after_scan_def Let_def split: sum.split)

lemma after_claim_frame:
  "after_claim p ps res ensured sc = Some sc' \<Longrightarrow> sc_read sc' = sc_read sc \<and> sc_closing sc' = sc_closing sc
    \<and> sc_waiters sc' = sc_waiters sc \<and> sc_xacks sc' = sc_xacks sc \<and> claim_holds (sc_claim sc') \<le> 1"
  by (auto simp: after_claim_def release_Some Let_def split: sum.splits list.splits option.splits if_splits)

lemma read_loop_step: "read_step s um ev sc = Some sc' \<Longrightarrow> loop_step (sb_concurrency s) sc sc'"
proof (cases "sc_read sc")
  case (REmit e)
  assume "read_step s um ev sc = Some sc'"
  with REmit obtain b go_on sc1 where e: "emit s um e 1 b sc = Some (go_on, sc1)"
    and sc': "sc' = sc1\<lparr>sc_read := (if go_on then RAcquire else RDone)\<rparr>"
    by (auto simp: read_step_def split: read_event.splits)
  show ?thesis using emit_loop_step [OF e] REmit by (simp add: sc' loop_step_def)
next
  case RReading
  assume "read_step s um ev sc = Some sc'"
  with RReading obtain res ensured where "after_read res ensured sc = Some sc'"
    by (auto simp: read_step_def split: read_event.splits)
  from after_read_frame [OF this] RReading show ?thesis by (cases "read_holds (sc_read sc')") (auto simp: loop_step_def)
qed (auto simp: loop_step_def read_step_def acquire_Some split: read_event.splits if_splits)

lemma claim_loop_step: "claim_step s um ev sc = Some sc' \<Longrightarrow> loop_step (sb_concurrency s) sc sc'"
proof (cases "sc_claim sc")
  case (CEmit e n ps)
  assume "claim_step s um ev sc = Some sc'"
  with CEmit obtain b go_on sc1 where e: "emit s um e n b sc = Some (go_on, sc1)"
    and sc': "sc' = sc1\<lparr>sc_claim := (if go_on then CSweep ps else CDone)\<rparr>"
    by (auto simp: claim_step_def split: claim_event.splits)
  show ?thesis using emit_loop_step [OF e] CEmit by (simp add: sc' loop_step_def)
next
  case CScan
  assume "claim_step s um ev sc = Some sc'"
  with CScan obtain res ensured where "sc' = after_scan res ensured sc"
    by (auto simp: claim_step_def split: claim_event.splits)
  with after_scan_frame [of res ensured sc] CScan show ?thesis by (simp add: loop_step_def)
next
  case (CClaiming p ps)
  assume "claim_step s um ev sc = Some sc'"
  with CClaiming obtain res ensured where "after_claim p ps res ensured sc = Some sc'"
    by (auto simp: claim_step_def split: claim_event.splits)
  from after_claim_frame [OF this] CClaiming show ?thesis by (cases "claim_holds (sc_claim sc')") (auto simp: loop_step_def)
next
  case (CSweep ps)
  assume "claim_step s um ev sc = Some sc'"
  with CSweep show ?thesis
    by (cases ps) (auto simp: loop_step_def claim_step_def acquire_Some split: claim_event.splits if_splits)
qed (auto simp: loop_step_def claim_step_def split: claim_event.splits if_splits)

lemma loop_step_pool:
  assumes "loop_step (sb_concurrency s) sc sc'" and "slots_ok s sc"
  shows "pool_of sc' = pool_of sc \<or> pool_step (sb_concurrency s) (pool_of sc) (pool_of sc')"
proof -
  have load: "pool_load (pool_of sc) = sc_sem sc" using assms(2) by (rule pool_load_of)
  let ?h = "read_holds (sc_read sc) + claim_holds (sc_claim sc)" and ?h' = "read_holds (sc_read sc') + claim_holds (sc_claim sc')"
  have c: "sc_closing sc' = sc_closing sc" using assms(1) by (simp add: loop_step_def)
  consider (stay) "?h' = ?h" "sc_waiters sc' = sc_waiters sc" "sc_xacks sc' = sc_xacks sc"
    | (taken) "?h' = ?h + 1" "int (sc_sem sc) < sb_concurrency s" "sc_waiters sc' = sc_waiters sc" "sc_xacks sc' = sc_xacks sc"
    | (returned) "?h = ?h' + 1" "sc_waiters sc' = sc_waiters sc" "sc_xacks sc' = sc_xacks sc"
    | (aside) i where "?h = ?h' + 1" "sc_waiters sc' = sc_waiters sc" "sc_xacks sc' = sc_xacks sc @ [i]"
    | (sent) i where "?h = ?h' + 1" "sc_waiters sc' = sc_waiters sc @ [\<lparr>wt_ID = i, wt_settled = Waiting\<rparr>]" "sc_xacks sc' = sc_xacks sc"
    using assms(1) unfolding loop_step_def Let_def by (auto simp: length_Suc_conv)
  then show ?thesis
  proof cases
    case stay
    with c show ?thesis by (simp add: pool_of_def)
  next
    case taken
    with c have "pool_of sc' = (pool_of sc)\<lparr>pl_slots := pl_slots (pool_of sc) + 1\<rparr>" by (simp add: pool_of_def)
    with taken(2) load show ?thesis using pool_step.take_slot [of "pool_of sc" "sb_concurrency s"] by simp
  next
    case returned
    with c have "pool_of sc' = (pool_of sc)\<lparr>pl_slots := pl_slots (pool_of sc) - 1\<rparr>" "0 < pl_slots (pool_of sc)"
      by (simp_all add: pool_of_def)
    then show ?thesis using pool_step.give_back [of "pool_of sc"] by simp
  next
    case (aside i)
    with c have "pool_of sc' = (pool_of sc)\<lparr>pl_slots := pl_slots (pool_of sc) - 1, pl_acked := pl_acked (pool_of sc) + {#i#}\<rparr>"
      "0 < pl_slots (pool_of sc)" by (simp_all add: pool_of_def)
    then show ?thesis using pool_step.set_aside [of "pool_of sc"] by simp
  next
    case (sent i)
    with c have "pool_of sc' = (pool_of sc)\<lparr>pl_slots := pl_slots (pool_of sc) - 1, pl_working := pl_working (pool_of sc) + {#i#}\<rparr>"
      "0 < pl_slots (pool_of sc)" by (simp_all add: pool_of_def)
    then show ?thesis using pool_step.begin_work [of "pool_of sc"] by simp
  qed
qed

text \<open>A goroutine leaving, and a handler settling.\<close>

lemma waiter_leaves_cases:
  assumes "waiter_leaves i acked sc = Some sc'"
  obtains w ws1 ws2 where "sc_waiters sc = ws1 @ w # ws2" "sc_waiters sc' = ws1 @ ws2" "sc_read sc' = sc_read sc"
    "sc_claim sc' = sc_claim sc" "sc_closing sc' = sc_closing sc"
    "sc_xacks sc' = sc_xacks sc @ (if wt_settled w = MsgAcked then [wt_ID w] else [])"
    "wt_settled w = Waiting \<longrightarrow> sc_closing sc"
proof -
  have i: "i < length (sc_waiters sc)" using assms by (auto simp: waiter_leaves_def split: if_splits)
  define ws1 w ws2 where "ws1 = take i (sc_waiters sc)" and "w = sc_waiters sc ! i" and "ws2 = drop (Suc i) (sc_waiters sc)"
  have "sc_waiters sc = ws1 @ w # ws2" unfolding ws1_def w_def ws2_def using i by (rule split_at)
  moreover have "sc_waiters sc' = ws1 @ ws2 \<and> sc_read sc' = sc_read sc \<and> sc_claim sc' = sc_claim sc \<and> sc_closing sc' = sc_closing sc
    \<and> sc_xacks sc' = sc_xacks sc @ (if wt_settled w = MsgAcked then [wt_ID w] else []) \<and> (wt_settled w = Waiting \<longrightarrow> sc_closing sc)"
    using assms i by (auto simp: waiter_leaves_def Let_def ws1_def [symmetric] w_def [symmetric] ws2_def [symmetric] release_Some
        split: settlement.splits if_splits)
  ultimately show thesis using that by blast
qed

lemma settle_cases:
  assumes "settle i st sc = Some sc'"
  obtains w ws1 ws2 where "sc_waiters sc = ws1 @ w # ws2" "wt_settled w = Waiting"
    "sc_waiters sc' = ws1 @ w\<lparr>wt_settled := st\<rparr> # ws2" "sc_read sc' = sc_read sc" "sc_claim sc' = sc_claim sc"
    "sc_closing sc' = sc_closing sc" "sc_xacks sc' = sc_xacks sc"
proof -
  have i: "i < length (sc_waiters sc)" using assms by (auto simp: settle_def split: if_splits)
  define ws1 w ws2 where "ws1 = take i (sc_waiters sc)" and "w = sc_waiters sc ! i" and "ws2 = drop (Suc i) (sc_waiters sc)"
  have "sc_waiters sc = ws1 @ w # ws2" unfolding ws1_def w_def ws2_def using i by (rule split_at)
  moreover have "(sc_waiters sc)[i := v] = ws1 @ v # ws2" for v
    unfolding ws1_def ws2_def using i by (rule upd_conv_take_nth_drop)
  ultimately show thesis using that [of ws1 w ws2] assms i by (auto simp: settle_def w_def split: if_splits)
qed

lemma exec_pool:
  assumes "exec s um ev sc = Some sc'" and "slots_ok s sc"
  shows "pool_of sc' = pool_of sc \<or> pool_step (sb_concurrency s) (pool_of sc) (pool_of sc')"
proof (cases ev)
  case Cancel
  with assms(1) show ?thesis by (auto simp: exec_def pool_of_def)
next
  case CloseSubscriber
  with assms(1) have "pool_of sc' = (pool_of sc)\<lparr>pl_closed := True\<rparr>" by (auto simp: exec_def pool_of_def)
  then show ?thesis using pool_step.close [of "sb_concurrency s" "pool_of sc"] by simp
next
  case CloseOut
  with assms(1) show ?thesis by (auto simp: exec_def pool_of_def split: if_splits)
next
  case (ReadLoop rev)
  with assms loop_step_pool [OF read_loop_step] show ?thesis by (simp add: exec_def)
next
  case (ClaimLoop cev)
  with assms loop_step_pool [OF claim_loop_step] show ?thesis by (simp add: exec_def)
next
  case (HandlerAck i)
  with assms(1) have "settle i MsgAcked sc = Some sc'" by (simp add: exec_def)
  then obtain w ws1 ws2 where "sc_waiters sc = ws1 @ w # ws2" "wt_settled w = Waiting"
    "sc_waiters sc' = ws1 @ w\<lparr>wt_settled := MsgAcked\<rparr> # ws2" "sc_read sc' = sc_read sc" "sc_claim sc' = sc_claim sc"
    "sc_closing sc' = sc_closing sc" "sc_xacks sc' = sc_xacks sc" by (rule settle_cases)
  then show ?thesis
    using pool_step.pass [of "pool_of sc" "settled_ids Waiting (ws1 @ ws2)" "wt_ID w"] by (simp add: pool_of_def)
next
  case (HandlerNack i)
  with assms(1) have "settle i MsgNacked sc = Some sc'" by (simp add: exec_def)
  then obtain w ws1 ws2 where "sc_waiters sc = ws1 @ w # ws2" "wt_settled w = Waiting"
    "sc_waiters sc' = ws1 @ w\<lparr>wt_settled := MsgNacked\<rparr> # ws2" "sc_read sc' = sc_read sc" "sc_claim sc' = sc_claim sc"
    "sc_closing sc' = sc_closing sc" "sc_xacks sc' = sc_xacks sc" by (rule settle_cases)
  then show ?thesis
    using pool_step.fail [of "pool_of sc" "settled_ids Waiting (ws1 @ ws2)" "wt_ID w"] by (simp add: pool_of_def)
next
  case (WaiterLeaves i acked)
  with assms(1) have "waiter_leaves i acked sc = Some sc'" by (simp add: exec_def)
  then obtain w ws1 ws2 where w: "sc_waiters sc = ws1 @ w # ws2" "sc_waiters sc' = ws1 @ ws2" "sc_read sc' = sc_read sc"
    "sc_claim sc' = sc_claim sc" "sc_closing sc' = sc_closing sc"
    "sc_xacks sc' = sc_xacks sc @ (if wt_settled w = MsgAcked then [wt_ID w] else [])"
    "wt_settled w = Waiting \<longrightarrow> sc_closing sc" by (rule waiter_leaves_cases)
  show ?thesis
  proof (cases "wt_settled w")
    case Waiting
    with w show ?thesis
      using pool_step.abandon [of "pool_of sc" "settled_ids Waiting (ws1 @ ws2)" "wt_ID w"] by (simp add: pool_of_def)
  next
    case MsgAcked
    with w show ?thesis
      using pool_step.acknowledge [of "pool_of sc" "settled_ids MsgAcked (ws1 @ ws2)" "wt_ID w"] by (simp add: pool_of_def)
  next
    case MsgNacked
    with w show ?thesis
      using pool_step.forget [of "pool_of sc" "settled_ids MsgNacked (ws1 @ ws2)" "wt_ID w"] by (simp add: pool_of_def)
  qed
qed (use assms(1) in \<open>auto simp: exec_def settle_late_def pool_of_def Let_def split: if_splits\<close>)

interpretation pooled: simulation "sub_init s stream" "sub_step s um" "sub_inv s" pool_of "\<lambda>p. p = empty_pool"
    "pool_step (sb_concurrency s)" for s stream um
proof
  show "pool_of sc = empty_pool" if "sub_init s stream sc" for sc
    using that by (auto simp: sub_init_def Subscribe_def pool_of_def empty_pool_def split: if_splits)
  show "pool_of sc' = pool_of sc \<or> pool_step (sb_concurrency s) (pool_of sc) (pool_of sc')"
    if "sub_inv s sc" "sub_step s um sc sc'" for sc sc'
    using that by (auto simp: sub_inv_def elim!: sub_stepE dest: exec_pool)
qed

text \<open>
  C7. A subscription is a pool of work. Every step of either loop, of a goroutine, of a handler or of
  the outside, from any reachable state, is one rule of the pool or invisible in it, so every reachable
  state is a reachable pool: slots are taken below \<open>Concurrency\<close> only, an entry is acknowledged only when
  its handler passed it or it was set aside as undecodable, and given up unsettled only after \<open>Close\<close>.
\<close>

theorem subscription_refines_pool:
  assumes "reach (sub_init s stream) (sub_step s um) sc" and "sub_step s um sc sc'"
  shows "reach (\<lambda>p. p = empty_pool) (pool_step (sb_concurrency s)) (pool_of sc)
    \<and> (pool_of sc' = pool_of sc \<or> pool_step (sb_concurrency s) (pool_of sc) (pool_of sc'))"
  using pooled.reach_abs [OF assms(1)] pooled.sim_step [OF subscription.reach_inv [OF assms(1)] assms(2)] by blast

theorem subscription_refines_pool_witness:
  "\<exists>sc'. exec sample_subscriber sample_unmarshal (HandlerAck 0) busy = Some sc'
     \<and> pl_working (pool_of busy) = {#''1-0''#} \<and> pl_passed (pool_of sc') = {#''1-0''#}
     \<and> pool_step (sb_concurrency sample_subscriber) (pool_of busy) (pool_of sc')"
proof -
  obtain sc' where e: "exec sample_subscriber sample_unmarshal (HandlerAck 0) busy = Some sc'"
    and w: "sc_waiters sc' = [\<lparr>wt_ID = ''1-0'', wt_settled = MsgAcked\<rparr>]"
    by (simp add: exec_def settle_def busy_waiters)
  have p: "pl_working (pool_of busy) = {#''1-0''#}" "pl_passed (pool_of sc') = {#''1-0''#}" "pl_working (pool_of sc') = {#}"
    by (simp_all add: pool_of_def busy_waiters w)
  then have "pool_of sc' \<noteq> pool_of busy" by auto
  with subscription_refines_pool [OF busy_reach sub_step [OF e]] e p show ?thesis by auto
qed

section \<open>Draining\<close>

text \<open>The entries a run of events hands to handlers, and those whose handler settles in it.\<close>

definition msg_entry :: "message \<Rightarrow> string" where
  "msg_entry m = md_get (msg_Metadata m) MetadataStreamID"

definition settled_by :: "event \<Rightarrow> subscription \<Rightarrow> string multiset" where
  "settled_by ev sc =
     (case ev of
        HandlerAck i \<Rightarrow> {#wt_ID (sc_waiters sc ! i)#}
      | HandlerNack i \<Rightarrow> {#wt_ID (sc_waiters sc ! i)#}
      | _ \<Rightarrow> {#})"

fun settled_in :: "Subscriber \<Rightarrow> unmarshaller \<Rightarrow> event list \<Rightarrow> subscription \<Rightarrow> string multiset" where
  "settled_in s um [] sc = {#}"
| "settled_in s um (ev # evs) sc =
     (case exec s um ev sc of None \<Rightarrow> {#} | Some sc' \<Rightarrow> settled_by ev sc + settled_in s um evs sc')"

lemma msg_entry_decoded: "decodeEntry um e n = Inr msg \<Longrightarrow> msg_entry msg = en_ID e"
  by (auto simp: decodeEntry_def msg_entry_def md_get_def MetadataStreamID_def MetadataDeliveryAttempt_def split: sum.splits)

text \<open>What a step of a loop does to the work of the pool: it hands over new messages, nothing else.\<close>

definition hands_over :: "subscription \<Rightarrow> subscription \<Rightarrow> bool" where
  "hands_over sc sc' \<longleftrightarrow> sc_closing sc' = sc_closing sc
     \<and> (\<exists>ms. sc_sent sc' = sc_sent sc @ ms
          \<and> sc_waiters sc' = sc_waiters sc @ map (\<lambda>m. \<lparr>wt_ID = msg_entry m, wt_settled = Waiting\<rparr>) ms)"

lemma hands_over_refl [simp]:
  "sc_closing sc' = sc_closing sc \<Longrightarrow> sc_sent sc' = sc_sent sc \<Longrightarrow> sc_waiters sc' = sc_waiters sc \<Longrightarrow> hands_over sc sc'"
  by (auto simp: hands_over_def)

lemma emit_hands_over:
  assumes "emit s um e n b sc = Some (go_on, sc1)"
  shows "hands_over sc (sc1\<lparr>sc_read := pc\<rparr>) \<and> hands_over sc (sc1\<lparr>sc_claim := pc'\<rparr>)"
  using assms
proof (cases rule: emit_cases)
  case (sent msg)
  then show ?thesis by (auto simp: hands_over_def msg_entry_decoded intro!: exI [of _ "[msg]"])
next
  case (bad err ids)
  from core_fields [OF bad(5)] show ?thesis by simp
qed simp

lemma read_hands_over: "read_step s um ev sc = Some sc' \<Longrightarrow> hands_over sc sc'"
  by (auto simp: read_step_def after_read_def release_Some acquire_Some Let_def dest: emit_hands_over
      split: read_pc.splits read_event.splits sum.splits list.splits option.splits if_splits)

lemma claim_hands_over: "claim_step s um ev sc = Some sc' \<Longrightarrow> hands_over sc sc'"
  by (auto simp: claim_step_def after_scan_def after_claim_def release_Some acquire_Some Let_def dest: emit_hands_over
      split: claim_pc.splits claim_event.splits sum.splits list.splits option.splits if_splits)

lemma settled_waiting: "settled_ids Waiting (map (\<lambda>m. \<lparr>wt_ID = f m, wt_settled = Waiting\<rparr>) ms) = mset (map f ms)"
  by (induction ms) simp_all

lemma hands_over_working:
  "hands_over sc sc' \<Longrightarrow> sc_closing sc' = sc_closing sc \<and> (\<exists>ms. sc_sent sc' = sc_sent sc @ ms
     \<and> pl_working (pool_of sc') = pl_working (pool_of sc) + mset (map msg_entry ms))"
  by (auto simp: hands_over_def pool_of_def settled_waiting)

lemma settle_working:
  assumes "settle i st sc = Some sc'" and "st \<noteq> Waiting"
  shows "sc_closing sc' = sc_closing sc \<and> sc_sent sc' = sc_sent sc
    \<and> pl_working (pool_of sc) = pl_working (pool_of sc') + {#wt_ID (sc_waiters sc ! i)#}"
proof -
  have i: "i < length (sc_waiters sc)" using assms by (auto simp: settle_def split: if_splits)
  define ws1 w ws2 where "ws1 = take i (sc_waiters sc)" and "w = sc_waiters sc ! i" and "ws2 = drop (Suc i) (sc_waiters sc)"
  have ws: "sc_waiters sc = ws1 @ w # ws2" unfolding ws1_def w_def ws2_def using i by (rule split_at)
  have "(sc_waiters sc)[i := v] = ws1 @ v # ws2" for v
    unfolding ws1_def ws2_def using i by (rule upd_conv_take_nth_drop)
  with assms(1) i have "wt_settled w = Waiting" "sc_waiters sc' = ws1 @ w\<lparr>wt_settled := st\<rparr> # ws2"
    "sc_closing sc' = sc_closing sc" "sc_sent sc' = sc_sent sc"
    by (auto simp: settle_def w_def split: if_splits)
  with assms(2) ws have "pl_working (pool_of sc) = pl_working (pool_of sc') + {#wt_ID w#}" by (simp add: pool_of_def)
  then show ?thesis unfolding w_def using \<open>sc_closing sc' = sc_closing sc\<close> \<open>sc_sent sc' = sc_sent sc\<close> by simp
qed

text \<open>One step before \<open>Close\<close> conserves the work: what was there and what is handed over, less what is settled.\<close>

lemma exec_working:
  assumes "exec s um ev sc = Some sc'" and "sub_inv s sc" and "\<not> sc_closing sc" and "ev \<noteq> CloseSubscriber"
  shows "\<not> sc_closing sc' \<and> (\<exists>ms. sc_sent sc' = sc_sent sc @ ms
    \<and> pl_working (pool_of sc) + mset (map msg_entry ms) = pl_working (pool_of sc') + settled_by ev sc)"
proof (cases ev)
  case (ReadLoop rev)
  with assms(1) have "hands_over sc sc'" using read_hands_over by (simp add: exec_def)
  from hands_over_working [OF this] ReadLoop assms(3) show ?thesis by (auto simp: settled_by_def)
next
  case (ClaimLoop cev)
  with assms(1) have "hands_over sc sc'" using claim_hands_over by (simp add: exec_def)
  from hands_over_working [OF this] ClaimLoop assms(3) show ?thesis by (auto simp: settled_by_def)
next
  case (HandlerAck i)
  with assms(1) settle_working [of i MsgAcked sc sc'] assms(3) show ?thesis by (simp add: exec_def settled_by_def)
next
  case (HandlerNack i)
  with assms(1) settle_working [of i MsgNacked sc sc'] assms(3) show ?thesis by (simp add: exec_def settled_by_def)
next
  case (WaiterLeaves i acked)
  with assms(1) have "waiter_leaves i acked sc = Some sc'" by (simp add: exec_def)
  moreover from this have "sc_sent sc' = sc_sent sc"
    by (auto simp: waiter_leaves_def release_Some Let_def split: settlement.splits if_splits)
  ultimately show ?thesis
    using assms(3) WaiterLeaves by (cases rule: waiter_leaves_cases) (auto simp: pool_of_def settled_by_def)
next
  case (LateAck i)
  with assms show ?thesis by (simp add: exec_def settle_late_def sub_inv_defs)
next
  case (LateNack i)
  with assms show ?thesis by (simp add: exec_def settle_late_def sub_inv_defs)
qed (use assms in \<open>auto simp: exec_def pool_of_def settled_by_def split: if_splits\<close>)

lemma run_working:
  assumes "run_events s um evs sc = Some sc'" and "sub_inv s sc" and "\<not> sc_closing sc" and "CloseSubscriber \<notin> set evs"
  shows "\<exists>ms. sc_sent sc' = sc_sent sc @ ms
    \<and> pl_working (pool_of sc) + mset (map msg_entry ms) = pl_working (pool_of sc') + settled_in s um evs sc"
  using assms
proof (induction evs arbitrary: sc)
  case (Cons ev evs)
  let ?w = "\<lambda>x. pl_working (pool_of x)"
  from Cons.prems(1) obtain sc1 where e: "exec s um ev sc = Some sc1" "run_events s um evs sc1 = Some sc'"
    by (auto split: option.splits)
  obtain ms where ms: "\<not> sc_closing sc1" "sc_sent sc1 = sc_sent sc @ ms"
      "?w sc + mset (map msg_entry ms) = ?w sc1 + settled_by ev sc"
    using exec_working [OF e(1) Cons.prems(2,3)] Cons.prems(4) by auto
  obtain ns where ns: "sc_sent sc' = sc_sent sc1 @ ns" "?w sc1 + mset (map msg_entry ns) = ?w sc' + settled_in s um evs sc1"
    using Cons.IH [OF e(2) exec_inv [OF e(1) Cons.prems(2)] ms(1)] Cons.prems(4) by auto
  have "?w sc + mset (map msg_entry (ms @ ns)) = (?w sc1 + settled_by ev sc) + mset (map msg_entry ns)"
    using ms(3) by (simp add: add.assoc)
  also have "\<dots> = (?w sc1 + mset (map msg_entry ns)) + settled_by ev sc" by (simp add: ac_simps)
  also have "\<dots> = ?w sc' + settled_in s um (ev # evs) sc" unfolding ns(2) by (simp add: e(1) ac_simps)
  finally show ?case using ms(2) ns(1) by (intro exI [of _ "ms @ ns"]) simp
qed simp

text \<open>
  C31. A drain never abandons work by itself. In any run from a reachable state in which \<open>Close\<close> is not
  called, cancelled or not and whatever the loops do meanwhile, the messages in flight are conserved one
  by one: those unsettled at the start and those sent to handlers meanwhile are, as multisets of entry
  ids, exactly those unsettled at the end and those whose own handler settled them. So one settlement
  takes out its own message and no other, and without a settlement every message is still in its slot.
\<close>

theorem drain_keeps_in_flight:
  assumes "reach (sub_init s stream) (sub_step s um) sc" and "run_events s um evs sc = Some sc'"
    and "\<not> sc_closing sc" and "CloseSubscriber \<notin> set evs"
  shows "\<exists>ms. sc_sent sc' = sc_sent sc @ ms
    \<and> pl_working (pool_of sc) + mset (map (\<lambda>m. md_get (msg_Metadata m) MetadataStreamID) ms)
        = pl_working (pool_of sc') + settled_in s um evs sc"
  using run_working [OF assms(2) subscription.reach_inv [OF assms(1)] assms(3,4)] by (simp add: msg_entry_def [abs_def])

theorem drain_keeps_in_flight_witness:
  "\<exists>sc'. run_events sample_subscriber sample_unmarshal [Cancel, ReadLoop RStop, HandlerNack 0] busy = Some sc'
     \<and> sc_read sc' = RDone \<and> settled_in sample_subscriber sample_unmarshal [Cancel, ReadLoop RStop, HandlerNack 0] busy = {#''1-0''#}
     \<and> pl_working (pool_of busy) = {#''1-0''#} \<and> pl_working (pool_of sc') = {#}"
proof -
  let ?evs = "[Cancel, ReadLoop RStop, HandlerNack 0]"
  have "sc_read busy = RAcquire" by (simp add: busy_def run_sample)
  then obtain sc' where r: "run_events sample_subscriber sample_unmarshal ?evs busy = Some sc'" "sc_read sc' = RDone"
      "sc_sent sc' = sc_sent busy"
    and set: "settled_in sample_subscriber sample_unmarshal ?evs busy = {#''1-0''#}"
    by (simp add: exec_def read_step_def stopped_def settle_def settled_by_def busy_waiters)
  from drain_keeps_in_flight [OF busy_reach r(1) busy_waiters(3)] r set show ?thesis
    by (simp add: pool_of_def busy_waiters)
qed

end
