(* ===== verification/Redelivery.thy ===== *)
theory Redelivery
  imports Samples Subscriber
begin

text \<open>
  All deliveries of one stream entry: how often its handler runs, from the attempt numbers \<open>emit\<close>
  stamps on the messages it decodes the entry to.
\<close>

section \<open>The deliveries of an entry\<close>

text \<open>
  The messages \<open>emit\<close> made of the entry, in the order they are delivered. \<open>readLoop\<close> stamps 1 on an entry
  it reads, \<open>claimLoop\<close> one more than the deliveries Redis counted for it in \<open>XPENDING\<close>.
\<close>

fun deliveries :: "'w runtime \<Rightarrow> 'w consumer \<Rightarrow> 'w ctx \<Rightarrow> string \<Rightarrow> message list \<Rightarrow> 'w world \<Rightarrow> 'w world" where
  "deliveries rt c ctx topic [] w = w"
| "deliveries rt c ctx topic (m # ms) w =
     deliveries rt c ctx topic ms (snd (dispatch rt c ctx topic (msg_Payload m) (msg_Metadata m) w))"

lemma decoded_attempt:
  assumes "decodeEntry um e n = Inr m" and "1 \<le> n" and "n < 2 ^ 63"
  shows "deliveryAttempt (msg_Metadata m) = n"
proof -
  from assms(1) obtain md where "msg_Metadata m = md(MetadataDeliveryAttempt \<mapsto> FormatInt n)"
    by (auto simp: decodeEntry_def split: sum.splits)
  with deliveryAttempt_stamped [OF assms(2,3)] show ?thesis by simp
qed

definition within_cap :: "'w consumer \<Rightarrow> message \<Rightarrow> bool" where
  "within_cap c m \<longleftrightarrow> deliveryAttempt (msg_Metadata m) \<le> cc_MaxDeliveryAttempts (cfg_Consumer (co_cfg c))"

lemma dispatch_calls_le:
  assumes "inst_live (co_inst c)" and "counts_only_handlers calls rt c ctx"
  shows "calls (outside (snd (dispatch rt c ctx topic (msg_Payload m) (msg_Metadata m) w)))
    \<le> calls (outside w) + (if within_cap c m then 1 + nat (maxRetries c) else 0)"
proof -
  have "decide c topic (msg_Payload m) (msg_Metadata m) = OverCap" if "\<not> within_cap c m"
    using that by (simp add: decide_def within_cap_def)
  then show ?thesis
    using dispatch_calls [OF prod.collapse [symmetric] assms, of topic "msg_Payload m" "msg_Metadata m" w]
    by (auto split: decision.splits)
qed

lemma deliveries_calls:
  assumes "inst_live (co_inst c)" and "counts_only_handlers calls rt c ctx"
  shows "calls (outside (deliveries rt c ctx topic ms w))
    \<le> calls (outside w) + length (filter (within_cap c) ms) * (1 + nat (maxRetries c))"
proof (induction ms arbitrary: w)
  case (Cons m ms)
  from Cons.IH [of "snd (dispatch rt c ctx topic (msg_Payload m) (msg_Metadata m) w)"]
    dispatch_calls_le [OF assms, of topic m w]
  show ?case by (simp split: if_splits)
qed simp

section \<open>Stamps\<close>

lemma stamped_within_cap:
  assumes "map (decodeEntry um e) ns = map Inr ms" and "\<forall>n \<in> set ns. 1 \<le> n \<and> n < 2 ^ 63"
  shows "length (filter (within_cap c) ms) = length (filter (\<lambda>n. n \<le> cc_MaxDeliveryAttempts (cfg_Consumer (co_cfg c))) ns)"
  using assms
proof (induction ns arbitrary: ms)
  case (Cons n ns)
  then obtain m ms' where ms: "ms = m # ms'" and m: "decodeEntry um e n = Inr m" "map (decodeEntry um e) ns = map Inr ms'"
    by (cases ms) auto
  have "deliveryAttempt (msg_Metadata m) = n" using Cons.prems(2) by (intro decoded_attempt [OF m(1)]) simp_all
  with Cons.IH [OF m(2)] Cons.prems(2) show ?case by (simp add: ms within_cap_def)
qed simp

text \<open>Distinct stamps from 1 on: at most as many are within the cap as the cap says.\<close>

lemma distinct_stamps:
  assumes "distinct ns" and "\<forall>n \<in> set ns. (1 :: int) \<le> n"
  shows "length (filter (\<lambda>n. n \<le> cap) ns) \<le> nat cap"
proof -
  have "length (filter (\<lambda>n. n \<le> cap) ns) = card (set (filter (\<lambda>n. n \<le> cap) ns))"
    using distinct_filter [OF assms(1)] by (rule distinct_card [symmetric])
  also have "\<dots> \<le> card {1..cap}" using assms(2) by (intro card_mono) auto
  finally show ?thesis by simp
qed

lemma lives_stamps:
  assumes "\<forall>l \<in> set lives. distinct l \<and> (\<forall>n \<in> set l. (1 :: int) \<le> n)"
  shows "length (filter (\<lambda>n. n \<le> cap) (concat lives)) \<le> length lives * nat cap"
  using assms
proof (induction lives)
  case (Cons l lives)
  then show ?case using distinct_stamps [of l cap] by simp
qed simp

text \<open>
  C10. Invocations per event are bounded. Take any deliveries of one entry: runs of attempt numbers
  \<open>lives\<close>, one run for each time the consumer group existed (\<open>recreateGroup\<close> makes Redis count from one
  again), and the messages \<open>decodeEntry\<close> makes of the entry with them. The handler runs at most
  \<open>1 + MaxImmediateRetries\<close> times for every delivery whose number is within \<open>MaxDeliveryAttempts\<close>, and
  not at all for the others. So where no number occurs twice in a run, as when every scan of the
  pending entries is fresh, it runs at most \<open>MaxDeliveryAttempts * (1 + MaxImmediateRetries)\<close> times for
  each life of the group, however often the event is redelivered.
\<close>

theorem event_invocation_bound:
  assumes "inst_live (co_inst c)" and "counts_only_handlers calls rt c ctx"
    and "map (decodeEntry um e) (concat lives) = map Inr ms" and "\<forall>n \<in> set (concat lives). 1 \<le> n \<and> n < 2 ^ 63"
    and "0 \<le> cc_MaxDeliveryAttempts (cfg_Consumer (co_cfg c))"
    and "0 \<le> rt_MaxImmediateRetries (cfg_Retry (co_cfg c))"
  shows "int (calls (outside (deliveries rt c ctx topic ms w))) \<le> int (calls (outside w))
      + int (length (filter (\<lambda>n. n \<le> cc_MaxDeliveryAttempts (cfg_Consumer (co_cfg c))) (concat lives)))
        * (1 + rt_MaxImmediateRetries (cfg_Retry (co_cfg c)))
    \<and> (list_all distinct lives \<longrightarrow> int (calls (outside (deliveries rt c ctx topic ms w))) \<le> int (calls (outside w))
      + int (length lives) * (cc_MaxDeliveryAttempts (cfg_Consumer (co_cfg c)) * (1 + rt_MaxImmediateRetries (cfg_Retry (co_cfg c)))))"
proof -
  let ?cap = "cc_MaxDeliveryAttempts (cfg_Consumer (co_cfg c))" and ?r = "1 + rt_MaxImmediateRetries (cfg_Retry (co_cfg c))"
  let ?n = "length (filter (\<lambda>n. n \<le> ?cap) (concat lives))"
  have "calls (outside (deliveries rt c ctx topic ms w)) \<le> calls (outside w) + ?n * (1 + nat (maxRetries c))"
    using deliveries_calls [OF assms(1,2), of topic ms w] unfolding stamped_within_cap [OF assms(3,4)] .
  then have "int (calls (outside (deliveries rt c ctx topic ms w))) \<le> int (calls (outside w) + ?n * (1 + nat (maxRetries c)))"
    by (simp only: of_nat_le_iff)
  then have main: "int (calls (outside (deliveries rt c ctx topic ms w))) \<le> int (calls (outside w)) + int ?n * ?r"
    using assms(6) by (simp add: distrib_left)
  have "int ?n \<le> int (length lives * nat ?cap)" if "list_all distinct lives"
    using lives_stamps [of lives ?cap] that assms(4) by (fastforce simp only: of_nat_le_iff list_all_iff set_concat)
  then have "int ?n * ?r \<le> int (length lives) * ?cap * ?r" if "list_all distinct lives"
    using that assms(5,6) by (intro mult_right_mono) simp_all
  with main show ?thesis by (fastforce simp: mult.assoc)
qed

section \<open>Two lives of a group\<close>

definition plain_um :: unmarshaller where
  "plain_um fs = Inr \<lparr>msg_UUID = ''u'', msg_Payload = sample_event, msg_Metadata = Map.empty\<rparr>"

definition plain_entry :: Entry where
  "plain_entry = \<lparr>en_ID = ''1-0'', en_Fields = []\<rparr>"

theorem event_invocation_bound_witness:
  "\<exists>ms. map (decodeEntry plain_um plain_entry) [1, 2, 3, 4, 5, 6, 7, 1, 2] = map Inr ms
     \<and> int (fst (outside (deliveries sample_runtime (sample_consumer fails_twice) sample_context ''t'' ms start))) \<le> 40"
proof -
  let ?lives = "[[1, 2, 3, 4, 5, 6, 7], [1, 2]] :: int list list"
  have "decodeEntry plain_um plain_entry n = Inr (projr (decodeEntry plain_um plain_entry n))" for n
    by (simp add: decodeEntry_def plain_um_def)
  then obtain ms where ms: "map (decodeEntry plain_um plain_entry) (concat ?lives) = map Inr ms"
    by (metis (no_types, lifting) list.map_comp map_cong comp_apply)
  from event_invocation_bound [OF _ sample_counts ms, of fails_twice "''t''" start] ms show ?thesis
    by (intro exI [of _ ms]) simp
qed

end
