(* ===== verification/Payload_Confinement.thy ===== *)
theory Payload_Confinement
  imports Samples
begin

text \<open>
  Payloads stay inside: two deliveries that differ in the payload of their event only cannot be told
  apart by anything the library records, except for the \<open>payload\<close> attribute of log lines, and for that
  only when \<open>LogPayloads\<close> is on.
\<close>

section \<open>Worlds alike but for logged payloads\<close>

definition hide :: "bool \<Rightarrow> (string \<times> attr_value) list \<Rightarrow> (string \<times> attr_value) list" where
  "hide lp as = (if lp then filter (\<lambda>(k, v). k \<noteq> ''payload'') as else as)"

lemma hide_append [simp]: "hide lp (as @ bs) = hide lp as @ hide lp bs"
  by (simp add: hide_def)

definition hide_line :: "bool \<Rightarrow> log_line \<Rightarrow> log_line" where
  "hide_line lp l = l\<lparr>ll_attrs := hide lp (ll_attrs l)\<rparr>"

definition alike :: "bool \<Rightarrow> 'w world \<Rightarrow> 'w world \<Rightarrow> bool" where
  "alike lp w w' \<longleftrightarrow> outside w' = outside w \<and> metrics w' = metrics w \<and> span_ops w' = span_ops w
     \<and> sleeps w' = sleeps w \<and> probe_out w' = probe_out w \<and> map (hide_line lp) (logs w') = map (hide_line lp) (logs w)"

lemma alike_refl [simp]: "alike lp w w"
  by (simp add: alike_def)

lemma alike_out:
  assumes "alike lp w w'"
  obtains a v v' where "out f w = (a, v)" "out f w' = (a, v')" "alike lp v v'"
proof -
  obtain a x where "f (outside w) = (a, x)" by fastforce
  with assms show thesis by (intro that [of a "w\<lparr>outside := x\<rparr>" "w'\<lparr>outside := x\<rparr>"]) (simp_all add: out_def alike_def)
qed

lemma alike_log: "alike lp w w' \<Longrightarrow> hide lp as' = hide lp as \<Longrightarrow> alike lp (log_at l m as w) (log_at l m as' w')"
  by (simp add: alike_def log_at_def hide_line_def)

lemma alike_add_point: "alike lp w w' \<Longrightarrow> alike lp (add_point inst i v as w) (add_point inst i v as w')"
  by (simp add: alike_def)

lemma alike_span: "alike lp w w' \<Longrightarrow> alike lp (span_op s w) (span_op s w')"
  by (simp add: alike_def)

lemma alike_record_retry: "alike lp w w' \<Longrightarrow> alike lp (record_retry n e r w) (record_retry n e r w')"
  by (simp add: record_retry_def Let_def alike_add_point alike_span)

lemma alike_recordFailure: "alike lp w w' \<Longrightarrow> alike lp (recordFailure base r w) (recordFailure base r w')"
  by (simp add: recordFailure_def Let_def alike_add_point alike_span split: option.split)

lemma alike_probe: "alike lp w w' \<Longrightarrow> alike lp (w\<lparr>probe_out := p\<rparr>) (w'\<lparr>probe_out := p\<rparr>)"
  by (simp add: alike_def)

lemma alike_sleeps: "alike lp w w' \<Longrightarrow> alike lp (w\<lparr>sleeps := sleeps w @ ds\<rparr>) (w'\<lparr>sleeps := sleeps w' @ ds\<rparr>)"
  by (simp add: alike_def)

lemma alike_sleep:
  assumes "alike lp w w'"
  obtains a v v' where "sleepWithJitter rt ctx u w = (a, v)" "sleepWithJitter rt ctx u w' = (a, v')" "alike lp v v'"
proof (cases "u \<le> 0")
  case True
  from assms obtain e v v' where "out (os_ctx_err rt ctx) w = (e, v)" "out (os_ctx_err rt ctx) w' = (e, v')" "alike lp v v'"
    by (rule alike_out)
  with True show thesis by (intro that [of "Ret (\<not> e)" v v']) (simp_all add: sleepWithJitter_guarded)
next
  case False
  from assms obtain d v v' where d: "out (os_rand rt u) w = (d, v)" "out (os_rand rt u) w' = (d, v')" "alike lp v v'"
    by (rule alike_out)
  from alike_sleeps [OF d(3)] obtain b x x' where "out (os_timer rt ctx d) (v\<lparr>sleeps := sleeps v @ [d]\<rparr>) = (b, x)"
    "out (os_timer rt ctx d) (v'\<lparr>sleeps := sleeps v' @ [d]\<rparr>) = (b, x')" "alike lp x x'" by (rule alike_out)
  with False d show thesis by (intro that [of "Ret b" x x']) (simp_all add: sleepWithJitter_guarded)
qed

lemma alike_newDeadLetter:
  assumes "alike lp w w'"
  obtains dl v v' where "newDeadLetter rt c topic reason cause a w = (dl, v)" "newDeadLetter rt c topic reason cause a w' = (dl, v')"
    "alike lp v v'"
proof -
  from assms obtain now v v' where "out (os_now rt) w = (now, v)" "out (os_now rt) w' = (now, v')" "alike lp v v'"
    by (rule alike_out)
  then show thesis by (intro that) (simp_all add: newDeadLetter_def)
qed

section \<open>Sinks and handlers that do not look\<close>

text \<open>
  The sink a delivery uses treats every document alike, and the registered handlers every payload:
  what these do with the bytes they are given is theirs, and is excluded here.
\<close>

definition payload_blind :: "'w runtime \<Rightarrow> 'w consumer \<Rightarrow> 'w ctx \<Rightarrow> bool" where
  "payload_blind rt c ctx \<longleftrightarrow>
     (\<forall>sink v s b b'. sink_for c ctx = Some sink \<longrightarrow> publish_sink rt sink v s b' = publish_sink rt sink v s b)
     \<and> (\<forall>h \<in> snd ` set (reg_typed (co_registry c)) \<union> snd ` set (reg_raw (co_registry c)).
          \<forall>x env q. h x (env\<lparr>ev_Payload := q\<rparr>) = h x env)"

text \<open>Two documents that differ in the bytes they keep, and encode alike.\<close>

definition same_letter :: "DeadLetter \<Rightarrow> DeadLetter \<Rightarrow> bool" where
  "same_letter dl dl' \<longleftrightarrow> dl_Reason dl' = dl_Reason dl \<and> dl_Error dl' = dl_Error dl \<and> dl_DeliveryAttempts dl' = dl_DeliveryAttempts dl
     \<and> ((\<exists>e. Marshal_dead_letter dl = Inl e \<and> Marshal_dead_letter dl' = Inl e)
        \<or> (\<exists>b b'. Marshal_dead_letter dl = Inr b \<and> Marshal_dead_letter dl' = Inr b'))"

lemma Valid_not_Nil: "Valid p \<Longrightarrow> p \<noteq> []"
  by (auto simp: Valid_def skip_ws_def)

lemma same_letter_event:
  assumes "Valid p" and "Valid p'"
  shows "same_letter (dl\<lparr>dl_Event := fst (deadLetterBody p), dl_EventRaw := snd (deadLetterBody p)\<rparr>)
    (dl\<lparr>dl_Event := fst (deadLetterBody p'), dl_EventRaw := snd (deadLetterBody p')\<rparr>)"
  using assms Valid_not_Nil [OF assms(1)] Valid_not_Nil [OF assms(2)]
  by (auto simp: same_letter_def deadLetterBody_def Marshal_dead_letter_def Marshal_raw_def split: sum.split)

lemma same_letter_raw:
  "dl_Event dl = [] \<Longrightarrow> same_letter (dl\<lparr>dl_EventRaw := p\<rparr>) (dl\<lparr>dl_EventRaw := p'\<rparr>)"
  by (auto simp: same_letter_def Marshal_dead_letter_def split: sum.split)

lemma alike_deadLetter:
  assumes "alike lp w w'" and "same_letter dl dl'" and "payload_blind rt c ctx"
  obtains err v v' where "deadLetter rt c ctx topic dl w = (err, v)" "deadLetter rt c ctx topic dl' w' = (err, v')" "alike lp v v'"
proof (cases "sink_for c ctx")
  case None
  with assms(1) show thesis by (intro that) (simp_all add: deadLetter_def)
next
  case (Some sink)
  from assms(2) consider (bad) e where "Marshal_dead_letter dl = Inl e" "Marshal_dead_letter dl' = Inl e"
    | (good) b b' where "Marshal_dead_letter dl = Inr b" "Marshal_dead_letter dl' = Inr b'" by (auto simp: same_letter_def)
  then show thesis
  proof cases
    case bad
    with Some assms(1) show thesis by (intro that) (simp_all add: deadLetter_def Let_def)
  next
    case good
    let ?pub = "publish_sink rt sink (ctx_values.truncate ctx) (dlqStream c topic)"
    have "?pub b' = ?pub b" using assms(3) Some by (simp add: payload_blind_def)
    moreover from assms(1) obtain err v v' where "out (?pub b) w = (err, v)" "out (?pub b) w' = (err, v')" "alike lp v v'"
      by (rule alike_out)
    ultimately show thesis
      using Some good assms(2)
      by (cases err) (auto simp: deadLetter_def Let_def same_letter_def intro!: that alike_log alike_add_point)
  qed
qed

section \<open>The pieces of a delivery\<close>

text \<open>Two runs of a piece of \<open>dispatch\<close> with the same result, the same recorder and worlds alike.\<close>

definition same_run ::
    "bool \<Rightarrow> goerr option go \<times> 'w deliveryRecorder \<times> 'w world \<Rightarrow> goerr option go \<times> 'w deliveryRecorder \<times> 'w world \<Rightarrow> bool" where
  "same_run lp x y \<longleftrightarrow> fst y = fst x \<and> fst (snd y) = fst (snd x) \<and> alike lp (snd (snd x)) (snd (snd y))"

lemma same_run_intro: "alike lp w w' \<Longrightarrow> same_run lp (res, r, w) (res, r, w')"
  by (simp add: same_run_def)

lemma retry_loop_alike:
  assumes h: "handler ctx env' = handler ctx env" and lg: "hide lp lg' = hide lp lg" and p: "Valid p" "Valid p'"
    and blind: "payload_blind rt c ctx" and "alike lp w w'"
  shows "same_run lp (retry_loop rt c ctx topic p a handler env lg i r w) (retry_loop rt c ctx topic p' a handler env' lg' i r w')"
  using assms(6)
proof (induction "nat (maxRetries c - i)" arbitrary: i w w' rule: less_induct)
  case less
  let ?L = "retry_loop rt c ctx topic p a handler env lg" and ?R = "retry_loop rt c ctx topic p' a handler env' lg'"
  from less.prems obtain res v v' where o: "out (handler ctx env) w = (res, v)" "out (handler ctx env) w' = (res, v')" "alike lp v v'"
    by (rule alike_out)
  note step = retry_loop.simps [of _ _ _ _ _ _ _ _ _ i] h o(1,2)
  consider "res = Panic" | "res = Ret None" | (err) e where "res = Ret (Some e)"
    by (cases res) (auto intro: option.exhaust)
  then show ?case
  proof cases
    case err
    have logged: "alike lp (log_at l m (lg @ as) v) (log_at l m (lg' @ as) v')" for l m as
      by (rule alike_log [OF o(3)]) (simp add: lg)
    consider (discard) "IsDiscard (Some e)" | (perm) "\<not> IsDiscard (Some e)" "IsPermanent (Some e)"
      | (out) "\<not> IsDiscard (Some e)" "\<not> IsPermanent (Some e)" "maxRetries c \<le> i"
      | (retry) "\<not> IsDiscard (Some e)" "\<not> IsPermanent (Some e)" "i < maxRetries c" by linarith
    then show ?thesis
    proof cases
      case discard
      with logged show ?thesis by (auto simp: step err intro!: same_run_intro)
    next
      case perm
      from logged obtain dl x x' where n:
        "newDeadLetter rt c topic ReasonPermanent e a (log_at LError ''messaging: handler returned a permanent error'' (lg @ [(''error'', AErr e)]) v) = (dl, x)"
        "newDeadLetter rt c topic ReasonPermanent e a (log_at LError ''messaging: handler returned a permanent error'' (lg' @ [(''error'', AErr e)]) v') = (dl, x')"
        "alike lp x x'" by (rule alike_newDeadLetter)
      from n(3) same_letter_event [OF p] blind obtain er y y' where
        "deadLetter rt c ctx topic (dl\<lparr>dl_Event := fst (deadLetterBody p), dl_EventRaw := snd (deadLetterBody p)\<rparr>) x = (er, y)"
        "deadLetter rt c ctx topic (dl\<lparr>dl_Event := fst (deadLetterBody p'), dl_EventRaw := snd (deadLetterBody p')\<rparr>) x' = (er, y')"
        "alike lp y y'" by (rule alike_deadLetter)
      with perm n show ?thesis by (simp add: step err Let_def split_beta same_run_intro)
    next
      case out
      with logged show ?thesis by (simp add: step err same_run_intro)
    next
      case retry
      have "alike lp (record_retry (i + 1) e r (log_at LDebug ''messaging: retrying handler'' (lg @ [(''immediate_attempt'', AInt (i + 1)), (''error'', AErr e)]) v))
          (record_retry (i + 1) e r (log_at LDebug ''messaging: retrying handler'' (lg' @ [(''immediate_attempt'', AInt (i + 1)), (''error'', AErr e)]) v'))"
        by (rule alike_record_retry [OF logged])
      then obtain woke x x' where s:
        "sleepWithJitter rt ctx (retry_upper c r i) (record_retry (i + 1) e r (log_at LDebug ''messaging: retrying handler'' (lg @ [(''immediate_attempt'', AInt (i + 1)), (''error'', AErr e)]) v)) = (woke, x)"
        "sleepWithJitter rt ctx (retry_upper c r i) (record_retry (i + 1) e r (log_at LDebug ''messaging: retrying handler'' (lg' @ [(''immediate_attempt'', AInt (i + 1)), (''error'', AErr e)]) v')) = (woke, x')"
        "alike lp x x'" by (rule alike_sleep)
      have "same_run lp (?L (i + 1) r x) (?R (i + 1) r x')"
        by (rule less.hyps [OF _ s(3)]) (use retry(3) in simp)
      with retry s show ?thesis
        by (simp add: step err Let_def retry_upper_def [symmetric] same_run_intro split: go.split)
    qed
  qed (use o(3) in \<open>simp_all add: step same_run_intro\<close>)
qed

lemma undeserializable_alike:
  assumes "hide lp lg' = hide lp lg" and "payload_blind rt c ctx" and "alike lp w w'"
  shows "same_run lp (undeserializable rt c ctx topic p a msg lg doing e r w) (undeserializable rt c ctx topic p' a msg lg' doing e r w')"
proof -
  have "alike lp (log_at LError msg (lg @ [(''error'', AErr e)]) w) (log_at LError msg (lg' @ [(''error'', AErr e)]) w')"
    by (rule alike_log [OF assms(3)]) (simp add: assms(1))
  then obtain dl x x' where n:
    "newDeadLetter rt c topic ReasonDeserializationFailed (WrapError [Lit doing, Quoted topic, Lit '': ''] e) a (log_at LError msg (lg @ [(''error'', AErr e)]) w) = (dl, x)"
    "newDeadLetter rt c topic ReasonDeserializationFailed (WrapError [Lit doing, Quoted topic, Lit '': ''] e) a (log_at LError msg (lg' @ [(''error'', AErr e)]) w') = (dl, x')"
    "alike lp x x'" by (rule alike_newDeadLetter)
  from n(3) same_letter_raw [OF newDeadLetter_frame(10) [OF n(1)]] assms(2) obtain er y y' where
    "deadLetter rt c ctx topic (dl\<lparr>dl_EventRaw := p\<rparr>) x = (er, y)" "deadLetter rt c ctx topic (dl\<lparr>dl_EventRaw := p'\<rparr>) x' = (er, y')"
    "alike lp y y'" by (rule alike_deadLetter)
  with n show ?thesis by (simp add: undeserializable_def Let_def same_run_intro)
qed

lemma dispatch_capped_alike:
  assumes "hide lp lg' = hide lp lg" and "payload_blind rt c ctx" and "alike lp w w'" and "Valid p" and "Valid p'"
  shows "same_run lp (dispatch_capped rt c ctx topic p a lg r w) (dispatch_capped rt c ctx topic p' a lg' r w')"
proof -
  let ?cap = "cc_MaxDeliveryAttempts (cfg_Consumer (co_cfg c))"
  let ?err = "ErrorString [Lit ''delivery attempt '', Dec a, Lit '' exceeded MaxDeliveryAttempts '', Dec ?cap]"
  let ?as = "[(''topic'', AStr topic), (''max_delivery_attempts'', AInt ?cap)]"
  let ?msg = "''messaging: delivery attempt cap exceeded''"
  have "alike lp (log_at LWarn ?msg (lg @ ?as) w) (log_at LWarn ?msg (lg' @ ?as) w')"
    by (rule alike_log [OF assms(3)]) (simp only: hide_append assms(1))
  then obtain dl x x' where n:
    "newDeadLetter rt c topic ReasonMaxAttemptsExceeded ?err a (log_at LWarn ?msg (lg @ ?as) w) = (dl, x)"
    "newDeadLetter rt c topic ReasonMaxAttemptsExceeded ?err a (log_at LWarn ?msg (lg' @ ?as) w') = (dl, x')"
    "alike lp x x'" by (rule alike_newDeadLetter)
  from n(3) same_letter_event [OF assms(4,5)] assms(2) obtain er y y' where
    "deadLetter rt c ctx topic (dl\<lparr>dl_Event := fst (deadLetterBody p), dl_EventRaw := snd (deadLetterBody p)\<rparr>) x = (er, y)"
    "deadLetter rt c ctx topic (dl\<lparr>dl_Event := fst (deadLetterBody p'), dl_EventRaw := snd (deadLetterBody p')\<rparr>) x' = (er, y')"
    "alike lp y y'" by (rule alike_deadLetter)
  with n show ?thesis by (simp add: dispatch_capped_def Let_def split_beta same_run_intro)
qed

lemma end_delivery_alike:
  assumes "alike lp w w'"
  shows "alike lp (snd (end_delivery rt r w)) (snd (end_delivery rt r w'))"
proof (cases "dr_probe r")
  case None
  from assms obtain now v v' where "out (os_now rt) w = (now, v)" "out (os_now rt) w' = (now, v')" "alike lp v v'"
    by (rule alike_out)
  with None assms show ?thesis
    by (cases "dr_kind r") (simp_all add: end_delivery_def Let_def alike_span alike_add_point alike_recordFailure alike_log)
next
  case (Some p)
  from alike_probe [OF assms, of "Some (verdict_of r)"] obtain now v v' where
    "out (os_now rt) (w\<lparr>probe_out := Some (verdict_of r)\<rparr>) = (now, v)"
    "out (os_now rt) (w'\<lparr>probe_out := Some (verdict_of r)\<rparr>) = (now, v')" "alike lp v v'"
    by (rule alike_out)
  with Some assms show ?thesis
    by (cases "dr_kind r")
      (simp_all add: end_delivery_def verdict_of_def Let_def alike_span alike_add_point alike_recordFailure alike_log)
qed

section \<open>Two payloads\<close>

lemma decoded_Valid: "Unmarshal_envelope p = Inr env \<Longrightarrow> Valid p"
  by (auto simp: Unmarshal_envelope_def Unmarshal_struct_def split: if_splits)

text \<open>The decision is the same, up to the payload of the envelope it carries.\<close>

lemma decide_alike:
  assumes "Unmarshal_envelope p = Inr env" and "Unmarshal_envelope p' = Inr (env\<lparr>ev_Payload := q\<rparr>)"
  obtains "decide c topic p md = OverCap" "decide c topic p' md = OverCap"
  | e where "decide c topic p md = InvalidEnvelope e env" "decide c topic p' md = InvalidEnvelope e (env\<lparr>ev_Payload := q\<rparr>)"
  | e where "decide c topic p md = BadVersion e env" "decide c topic p' md = BadVersion e (env\<lparr>ev_Payload := q\<rparr>)"
  | "decide c topic p md = NoHandler env" "decide c topic p' md = NoHandler (env\<lparr>ev_Payload := q\<rparr>)"
  | h k where "decide c topic p md = Invoke h k env" "decide c topic p' md = Invoke h k (env\<lparr>ev_Payload := q\<rparr>)"
proof -
  have same: "validateEnvelope (env\<lparr>ev_Payload := q\<rparr>) = validateEnvelope env" by (simp add: validateEnvelope_def)
  note d = decide_def assms same
  consider (cap) "deliveryAttempt md > cc_MaxDeliveryAttempts (cfg_Consumer (co_cfg c))"
    | (read) "\<not> deliveryAttempt md > cc_MaxDeliveryAttempts (cfg_Consumer (co_cfg c))" by blast
  then show thesis
  proof cases
    case read
    show thesis
    proof (cases "validateEnvelope env")
      case None
      show thesis
      proof (cases "majorVersion (ev_SchemaVersion env)")
        case (Inr major)
        obtain ho k where "lookup (co_registry c) topic (ev_EventType env) major = (ho, k)" by fastforce
        with read None Inr that(4,5) show thesis by (cases ho) (simp_all add: d)
      qed (use read None that(3) in \<open>simp add: d\<close>)
    qed (use read that(2) in \<open>simp add: d\<close>)
  qed (use that(1) in \<open>simp add: decide_def\<close>)
qed

lemma dispatch_body_alike:
  assumes env: "Unmarshal_envelope p = Inr env" "Unmarshal_envelope p' = Inr (env\<lparr>ev_Payload := q\<rparr>)"
    and lg: "hide lp lg' = hide lp lg" and blind: "payload_blind rt c ctx"
  shows "same_run lp (dispatch_body rt c ctx topic p md lg r w) (dispatch_body rt c ctx topic p' md lg' r w)"
proof -
  note v = decoded_Valid [OF env(1)] decoded_Valid [OF env(2)]
  have span: "span_envelope (env\<lparr>ev_Payload := q\<rparr>) = span_envelope env" by (simp add: fun_eq_iff span_envelope_def)
  from env show ?thesis
  proof (cases rule: decide_alike [where c = c and topic = topic and md = md])
    case 1
    with dispatch_capped_alike [OF lg blind alike_refl v] show ?thesis by (simp add: dispatch_body_decide Let_def)
  next
    case (2 e)
    with lg show ?thesis by (simp add: dispatch_body_decide Let_def span) (rule undeserializable_alike [OF _ blind], simp_all)
  next
    case (3 e)
    with lg show ?thesis by (simp add: dispatch_body_decide Let_def span) (rule undeserializable_alike [OF _ blind], simp_all)
  next
    case 4
    with lg show ?thesis by (simp add: dispatch_body_decide Let_def span same_run_intro alike_log)
  next
    case (5 h k)
    let ?x = "contextWithCorrelationID ctx (ev_CorrelationID env)"
    have "h \<in> snd ` set (reg_typed (co_registry c)) \<union> snd ` set (reg_raw (co_registry c))"
      using 5(1) by (auto simp: decide_def split: if_splits sum.splits option.splits prod.splits dest!: lookup_registered)
    then have h: "h ?x (env\<lparr>ev_Payload := q\<rparr>) = h ?x env" using blind by (auto simp: payload_blind_def)
    have "payload_blind rt c ?x" using blind by (simp add: payload_blind_def sink_for_cong [of ?x ctx])
    from retry_loop_alike [where handler = h, OF h _ v this alike_refl] 5 lg show ?thesis
      by (simp add: dispatch_body_decide runWithRetry_def Let_def span)
  qed
qed

text \<open>
  C26. Telemetry never carries a payload. Take two events that differ in their payload only, and handlers
  and a dead-letter sink that do not tell payloads apart. Then the two deliveries end alike and record
  the same metric points, span operations, probe verdict and sleeps, and have the same effect on the
  outside, whatever the setting; their log lines are the same when \<open>LogPayloads\<close> is off, and when it is
  on they differ in the value of the attribute \<open>payload\<close> at most.
\<close>

theorem dispatch_payload_confined:
  assumes "Unmarshal_envelope p = Inr env" and "Unmarshal_envelope p' = Inr (env\<lparr>ev_Payload := q\<rparr>)"
    and "payload_blind rt c ctx"
    and "dispatch rt c ctx topic p md w = (res, v)" and "dispatch rt c ctx topic p' md w = (res', v')"
  shows "res' = res \<and> metrics v' = metrics v \<and> span_ops v' = span_ops v \<and> probe_out v' = probe_out v
    \<and> sleeps v' = sleeps v \<and> outside v' = outside v
    \<and> (\<not> tc_LogPayloads (cfg_Telemetry (co_cfg c)) \<longrightarrow> logs v' = logs v)
    \<and> map (\<lambda>l. l\<lparr>ll_attrs := filter (\<lambda>(k, a). k \<noteq> ''payload'') (ll_attrs l)\<rparr>) (logs v')
      = map (\<lambda>l. l\<lparr>ll_attrs := filter (\<lambda>(k, a). k \<noteq> ''payload'') (ll_attrs l)\<rparr>) (logs v)"
proof -
  let ?lp = "tc_LogPayloads (cfg_Telemetry (co_cfg c))"
  obtain ctx' ids r w1 where o: "dispatch_open rt c ctx topic md w = (ctx', ids, r, w1)" by (metis prod_cases4)
  have "payload_blind rt c ctx'"
    using assms(3) by (simp add: payload_blind_def sink_for_cong [OF dispatch_open_frame(11) [OF o]])
  moreover have "hide ?lp (dispatch_logger c p' md ids) = hide ?lp (dispatch_logger c p md ids)"
    by (simp add: dispatch_logger_def hide_def)
  ultimately have "same_run ?lp (dispatch_body rt c ctx' topic p md (dispatch_logger c p md ids) r (dispatch_received rt c topic md w1))
      (dispatch_body rt c ctx' topic p' md (dispatch_logger c p' md ids) r (dispatch_received rt c topic md w1))"
    using assms(1,2) by (intro dispatch_body_alike)
  moreover obtain x y z where b: "dispatch_body rt c ctx' topic p md (dispatch_logger c p md ids) r (dispatch_received rt c topic md w1) = (x, y, z)"
    by (metis prod_cases3)
  moreover obtain x' y' z' where b': "dispatch_body rt c ctx' topic p' md (dispatch_logger c p' md ids) r (dispatch_received rt c topic md w1) = (x', y', z')"
    by (metis prod_cases3)
  ultimately have same: "x' = x" "y' = y" "alike ?lp z z'" by (simp_all add: same_run_def)
  have "res = x" "v = snd (end_delivery rt y z)" "res' = x'" "v' = snd (end_delivery rt y' z')"
    using assms(4,5) by (simp_all add: dispatch_def o b b' Let_def split_beta)
  with same end_delivery_alike [OF same(3)] have "res' = res \<and> alike ?lp v v'" by simp
  then have eq: "map (hide_line ?lp) (logs v') = map (hide_line ?lp) (logs v)" and
    rest: "res' = res \<and> metrics v' = metrics v \<and> span_ops v' = span_ops v \<and> probe_out v' = probe_out v
      \<and> sleeps v' = sleeps v \<and> outside v' = outside v" by (simp_all add: alike_def)
  have twice: "hide_line True \<circ> hide_line ?lp = hide_line True" by (simp add: fun_eq_iff hide_line_def hide_def)
  from arg_cong [OF eq, of "map (hide_line True)"] have "map (hide_line True) (logs v') = map (hide_line True) (logs v)"
    by (simp only: map_map twice)
  moreover have "logs v' = logs v" if "\<not> ?lp" using eq that by (simp add: hide_line_def [abs_def] hide_def)
  ultimately show ?thesis using rest by (simp add: hide_line_def [abs_def] hide_def)
qed

definition other_event :: bytes where
  "other_event = take (length sample_event - 2) sample_event @ ''[2]}''"

lemma other_event_decodes: "Unmarshal_envelope other_event = Inr (sample_envelope\<lparr>ev_Payload := ''[2]''\<rparr>)"
  by code_simp

theorem dispatch_payload_confined_witness:
  "\<exists>res v v'. sample_run fails_twice sample_context ''t'' sample_event Map.empty = (res, v)
     \<and> sample_run fails_twice sample_context ''t'' other_event Map.empty = (res, v')
     \<and> logs v' = logs v \<and> metrics v' = metrics v \<and> span_ops v' = span_ops v"
proof -
  have "payload_blind sample_runtime (sample_consumer fails_twice) sample_context"
    by (auto simp: payload_blind_def sink_for_def FromContext_def sample_context_def sample_runtime_def accepting_sink_def
        sample_consumer_def registerAll_def newRegistry_def addTyped_def Let_def scripted_def fun_eq_iff)
  moreover have "\<not> tc_LogPayloads (cfg_Telemetry minimal_consumer)"
    using validateConsumer_success(6) [OF validate_minimal_consumer]
    by (simp add: validated_minimal_def minimal_config_def go_defs)
  moreover obtain res v where r: "sample_run fails_twice sample_context ''t'' sample_event Map.empty = (res, v)" by fastforce
  moreover obtain res' v' where r': "sample_run fails_twice sample_context ''t'' other_event Map.empty = (res', v')" by fastforce
  ultimately show ?thesis
    using dispatch_payload_confined [OF sample_event_decodes other_event_decodes, of sample_runtime "sample_consumer fails_twice"
        sample_context "''t''" Map.empty start res v res' v']
    by (simp add: sample_run_def)
qed

end
