(* ===== verification/Messagingtest.thy ===== *)
theory Messagingtest
  imports Samples Publisher
begin

text \<open>
  \<open>testing/\<close>, the package applications test with: the seam of \<open>testhooks.go\<close>, \<open>Deliver\<close>, events,
  and \<open>Dispatch\<close> with the decoding of the dead letters it collects. The consumer under test is the
  application's own; the outside state has the harness's list of letters as its first component.
\<close>

section \<open>The test seam\<close>

text \<open>
  \<open>testhooks.go\<close>: the hooks registered at \<open>init\<close>. The recording publisher is a real one over a
  configuration that never dials, with its transport write replaced; the type assertion on the
  consumer always succeeds for a \<open>*messaging.Consumer\<close>.
\<close>

definition recording_config :: "string \<Rightarrow> string \<Rightarrow> Config" where
  "recording_config source streamPrefix =
     \<lparr>cfg_Source = source, cfg_StreamPrefix = streamPrefix,
      cfg_Redis = \<lparr>rc_Address = ''127.0.0.1:6379'', rc_Username = [], rc_Password = [], rc_TLS = None,
                   rc_DB = 0, rc_PoolSize = 0\<rparr>,
      cfg_Consumer = \<lparr>cc_Group = [], cc_ConsumerName = [], cc_Concurrency = 0, cc_ClaimInterval = 0,
                      cc_ClaimMinIdle = 0, cc_MaxDeliveryAttempts = 0, cc_ShutdownTimeout = 0\<rparr>,
      cfg_Retry = \<lparr>rt_MaxImmediateRetries = 0, rt_InitialBackoff = 0, rt_MaxBackoff = 0\<rparr>,
      cfg_Telemetry = \<lparr>tc_TracerProvider = None, tc_MeterProvider = None, tc_Propagator = None,
                       tc_Logger = None, tc_LogPayloads = False\<rparr>\<rparr>"

definition NewRecordingPublisher ::
    "(collaborator \<Rightarrow> meter) \<Rightarrow> int \<Rightarrow> (ClientOptions \<Rightarrow> goerr + 'w wm_publish) \<Rightarrow> string \<Rightarrow> string
     \<Rightarrow> 'w stream_publisher \<Rightarrow> 'w world \<Rightarrow> (goerr + 'w publisher) \<times> 'w world" where
  "NewRecordingPublisher meter_of gomaxprocs new_wm source streamPrefix rec w =
     (case NewPublisher meter_of gomaxprocs new_wm (recording_config source streamPrefix) w of
        (Inl err, w) \<Rightarrow> (Inl (WrapError [Lit ''building recording publisher: ''] err), w)
      | (Inr p, w) \<Rightarrow> (Inr (p\<lparr>pb_publishFn := rec\<rparr>), w))"

definition seam_Dispatch ::
    "'w runtime \<Rightarrow> 'w ctx \<Rightarrow> 'w consumer \<Rightarrow> string \<Rightarrow> bytes \<Rightarrow> metadata \<Rightarrow> 'w probe \<Rightarrow> 'w world
     \<Rightarrow> goerr option go \<times> 'w world" where
  "seam_Dispatch rt ctx c topic body md p w = dispatch rt c (NewContext ctx p) topic body md w"

section \<open>Deliver\<close>

definition Deliver :: "'w ctx \<Rightarrow> ('p, 'w) Handler \<Rightarrow> 'p Envelope \<Rightarrow> 'w \<Rightarrow> goerr option go \<times> 'w" where
  "Deliver ctx h env =
     h (if ev_CorrelationID env \<noteq> [] then contextWithCorrelationID ctx (ev_CorrelationID env) else ctx) env"

section \<open>Events\<close>

definition defaultSource :: string where "defaultSource = ''messagingtest''"
definition defaultStreamPrefix :: string where "defaultStreamPrefix = ''foi''"

record 'p Event =
  te_Topic :: string
  te_Envelope :: raw_envelope
  te_Payload :: "'p option"

definition PayloadAs :: "'p \<Rightarrow> (bytes \<Rightarrow> goerr + 'p) \<Rightarrow> 'q Event \<Rightarrow> goerr + 'p" where
  "PayloadAs zero unmarshal e =
     (if ev_Payload (te_Envelope e) = [] then Inr zero
      else (case unmarshal (ev_Payload (te_Envelope e)) of
              Inl err \<Rightarrow> Inl (WrapError [Lit ''messagingtest: decoding payload of event type '',
                                  Quoted (ev_EventType (te_Envelope e)), Lit '': ''] err)
            | Inr p \<Rightarrow> Inr p))"

record eventOptions =
  eo_eventID :: string
  eo_correlationID :: string
  eo_source :: string
  eo_timestamp :: gotime

datatype EventOption =
    WithEventID string | WithCorrelationID string | WithSource string | WithTimestamp gotime

fun event_option :: "EventOption \<Rightarrow> eventOptions \<Rightarrow> eventOptions" where
  "event_option (WithEventID i) o' = o'\<lparr>eo_eventID := i\<rparr>"
| "event_option (WithCorrelationID i) o' = o'\<lparr>eo_correlationID := i\<rparr>"
| "event_option (WithSource s) o' = o'\<lparr>eo_source := s\<rparr>"
| "event_option (WithTimestamp t) o' = o'\<lparr>eo_timestamp := t\<rparr>"

text \<open>\<open>encoded\<close> is \<open>json.Marshal(payload)\<close>.\<close>

definition NewEvent ::
    "'w runtime \<Rightarrow> EventDef \<Rightarrow> 'p \<Rightarrow> goerr + bytes \<Rightarrow> EventOption list \<Rightarrow> 'w world
     \<Rightarrow> (goerr + 'p Event) \<times> 'w world" where
  "NewEvent rt def payload encoded opts w =
     (case out (os_uuid rt) w of
        (Inl err, w) \<Rightarrow> (Inl (WrapError [Lit ''messagingtest: generating event id: ''] err), w)
      | (Inr eventID, w) \<Rightarrow>
          (case out (os_uuid rt) w of
             (Inl err, w) \<Rightarrow> (Inl (WrapError [Lit ''messagingtest: generating correlation id: ''] err), w)
           | (Inr correlationID, w) \<Rightarrow>
               (let (now, w) = out (os_now rt) w;
                    o' = fold event_option opts
                           \<lparr>eo_eventID = eventID, eo_correlationID = correlationID, eo_source = defaultSource,
                            eo_timestamp = UTC now\<rparr>
                in case encoded of
                     Inl err \<Rightarrow> (Inl (WrapError [Lit ''messagingtest: marshalling payload for event type '',
                                          Quoted (def_Type def), Lit '': ''] err), w)
                   | Inr raw \<Rightarrow>
                       (Inr \<lparr>te_Topic = def_Topic def,
                             te_Envelope = \<lparr>ev_EventID = eo_eventID o', ev_EventType = def_Type def,
                               ev_Timestamp = eo_timestamp o', ev_SchemaVersion = def_Version def,
                               ev_CorrelationID = eo_correlationID o', ev_Source = eo_source o', ev_Payload = raw\<rparr>,
                             te_Payload = Some payload\<rparr>, w))))"

definition test_Config :: Config where
  "test_Config = (recording_config defaultSource defaultStreamPrefix)\<lparr>cfg_Consumer :=
     (cfg_Consumer (recording_config defaultSource defaultStreamPrefix))\<lparr>cc_Group := defaultSource\<rparr>\<rparr>"

section \<open>Decoding a dead letter\<close>

text \<open>
  \<open>json.Unmarshal\<close> into a \<open>DeadLetter\<close>, with \<open>base64.StdEncoding\<close> for its \<open>[]byte\<close> field (the form
  of such a field as an array of numbers, which the encoder never writes, is refused here).
\<close>

definition b64_value :: "char \<Rightarrow> nat option" where
  "b64_value c =
     (if ord_in 65 90 c then Some (ord c - 65) else if ord_in 97 122 c then Some (ord c - 71)
      else if is_digit c then Some (ord c + 4) else if c = CHR ''+'' then Some 62
      else if c = CHR ''/'' then Some 63 else None)"

fun b64_decode :: "string \<Rightarrow> bytes option" where
  "b64_decode [] = Some []"
| "b64_decode (a # b # c # d # r) =
     (case (b64_value a, b64_value b) of
        (Some i, Some j) \<Rightarrow>
          (let x = char_of (4 * i + j div 16) in
           if c = CHR ''='' \<and> d = CHR ''='' then (if r = [] then Some [x] else None)
           else
             (case b64_value c of
                None \<Rightarrow> None
              | Some k \<Rightarrow>
                  (let y = char_of (j mod 16 * 16 + k div 4) in
                   if d = CHR ''='' then (if r = [] then Some [x, y] else None)
                   else
                     (case (b64_value d, b64_decode r) of
                        (Some l, Some bs) \<Rightarrow> Some (x # y # char_of (k mod 4 * 64 + l) # bs)
                      | _ \<Rightarrow> None))))
      | _ \<Rightarrow> None)"
| "b64_decode _ = None"

definition decode_bytes :: "string \<Rightarrow> bytes \<Rightarrow> goerr + bytes" where
  "decode_bytes v old =
     (if v = ''null'' then Inr []
      else if take 1 v = [CHR 0x22] then
        (case b64_decode (filter (\<lambda>c. c \<noteq> CHR 0x0A \<and> c \<noteq> CHR 0x0D) (unquote (butlast (drop 1 v)))) of
           None \<Rightarrow> Inl (OpaqueError ''illegal base64 data'')
         | Some bs \<Rightarrow> Inr bs)
      else Inl (json_error ''cannot unmarshal value into Go struct field of type []uint8''))"

definition decode_int :: "string \<Rightarrow> int \<Rightarrow> goerr + int" where
  "decode_int v old =
     (if v = ''null'' then Inr old
      else (case ParseInt v of
              Inl _ \<Rightarrow> Inl (json_error ''cannot unmarshal value into Go struct field of type int64'')
            | Inr n \<Rightarrow> Inr n))"

definition letter_fields :: "string list" where
  "letter_fields =
     [''dead_lettered_at'', ''reason'', ''error'', ''delivery_attempts'', ''consumer_group'', ''consumer_name'',
      ''original_topic'', ''event'', ''event_raw'']"

definition set_letter_field :: "string \<Rightarrow> string \<Rightarrow> DeadLetter \<Rightarrow> goerr + DeadLetter" where
  "set_letter_field f v d =
     (if f = ''dead_lettered_at'' then
        map_sum id (\<lambda>x. d\<lparr>dl_DeadLetteredAt := x\<rparr>) (decode_time v (dl_DeadLetteredAt d))
      else if f = ''reason'' then map_sum id (\<lambda>x. d\<lparr>dl_Reason := x\<rparr>) (decode_string v (dl_Reason d))
      else if f = ''error'' then map_sum id (\<lambda>x. d\<lparr>dl_Error := x\<rparr>) (decode_string v (dl_Error d))
      else if f = ''delivery_attempts'' then
        map_sum id (\<lambda>x. d\<lparr>dl_DeliveryAttempts := x\<rparr>) (decode_int v (dl_DeliveryAttempts d))
      else if f = ''consumer_group'' then
        map_sum id (\<lambda>x. d\<lparr>dl_ConsumerGroup := x\<rparr>) (decode_string v (dl_ConsumerGroup d))
      else if f = ''consumer_name'' then
        map_sum id (\<lambda>x. d\<lparr>dl_ConsumerName := x\<rparr>) (decode_string v (dl_ConsumerName d))
      else if f = ''original_topic'' then
        map_sum id (\<lambda>x. d\<lparr>dl_OriginalTopic := x\<rparr>) (decode_string v (dl_OriginalTopic d))
      else if f = ''event'' then Inr (d\<lparr>dl_Event := v\<rparr>)
      else map_sum id (\<lambda>x. d\<lparr>dl_EventRaw := x\<rparr>) (decode_bytes v (dl_EventRaw d)))"

definition zero_letter :: DeadLetter where
  "zero_letter =
     \<lparr>dl_DeadLetteredAt = zero_time, dl_Reason = [], dl_Error = [], dl_DeliveryAttempts = 0, dl_ConsumerGroup = [],
      dl_ConsumerName = [], dl_OriginalTopic = [], dl_Event = [], dl_EventRaw = []\<rparr>"

definition Unmarshal_dead_letter :: "bytes \<Rightarrow> goerr + DeadLetter" where
  "Unmarshal_dead_letter = Unmarshal_struct letter_fields set_letter_field zero_letter"

section \<open>Dispatch\<close>

datatype Outcome = OutcomeProcessed' | OutcomeSkipped' | OutcomeDeadLettered | OutcomeNacked

fun Outcome_String :: "Outcome \<Rightarrow> string" where
  "Outcome_String OutcomeProcessed' = ''processed''"
| "Outcome_String OutcomeSkipped' = ''skipped''"
| "Outcome_String OutcomeDeadLettered = ''dead_lettered''"
| "Outcome_String OutcomeNacked = ''nacked''"

record Result =
  rs_Outcome :: Outcome
  rs_Reason :: string
  rs_Category :: string
  rs_Err :: "goerr option"
  rs_DeadLetters :: "DeadLetter list"

record dispatchOptions =
  do_attempt :: int
  do_metadata :: metadata
  do_realBackoff :: bool
  do_dlqErr :: "goerr option"

datatype DispatchOption =
    WithDeliveryAttempt int | WithMetadata metadata | WithRealBackoff | WithFailingDLQ "goerr option"

fun dispatch_option :: "DispatchOption \<Rightarrow> dispatchOptions \<Rightarrow> dispatchOptions" where
  "dispatch_option (WithDeliveryAttempt n) o' = o'\<lparr>do_attempt := n\<rparr>"
| "dispatch_option (WithMetadata md) o' = o'\<lparr>do_metadata := md\<rparr>"
| "dispatch_option WithRealBackoff o' = o'\<lparr>do_realBackoff := True\<rparr>"
| "dispatch_option (WithFailingDLQ e) o' = o'\<lparr>do_dlqErr := e\<rparr>"

text \<open>
  The variable \<open>letters\<close> that the probe's sink appends to is a component of the outside state, next
  to whatever the application's handlers act on.
\<close>

type_synonym 'v bench = "DeadLetter list \<times> 'v"

definition letter_sink :: "goerr option \<Rightarrow> 'v bench sink_fun" where
  "letter_sink dlqErr ctx stream body w =
     (case dlqErr of
        Some e \<Rightarrow> (Some e, w)
      | None \<Rightarrow>
          (case Unmarshal_dead_letter body of
             Inl err \<Rightarrow> (Some (WrapError [Lit ''messagingtest: decoding dead letter: ''] err), w)
           | Inr dl \<Rightarrow> (None, (fst w @ [dl], snd w))))"

definition verdict_or_zero :: "probe_verdict option \<Rightarrow> probe_verdict" where
  "verdict_or_zero v = (case v of Some p \<Rightarrow> p | None \<Rightarrow> \<lparr>pv_Kind = [], pv_Category = [], pv_Reason = [], pv_Err = None\<rparr>)"

definition test_result :: "goerr option \<Rightarrow> probe_verdict \<Rightarrow> DeadLetter list \<Rightarrow> Result" where
  "test_result deliveryErr p letters =
     \<lparr>rs_Outcome =
        (if letters \<noteq> [] then OutcomeDeadLettered
         else if pv_Kind p = ''failed'' then OutcomeNacked
         else if pv_Kind p = ''skipped'' then OutcomeSkipped'
         else OutcomeProcessed'),
      rs_Reason = pv_Reason p, rs_Category = pv_Category p,
      rs_Err = (case deliveryErr of Some e \<Rightarrow> Some e | None \<Rightarrow> pv_Err p), rs_DeadLetters = letters\<rparr>"

text \<open>\<open>json.Marshal\<close> of a \<open>json.RawMessage\<close> payload: a nil one is \<open>null\<close>.\<close>

definition Marshal_raw_message :: "bytes \<Rightarrow> goerr + bytes" where
  "Marshal_raw_message p = (if p = [] then Inr ''null'' else Marshal_raw p)"

text \<open>A harness failure is \<open>Inl\<close>; the options are applied in order over an attempt of 1.\<close>

definition Dispatch ::
    "'v bench runtime \<Rightarrow> 'v bench ctx \<Rightarrow> 'v bench consumer option \<Rightarrow> 'p Event \<Rightarrow> DispatchOption list
     \<Rightarrow> 'v bench world \<Rightarrow> (goerr + Result) go \<times> 'v bench world" where
  "Dispatch rt ctx consumer e opts w =
     (case consumer of
        None \<Rightarrow> (Ret (Inl (ErrorString [Lit ''messagingtest: Dispatch needs a consumer, got nil''])), w)
      | Some c \<Rightarrow>
          (let o' = fold dispatch_option opts
                      \<lparr>do_attempt = 1, do_metadata = Map.empty, do_realBackoff = False, do_dlqErr = None\<rparr>
           in case Marshal_envelope (Marshal_raw_message (ev_Payload (te_Envelope e))) (te_Envelope e) of
                Inl err \<Rightarrow> (Ret (Inl (WrapError [Lit ''messagingtest: marshalling event: ''] err)), w)
              | Inr body \<Rightarrow>
                  (let md = (do_metadata o')(MetadataDeliveryAttempt \<mapsto> FormatInt (do_attempt o'));
                       probe = \<lparr>NoBackoff = (\<not> do_realBackoff o'), Sink = Some (letter_sink (do_dlqErr o'))\<rparr>;
                       w = w\<lparr>outside := ([], snd (outside w)), probe_out := None\<rparr>
                   in case seam_Dispatch rt ctx c (te_Topic e) body md probe w of
                        (Panic, w) \<Rightarrow> (Panic, w)
                      | (Ret deliveryErr, w) \<Rightarrow>
                          (Ret (Inr (test_result deliveryErr (verdict_or_zero (probe_out w)) (fst (outside w)))), w))))"

section \<open>The letters a delivery leaves\<close>

text \<open>
  \<open>n\<close> counts accepted dead letters in the outside state: the sink adds one exactly when it returns
  nil, and neither the runtime nor a handler touches it.
\<close>

definition counts_only_letters :: "('w \<Rightarrow> nat) \<Rightarrow> 'w runtime \<Rightarrow> 'w consumer \<Rightarrow> 'w ctx \<Rightarrow> bool" where
  "counts_only_letters n rt c ctx \<longleftrightarrow>
     (\<forall>w. n (snd (os_now rt w)) = n w) \<and> (\<forall>k w. n (snd (os_rand rt k w)) = n w)
     \<and> (\<forall>x d w. n (snd (os_timer rt x d w)) = n w) \<and> (\<forall>x w. n (snd (os_ctx_err rt x w)) = n w)
     \<and> (\<forall>t w. n (snd (otel_start rt t w)) = n w)
     \<and> (\<forall>sink v s b w. sink_for c ctx = Some sink \<longrightarrow>
          n (snd (publish_sink rt sink v s b w)) = n w + (if fst (publish_sink rt sink v s b w) = None then 1 else 0))
     \<and> (\<forall>h \<in> snd ` set (reg_typed (co_registry c)) \<union> snd ` set (reg_raw (co_registry c)).
          \<forall>x env w. n (snd (h x env w)) = n w)"

text \<open>As many letters were accepted as \<open>dlq\<close> points added.\<close>

definition balanced :: "('w \<Rightarrow> nat) \<Rightarrow> 'w world \<Rightarrow> 'w world \<Rightarrow> bool" where
  "balanced n w w' \<longleftrightarrow> n (outside w') + count_of Dlq (metrics w) = n (outside w) + count_of Dlq (metrics w')"

lemma balanced_trans: "balanced n w w' \<Longrightarrow> balanced n w' w'' \<Longrightarrow> balanced n w w''"
  by (simp add: balanced_def)

lemma balanced_frame:
  "n (outside w') = n (outside w) \<Longrightarrow> metrics w' = metrics w @ ps \<Longrightarrow> Dlq \<notin> pt_instrument ` set ps \<Longrightarrow> balanced n w w'"
  by (simp add: balanced_def count_of_0)

lemma balanced_same: "n (outside w') = n (outside w) \<Longrightarrow> metrics w' = metrics w \<Longrightarrow> balanced n w w'"
  by (simp add: balanced_def)

lemma balanced_out: "out f w = (a, w') \<Longrightarrow> (\<And>x. n (snd (f x)) = n x) \<Longrightarrow> balanced n w w'"
  using out_frame [of f w a w'] out_calls [of f w a w' n] by (simp add: balanced_def)

lemma balanced_deadLetter:
  assumes "deadLetter rt c ctx topic dl w = (err, w')" and "inst_live (co_inst c)"
    and "\<And>sink v s b w. sink_for c ctx = Some sink \<Longrightarrow>
      n (snd (publish_sink rt sink v s b w)) = n w + (if fst (publish_sink rt sink v s b w) = None then 1 else 0)"
  shows "balanced n w w'"
proof (cases "sink_for c ctx")
  case (Some sink)
  show ?thesis
  proof (cases "Marshal_dead_letter dl")
    case (Inr body)
    obtain err' o' where p: "publish_sink rt sink (ctx_values.truncate ctx) (dlqStream c topic) body (outside w) = (err', o')"
      by fastforce
    with assms(1) Some Inr have "outside w' = o'" "count_of Dlq (metrics w') = count_of Dlq (metrics w) + (if err' = None then 1 else 0)"
      using assms(2) by (auto simp: deadLetter_def Let_def out_def split: option.splits)
    with assms(3) [OF Some, of "ctx_values.truncate ctx" "dlqStream c topic" body "outside w"] p show ?thesis
      by (simp add: balanced_def)
  qed (use assms(1) Some in \<open>auto simp: deadLetter_def Let_def balanced_def\<close>)
qed (use assms(1) in \<open>auto simp: deadLetter_def Let_def balanced_def\<close>)

lemma newDeadLetter_balanced:
  "newDeadLetter rt c topic reason cause attempt w = (dl, w') \<Longrightarrow> (\<And>w. n (snd (os_now rt w)) = n w) \<Longrightarrow> balanced n w w'"
  using newDeadLetter_calls [of rt c topic reason cause attempt w dl w' n] newDeadLetter_frame(1) [of rt c topic reason cause attempt w dl w']
  by (simp add: balanced_def)

lemma exits_balanced:
  assumes "counts_only_letters n rt c ctx" and "inst_live (co_inst c)"
  shows "undeserializable rt c ctx topic payload attempt msg lg doing e r w = (res, r', w') \<Longrightarrow> balanced n w w'"
    and "dispatch_capped rt c ctx topic payload attempt lg r w = (res, r', w') \<Longrightarrow> balanced n w w'"
proof -
  have now: "n (snd (os_now rt w)) = n w" for w using assms(1) by (simp add: counts_only_letters_def)
  have dead: "balanced n v v'" if "deadLetter rt c ctx topic dl v = (err, v')" for dl v err v'
    by (rule balanced_deadLetter [OF that assms(2)]) (use assms(1) in \<open>simp add: counts_only_letters_def\<close>)
  have both: "balanced n v v''" if "newDeadLetter rt c topic reason cause attempt v = (dl, v')"
    "deadLetter rt c ctx topic dl' v' = (err, v'')" for reason cause v dl v' dl' err v''
    using newDeadLetter_balanced [where n = n, OF that(1)] now dead [OF that(2)] by (blast intro: balanced_trans)
  have log: "balanced n (log_at l m as v) v' \<longleftrightarrow> balanced n v v'" for l m as v v' by (simp add: balanced_def)
  show "undeserializable rt c ctx topic payload attempt msg lg doing e r w = (res, r', w') \<Longrightarrow> balanced n w w'"
    by (auto simp: undeserializable_def Let_def split: prod.splits dest!: both simp: log)
  show "dispatch_capped rt c ctx topic payload attempt lg r w = (res, r', w') \<Longrightarrow> balanced n w w'"
    by (auto simp: dispatch_capped_def Let_def split: prod.splits dest!: both simp: log)
qed

lemma retry_loop_balanced:
  assumes "retry_loop rt c ctx topic payload attempt handler env lg i r w = (res, r', w')"
    and "inst_live (co_inst c)" and "dr_inst r = co_inst c" and calm: "counts_only_letters n rt c ctx"
    and h: "\<And>x env w. n (snd (handler x env w)) = n w"
  shows "balanced n w w'"
  using assms(1)
proof (induction "nat (maxRetries c - i)" arbitrary: i w rule: less_induct)
  case less
  have called: "balanced n w w1" if "out (handler ctx env) w = (a, w1)" for a w1
    by (rule balanced_out [OF that]) (rule h)
  have slept: "balanced n v v'" if "sleepWithJitter rt ctx upper v = (woke, v')" for upper v woke v'
    using sleepWithJitter_calls [OF that, of n] sleepWithJitter_frame [OF that] calm
    by (simp add: balanced_def counts_only_letters_def)
  have retry: "balanced n v v'" if "sleepWithJitter rt ctx upper (record_retry k e r (log_at l m as v)) = (woke, v')"
    for upper k e l m as v woke v'
    by (rule balanced_trans [OF _ slept [OF that]]) (use assms(2,3) in \<open>simp add: balanced_def\<close>)
  from less.prems show ?case
  proof (cases rule: retry_loop_cases)
    case (permanent e w1 dl w3 err)
    have "balanced n w1 w3"
      using newDeadLetter_balanced [OF permanent(3), of n] calm by (simp add: counts_only_letters_def balanced_def)
    moreover have "balanced n w3 w'"
      by (rule balanced_deadLetter [OF permanent(4) assms(2)]) (use calm in \<open>simp add: counts_only_letters_def\<close>)
    ultimately show ?thesis using called [OF permanent(1)] by (blast intro: balanced_trans)
  next
    case (abandoned e w1)
    then show ?thesis using called [OF abandoned(1)] retry [OF abandoned(6)] by (blast intro: balanced_trans)
  next
    case (again e w1 w4)
    have "balanced n w4 w'" using less.hyps [OF _ again(5)] again(3) by simp
    then show ?thesis using called [OF again(1)] retry [OF again(4)] by (blast intro: balanced_trans)
  qed (auto dest!: called simp: balanced_def)
qed

lemma letters_ctx_cong:
  "FromContext ctx' = FromContext ctx \<Longrightarrow> counts_only_letters n rt c ctx \<Longrightarrow> counts_only_letters n rt c ctx'"
  by (simp add: counts_only_letters_def sink_for_cong [of ctx' ctx])

lemma dispatch_body_balanced:
  assumes "dispatch_body rt c ctx topic payload md lg r w = (res, r', w')"
    and "inst_live (co_inst c)" and "dr_inst r = co_inst c" and calm: "counts_only_letters n rt c ctx"
  shows "balanced n w w'"
proof (cases "decide c topic payload md")
  case (Invoke h k env)
  let ?r = "if k = MatchTyped then setEventType (ev_EventType env) r else r"
  let ?ctx = "contextWithCorrelationID ctx (ev_CorrelationID env)"
  from Invoke have "h \<in> snd ` set (reg_typed (co_registry c)) \<union> snd ` set (reg_raw (co_registry c))"
    by (auto simp: decide_def split: if_splits sum.splits option.splits prod.splits dest!: lookup_registered)
  then have h: "n (snd (h x env w)) = n w" for x env w
    using calm unfolding counts_only_letters_def by blast
  have i: "dr_inst ?r = co_inst c" using assms(3) by (simp add: setEventType_def)
  from assms(1) Invoke obtain lg' where l: "retry_loop rt c ?ctx topic payload (deliveryAttempt md) h env lg' 0 ?r
      (span_envelope env (span_attempt md w)) = (res, r', w')"
    by (auto simp: dispatch_body_decide runWithRetry_def Let_def)
  have calm': "counts_only_letters n rt c ?ctx" by (rule letters_ctx_cong [OF _ calm]) simp
  from retry_loop_balanced [where n = n, OF l assms(2) i calm'] h show ?thesis by (simp add: balanced_def)
qed (use assms(1) exits_balanced [OF calm assms(2)] in \<open>fastforce simp: dispatch_body_decide Let_def balanced_def\<close>)+

lemma dispatch_balanced:
  assumes d: "dispatch rt c ctx topic payload md w = (res, w')"
    and "inst_live (co_inst c)" and calm: "counts_only_letters n rt c ctx"
  shows "balanced n w w'"
proof -
  from d obtain ctx' ids r w1 r' w3 r2 where o: "dispatch_open rt c ctx topic md w = (ctx', ids, r, w1)"
    and b: "dispatch_body rt c ctx' topic payload md (dispatch_logger c payload md ids) r
       (dispatch_received rt c topic md w1) = (res, r', w3)"
    and e: "end_delivery rt r' w3 = (r2, w')" by (rule dispatch_parts)
  have now: "n (snd (os_now rt x)) = n x" and start: "n (snd (otel_start rt t x)) = n x" for x t
    using calm by (simp_all add: counts_only_letters_def)
  note keeps = outer_keeps [where calls = n and rt = rt, OF now start]
  have "n (outside w1) = n (outside w)" by (rule keeps(1) [OF o])
  then have 1: "balanced n w w1" using dispatch_open_frame(1) [OF o] by (rule balanced_same)
  have "n (outside (dispatch_received rt c topic md w1)) = n (outside w1)" by (rule keeps(2))
  then have 2: "balanced n w1 (dispatch_received rt c topic md w1)"
    using dispatch_received_metrics [OF assms(2), of rt topic md w1] by (auto intro: balanced_frame)
  have 3: "balanced n (dispatch_received rt c topic md w1) w3"
    by (rule dispatch_body_balanced [OF b assms(2) dispatch_open_frame(4) [OF o] letters_ctx_cong [OF dispatch_open_frame(11) [OF o] calm]])
  have "same_delivery r r'"
    using dispatch_body_settles [OF b assms(2) dispatch_open_frame(4) [OF o]] by (auto simp: settles_def)
  then have r': "\<not> dr_ended r'" "inst_live (dr_inst r')"
    using dispatch_open_frame(4,6) [OF o] assms by (auto simp: same_delivery_def)
  have "n (outside w') = n (outside w3)" by (rule keeps(3) [OF e])
  then have 4: "balanced n w3 w'"
    using end_delivery_metrics [OF e r'] by (auto simp: balanced_def terminal_of_def split: outcomeKind.splits)
  show ?thesis using 1 2 3 4 by (blast intro: balanced_trans)
qed

section \<open>The verdict is the delivery's\<close>

text \<open>The harness's own variable: only the sink appends to it.\<close>

definition letters_untouched :: "'v bench runtime \<Rightarrow> 'v bench consumer \<Rightarrow> bool" where
  "letters_untouched rt c \<longleftrightarrow>
     (\<forall>w. fst (snd (os_now rt w)) = fst w) \<and> (\<forall>k w. fst (snd (os_rand rt k w)) = fst w)
     \<and> (\<forall>x d w. fst (snd (os_timer rt x d w)) = fst w) \<and> (\<forall>x w. fst (snd (os_ctx_err rt x w)) = fst w)
     \<and> (\<forall>t w. fst (snd (otel_start rt t w)) = fst w)
     \<and> (\<forall>h \<in> snd ` set (reg_typed (co_registry c)) \<union> snd ` set (reg_raw (co_registry c)).
          \<forall>x env w. fst (snd (h x env w)) = fst w)"

lemma letter_sink_counts:
  assumes "letters_untouched rt c" and "FromContext ctx = Some \<lparr>NoBackoff = b, Sink = Some (letter_sink dlqErr)\<rparr>"
  shows "counts_only_letters (\<lambda>w. length (fst w)) rt c ctx"
  using assms
  by (auto simp: letters_untouched_def counts_only_letters_def sink_for_def letter_sink_def split: option.split sum.split)

definition outcome_of :: "point list \<Rightarrow> Outcome" where
  "outcome_of ps =
     (if count_of Processed ps = 1 then OutcomeProcessed'
      else if count_of Skipped ps = 1 then OutcomeSkipped'
      else if count_of Dlq ps = 1 then OutcomeDeadLettered else OutcomeNacked)"

text \<open>
  C19. \<open>messagingtest.Dispatch\<close> reports what production would do. Whatever the consumer, the event and
  the options: the outcome in the result is the one the delivery's metrics state (processed,
  skipped, dead-lettered, else nacked), and the dead letters in it are as many as were counted.
\<close>

theorem Dispatch_reports_delivery:
  fixes rt :: "'v bench runtime"
  assumes "Dispatch rt ctx (Some c) e opts w = (Ret (Inr r), w')" and "inst_live (co_inst c)"
    and "letters_untouched rt c"
  shows "\<exists>ps. metrics w' = metrics w @ ps \<and> rs_Outcome r = outcome_of ps \<and> length (rs_DeadLetters r) = count_of Dlq ps"
proof -
  define o' where "o' = fold dispatch_option opts
      \<lparr>do_attempt = 1, do_metadata = Map.empty, do_realBackoff = False, do_dlqErr = None\<rparr>"
  define p :: "'v bench probe" where "p = \<lparr>NoBackoff = (\<not> do_realBackoff o'), Sink = Some (letter_sink (do_dlqErr o'))\<rparr>"
  define w0 where "w0 = w\<lparr>outside := ([], snd (outside w)), probe_out := None\<rparr>"
  obtain body res where d: "dispatch rt c (NewContext ctx p) (te_Topic e) body
      ((do_metadata o')(MetadataDeliveryAttempt \<mapsto> FormatInt (do_attempt o'))) w0 = (Ret res, w')"
    and r: "r = test_result res (verdict_or_zero (probe_out w')) (fst (outside w'))"
    using assms(1) unfolding o'_def p_def w0_def
    by (auto simp: Dispatch_def seam_Dispatch_def Let_def split: sum.splits prod.splits go.splits)
  have w0: "metrics w0 = metrics w" "fst (outside w0) = []" by (simp_all add: w0_def)
  obtain ps qs el as and r0 r1 :: "'v bench deliveryRecorder" where m: "metrics w' = metrics w0 @ ps @ qs @
      [\<lparr>pt_instrument = ProcessingDuration, pt_value = el, pt_attrs = as\<rparr>,
       \<lparr>pt_instrument = terminal_of (dr_kind r1), pt_value = 1, pt_attrs = terminal_attrs r1\<rparr>]"
    and ps: "pt_instrument ` set ps \<subseteq> {Received, QueueLatency}" and qs: "settles (Ret res) r0 r1 qs"
    and unset: "dr_kind r0 = OutcomeUnset" and v: "probe_out w' = Some (verdict_of r1)"
    using dispatch_record [OF d assms(2)] by (metis context_values(3) option.distinct(1))
  let ?ps = "ps @ qs @ [\<lparr>pt_instrument = ProcessingDuration, pt_value = el, pt_attrs = as\<rparr>,
       \<lparr>pt_instrument = terminal_of (dr_kind r1), pt_value = 1, pt_attrs = terminal_attrs r1\<rparr>]"
  have 0: "count_of i ps = 0" if "i \<notin> {Received, QueueLatency}" for i using that ps by (intro count_of_0) blast
  have 1: "count_of i qs = 0" if "i \<notin> {Retries, Dlq, DlqPublishFailures}" for i
    using that qs by (intro count_of_0) (auto simp: settles_def)
  have "counts_only_letters (\<lambda>w. length (fst w)) rt c (NewContext ctx p)"
    by (rule letter_sink_counts [OF assms(3)]) (simp add: p_def)
  from dispatch_balanced [OF d assms(2) this] m w0 have letters: "length (fst (outside w')) = count_of Dlq ?ps"
    by (simp add: balanced_def)
  have dlq: "count_of Dlq ?ps = count_of Dlq qs" by (simp add: 0 terminal_of_def split: outcomeKind.split)
  have "rs_Outcome r = outcome_of ?ps"
    using qs letters unfolding dlq
    by (cases "dr_kind r1")
      (auto simp: r v test_result_def verdict_or_zero_def verdict_of_def kindName_def outcome_of_def 0 1 terminal_of_def
        settles_def unset split: option.splits go.splits)
  with m w0 letters show ?thesis by (intro exI [of _ ?ps]) (simp add: r test_result_def)
qed

section \<open>The test helpers at work\<close>

definition idle_consumer :: "nat bench consumer" where
  "idle_consumer =
     \<lparr>co_cfg = minimal_consumer, co_registry = newRegistry, co_running = False, co_dlq = None, co_reader = None,
      co_inst = \<lparr>inst_created = map fst instrument_specs, inst_live = True\<rparr>\<rparr>"

definition sample_test_event :: "unit Event" where
  "sample_test_event = \<lparr>te_Topic = ''t'', te_Envelope = sample_envelope, te_Payload = Some ()\<rparr>"

lemma sample_marshals: "\<exists>body. Marshal_envelope (Marshal_raw_message (ev_Payload sample_envelope)) sample_envelope = Inr body"
proof -
  have "isl (Marshal_envelope (Marshal_raw_message (ev_Payload sample_envelope)) sample_envelope) = False" by code_simp
  then show ?thesis by (cases "Marshal_envelope (Marshal_raw_message (ev_Payload sample_envelope)) sample_envelope") auto
qed

lemma over_cap_returns:
  assumes "cc_MaxDeliveryAttempts (cfg_Consumer (co_cfg c)) < deliveryAttempt md"
  shows "\<exists>e. fst (dispatch rt c ctx topic body md w) = Ret e"
proof -
  obtain ctx' ids r w1 where d: "fst (dispatch rt c ctx topic body md w) =
      fst (dispatch_body rt c ctx' topic body md (dispatch_logger c body md ids) r w1)" by (rule fst_dispatch)
  then show ?thesis
    using assms by (simp add: dispatch_body_decide decide_def dispatch_capped_def Let_def split_beta)
qed

theorem Dispatch_reports_delivery_witness:
  "\<exists>r w'. Dispatch sample_runtime sample_context (Some idle_consumer) sample_test_event [WithDeliveryAttempt 6] (start_world ([], 0))
       = (Ret (Inr r), w') \<and> rs_Outcome r = outcome_of (metrics w') \<and> length (rs_DeadLetters r) = count_of Dlq (metrics w')"
proof -
  let ?md = "Map.empty(MetadataDeliveryAttempt \<mapsto> FormatInt 6)"
  obtain body where body: "Marshal_envelope (Marshal_raw_message (ev_Payload sample_envelope)) sample_envelope = Inr body"
    using sample_marshals by blast
  have "deliveryAttempt ?md = 6" by (rule deliveryAttempt_stamped) simp_all
  then have "\<exists>e. fst (dispatch sample_runtime idle_consumer ctx ''t'' body ?md w) = Ret e" for ctx w
    by (intro over_cap_returns) (simp add: idle_consumer_def)
  then have "\<exists>r w'. Dispatch sample_runtime sample_context (Some idle_consumer) sample_test_event [WithDeliveryAttempt 6] (start_world ([], 0))
       = (Ret (Inr r), w')"
    using body by (auto simp: Dispatch_def sample_test_event_def seam_Dispatch_def Let_def split: prod.split go.split)
      (metis fst_conv go.distinct(1))
  then obtain r w' where d: "Dispatch sample_runtime sample_context (Some idle_consumer) sample_test_event [WithDeliveryAttempt 6] (start_world ([], 0))
       = (Ret (Inr r), w')" by blast
  have "letters_untouched sample_runtime idle_consumer" "inst_live (co_inst idle_consumer)"
    by (simp_all add: letters_untouched_def sample_runtime_def idle_consumer_def newRegistry_def)
  from Dispatch_reports_delivery [OF d this(2,1)] d show ?thesis by (auto simp: start_world_def)
qed

end
