(* ===== verification/Json_Syntax.thy ===== *)
theory Json_Syntax
  imports Json
begin

text \<open>
  The encoder of theory \<open>Json\<close> against its syntax check and decoder: an encoded string literal is
  scanned to its end and decodes to the string, a value keeps its extent when something follows it,
  and an encoded object is valid and decodes to its members.
\<close>

section \<open>Runes\<close>

text \<open>\<open>utf8.ValidString\<close>, and what encoding then decoding makes of any byte string: each byte that
  starts no rune becomes U+FFFD.\<close>

fun utf8 :: "string \<Rightarrow> bool" where
  "utf8 [] = True"
| "utf8 (c # cs) = (rune_len (c # cs) > 0 \<and> utf8 (drop (rune_len (c # cs) - 1) cs))"

fun to_valid :: "string \<Rightarrow> string" where
  "to_valid [] = []"
| "to_valid (c # cs) =
     (let n = rune_len (c # cs) in
      if n = 0 then rune_error @ to_valid cs else take n (c # cs) @ to_valid (drop (n - 1) cs))"

lemma to_valid_id: "utf8 s \<Longrightarrow> to_valid s = s"
proof (induction s rule: to_valid.induct)
  case (2 c cs)
  let ?n = "rune_len (c # cs)"
  have n: "?n > 0" "utf8 (drop (?n - 1) cs)" using 2(3) by auto
  have "to_valid (c # cs) = take ?n (c # cs) @ to_valid (drop (?n - 1) cs)" using n(1) by (simp add: Let_def)
  also have "\<dots> = take ?n (c # cs) @ drop (?n - 1) cs" using 2(2) [OF refl] n by simp
  also have "\<dots> = c # cs" using n(1) by (cases ?n) simp_all
  finally show ?case .
qed simp

lemma ascii_utf8: "list_all (\<lambda>c. ord c < 128) s \<Longrightarrow> utf8 s"
  by (induction s) simp_all

lemma rune_len_take:
  assumes "rune_len s = n" and "0 < n"
  shows "rune_len (take n s @ t) = n"
  using assms
  by (cases s) (auto simp: rune_len.simps(2) split: if_splits list.splits)

lemma rune_len_high:
  assumes "1 < rune_len s" and "c \<in> set (take (rune_len s) s)"
  shows "128 \<le> ord c"
  using assms
  by (cases s)
    (auto simp: rune_len.simps(2) is_cont_def ord_in_def split: if_splits list.splits)

lemma rune_len_1: "rune_len (c # cs) = 1 \<longleftrightarrow> ord c < 128"
  by (auto simp: rune_len.simps(2) split: if_splits list.splits)

section \<open>String literals\<close>

text \<open>Text that \<open>scan_str\<close> passes over unchanged.\<close>

definition scans :: "string \<Rightarrow> bool" where
  "scans x \<longleftrightarrow> (\<forall>t. scan_str (x @ t) = map_option (\<lambda>(i, r). (x @ i, r)) (scan_str t))"

lemma scansI: "(\<And>t. scan_str (x @ t) = map_option (\<lambda>(i, r). (x @ i, r)) (scan_str t)) \<Longrightarrow> scans x"
  by (simp add: scans_def)

lemma scans_Nil [simp]: "scans []"
  by (simp add: scans_def option.map_id0)

lemma scans_append [simp]:
  assumes "scans x" "scans y"
  shows "scans (x @ y)"
proof (rule scansI)
  show "scan_str ((x @ y) @ t) = map_option (\<lambda>(i, r). ((x @ y) @ i, r)) (scan_str t)" for t
    using assms by (cases "scan_str t") (auto simp: scans_def)
qed

lemma scans_char: "c \<noteq> CHR 0x22 \<Longrightarrow> c \<noteq> CHR 0x5C \<Longrightarrow> 32 \<le> ord c \<Longrightarrow> scans [c]"
  by (rule scansI) simp

lemma scans_high: "(\<And>c. c \<in> set x \<Longrightarrow> 128 \<le> ord c) \<Longrightarrow> scans x"
proof (induction x)
  case (Cons c x)
  have "128 \<le> ord c" using Cons.prems by simp
  then have "scans [c]" by (intro scans_char) auto
  moreover have "scans x" by (rule Cons.IH) (simp add: Cons.prems)
  ultimately show ?case using scans_append [of "[c]" x] by simp
qed simp

lemma scans_escape: "simple_escape d \<noteq> None \<Longrightarrow> scans [CHR 0x5C, d]"
  by (rule scansI) auto

lemma scans_u: "is_hex g \<Longrightarrow> is_hex h \<Longrightarrow> is_hex i \<Longrightarrow> is_hex j \<Longrightarrow> scans [CHR 0x5C, CHR ''u'', g, h, i, j]"
  by (rule scansI) (simp add: simple_escape_def)

lemma hex_value_hex_char: "d < 16 \<Longrightarrow> hex_value (hex_char d) = Some d"
  by (auto simp: hex_value_def hex_char_def is_digit_def ord_in_def of_char_of)

lemma ord_less_256: "ord (c :: char) < 256"
  by (cases c) simp

lemma u00_shape:
  "u00 c = [CHR 0x5C, CHR ''u'', CHR ''0'', CHR ''0'', hex_char (ord c div 16), hex_char (ord c mod 16)]"
  by (simp add: u00_def hex_byte_def)

lemma hex_of_byte: "hex_value (hex_char (ord c div 16)) = Some (ord c div 16)" "hex_value (hex_char (ord c mod 16)) = Some (ord c mod 16)"
proof -
  have "ord c div 16 < 16" using ord_less_256 [of c] by (simp add: less_mult_imp_div_less)
  then show "hex_value (hex_char (ord c div 16)) = Some (ord c div 16)" by (rule hex_value_hex_char)
  show "hex_value (hex_char (ord c mod 16)) = Some (ord c mod 16)" by (rule hex_value_hex_char) simp
qed

lemma hex_literal: "hex_value (CHR ''0'') = Some 0" "hex_value (CHR ''2'') = Some 2" "hex_value (CHR ''8'') = Some 8"
  "hex_value (CHR ''9'') = Some 9" "hex_value (CHR ''f'') = Some 15" "hex_value (CHR ''d'') = Some 13"
  by (simp_all add: hex_value_def is_digit_def ord_in_def)

lemma scans_u00: "scans (u00 c)"
  unfolding u00_shape by (rule scans_u) (simp_all add: is_hex_def hex_of_byte hex_literal)

lemma scans_escape_char: "scans (escape_char c)"
proof -
  have "scans [CHR 0x5C, d]" if "d \<in> {CHR 0x22, CHR 0x5C, CHR ''b'', CHR ''f'', CHR ''n'', CHR ''r'', CHR ''t''}" for d
    using that by (intro scans_escape) (auto simp: simple_escape_def)
  then show ?thesis using scans_u00 [of c] scans_char [of c] by (simp add: escape_char_def not_less)
qed

lemma scans_escape_string: "scans (escape_string s)"
proof (induction s rule: escape_string.induct)
  case (2 c cs)
  let ?n = "rune_len (c # cs)"
  consider "?n = 0" | "?n = 1" | "1 < ?n" by linarith
  then show ?case
  proof cases
    case 1
    then show ?thesis
      using scans_append [OF scans_u 2(1) [OF refl 1], of "CHR ''f''" "CHR ''f''" "CHR ''f''" "CHR ''d''"]
      by (simp add: is_hex_def hex_literal)
  next
    case n: 2
    then show ?thesis using scans_append [OF scans_escape_char 2(2) [OF refl]] by simp
  next
    case 3
    have "scans (line_sep_escape (c # cs))"
      using scans_u [of "CHR ''2''" "CHR ''0''" "CHR ''2''"] by (simp add: line_sep_escape_def is_hex_def hex_literal)
    moreover have "scans (take ?n (c # cs))" using rune_len_high [OF 3] by (intro scans_high)
    ultimately show ?thesis
      using 3 2(3,4) [OF refl] by (auto simp: Let_def simp del: take_Suc_Cons intro!: scans_append)
  qed
qed simp

lemma scan_Marshal_string: "scan_str (escape_string s @ CHR 0x22 # t) = Some (escape_string s, t)"
  using scans_escape_string [of s] by (simp add: scans_def)

text \<open>Decoding one encoded piece at a time.\<close>

lemma encode_ascii: "ord c < 128 \<Longrightarrow> encode_rune (ord c) = [c]"
  by (simp add: encode_rune_def)

lemma unquote_u:
  "hex4 g h i j < 0xD800 \<or> 0xDFFF < hex4 g h i j \<Longrightarrow>
   unquote (CHR 0x5C # CHR ''u'' # g # h # i # j # t) = encode_rune (hex4 g h i j) @ unquote t"
  by (auto simp: Let_def)

lemma unquote_plain: "ord c < 128 \<Longrightarrow> c \<noteq> CHR 0x5C \<Longrightarrow> unquote (c # t) = c # unquote t"
  by simp

lemma hex4_u00: "hex4 (CHR ''0'') (CHR ''0'') (hex_char (ord c div 16)) (hex_char (ord c mod 16)) = ord c"
  by (simp add: hex4_def hex_literal hex_of_byte)

lemma unquote_escape_char:
  assumes "ord c < 128"
  shows "unquote (escape_char c @ t) = c # unquote t"
proof -
  have "unquote (u00 c @ t) = c # unquote t"
    using assms unquote_u [of "CHR ''0''" "CHR ''0''" "hex_char (ord c div 16)" "hex_char (ord c mod 16)" t]
    by (simp add: u00_shape hex4_u00 encode_ascii)
  then show ?thesis using assms by (auto simp: escape_char_def simple_escape_def)
qed

lemma unquote_rune:
  assumes "1 < rune_len s"
  shows "unquote (take (rune_len s) s @ t) = take (rune_len s) s @ unquote t"
proof -
  let ?n = "rune_len s" and ?x = "take (rune_len s) s @ t"
  obtain c cs where s: "s = c # cs" using assms by (cases s) auto
  have c: "128 \<le> ord c" using rune_len_high [OF assms, of c] assms by (simp add: s take_Cons')
  have r: "rune_len ?x = ?n" using rune_len_take [OF refl, of s t] assms by simp
  have len: "?n \<le> length s" by (rule rune_len_le)
  have x: "?x = c # (take (?n - 1) cs @ t)" using assms by (simp add: s take_Cons')
  have "unquote ?x = take ?n ?x @ unquote (drop (?n - 1) (take (?n - 1) cs @ t))"
    using r c assms unfolding x by (subst unquote.simps) auto
  also have "\<dots> = take ?n s @ unquote t" using len by (simp add: s)
  finally show ?thesis .
qed

lemma line_sep_shape:
  assumes "is_line_sep (c # cs)"
  shows "\<exists>d r. c = CHR 0xE2 \<and> cs = CHR 0x80 # d # r \<and> (d = CHR 0xA8 \<or> d = CHR 0xA9)"
  using assms
  by (auto simp: is_line_sep_def numeral_2_eq_2 numeral_3_eq_3 Suc_le_length_iff take_Suc_conv_app_nth nth_Cons' length_Suc_conv)

lemma unquote_line_sep:
  assumes "is_line_sep (c # cs)"
  shows "unquote (line_sep_escape (c # cs) @ t) = take 3 (c # cs) @ unquote t" and "rune_len (c # cs) = 3"
proof -
  from line_sep_shape [OF assms] obtain d r
    where cs: "c = CHR 0xE2" "cs = CHR 0x80 # d # r" "d = CHR 0xA8 \<or> d = CHR 0xA9" by blast
  show "rune_len (c # cs) = 3" using cs by (auto simp: rune_len.simps(2) ord_in_def is_cont_def)
  have e: "encode_rune 0x2028 = [CHR 0xE2, CHR 0x80, CHR 0xA8]" "encode_rune 0x2029 = [CHR 0xE2, CHR 0x80, CHR 0xA9]"
    by (simp_all add: encode_rune_def char_of_def bit_0)
  have h: "hex4 (CHR ''2'') (CHR ''0'') (CHR ''2'') (CHR ''8'') = 0x2028" "hex4 (CHR ''2'') (CHR ''0'') (CHR ''2'') (CHR ''9'') = 0x2029"
    by (simp_all add: hex4_def hex_literal)
  have u: "unquote (CHR 0x5C # CHR ''u'' # CHR ''2'' # CHR ''0'' # CHR ''2'' # CHR ''8'' # t) = [CHR 0xE2, CHR 0x80, CHR 0xA8] @ unquote t"
    "unquote (CHR 0x5C # CHR ''u'' # CHR ''2'' # CHR ''0'' # CHR ''2'' # CHR ''9'' # t) = [CHR 0xE2, CHR 0x80, CHR 0xA9] @ unquote t"
    by (subst unquote_u, simp only: h, simp, simp only: h e)+
  show "unquote (line_sep_escape (c # cs) @ t) = take 3 (c # cs) @ unquote t"
    using cs u by (auto simp: line_sep_escape_def simp del: unquote.simps)
qed

lemma unquote_bad: "unquote (CHR 0x5C # CHR ''u'' # CHR ''f'' # CHR ''f'' # CHR ''f'' # CHR ''d'' # t) = rune_error @ unquote t"
proof -
  have h: "hex4 (CHR ''f'') (CHR ''f'') (CHR ''f'') (CHR ''d'') = 0xFFFD" by (simp add: hex4_def hex_literal)
  have e: "encode_rune 0xFFFD = rune_error" by (simp add: encode_rune_def rune_error_def char_of_def bit_0)
  show ?thesis by (subst unquote_u, simp only: h, simp, simp only: h e)
qed

text \<open>Encoding and decoding a string.\<close>

lemma unquote_escape_string: "unquote (escape_string s) = to_valid s"
proof (induction s rule: escape_string.induct)
  case (2 c cs)
  let ?n = "rune_len (c # cs)"
  consider "?n = 0" | "?n = 1" | (sep) "1 < ?n" "is_line_sep (c # cs)" | (rune) "1 < ?n" "\<not> is_line_sep (c # cs)" by linarith
  then show ?case
  proof cases
    case 1
    then show ?thesis using 2(1) [OF refl 1] unquote_bad [of "escape_string cs"] by (simp del: unquote.simps)
  next
    case n: 2
    with rune_len_1 [of c cs] have "ord c < 128" by simp
    with n 2(2) [OF refl] show ?thesis by (simp add: unquote_escape_char del: unquote.simps)
  next
    case sep
    with 2(3) [OF refl] unquote_line_sep [OF sep(2)] show ?thesis
      by (simp add: Let_def del: unquote.simps)
  next
    case rune
    with 2(4) [OF refl] unquote_rune [OF rune(1), of "escape_string (drop (?n - 1) cs)"] show ?thesis
      by (simp add: Let_def del: unquote.simps take_Suc_Cons)
  qed
qed simp

section \<open>Values in context\<close>

text \<open>What may follow a value inside another: a comma or a closing bracket.\<close>

definition delim :: "string \<Rightarrow> bool" where
  "delim x \<longleftrightarrow> (\<exists>c t. x = c # t \<and> (c = CHR '','' \<or> c = CHR ''}'' \<or> c = CHR '']''))"

lemma delimI [simp]: "delim (CHR '','' # t)" "delim (CHR ''}'' # t)" "delim (CHR '']'' # t)"
  by (auto simp: delim_def)

lemma delim_simps:
  assumes "delim x"
  shows "skip_ws x = x" "dropWhile is_digit x = x" "scan_exp x = Some x" "scan_frac x = Some x" "x \<noteq> []"
    "dropWhile is_digit (t @ x) = dropWhile is_digit t @ x"
proof -
  obtain c s where x: "x = c # s" "c = CHR '','' \<or> c = CHR ''}'' \<or> c = CHR '']''" using assms by (auto simp: delim_def)
  then show "skip_ws x = x" "scan_exp x = Some x" "scan_frac x = Some x" "x \<noteq> []" and d: "dropWhile is_digit x = x"
    by (auto simp: skip_ws_def is_ws_def is_digit_def scan_exp_def scan_frac_def)
  show "dropWhile is_digit (t @ x) = dropWhile is_digit t @ x" by (induction t) (simp_all add: d)
qed

lemma skip_ws_append: "skip_ws s \<noteq> [] \<Longrightarrow> skip_ws (s @ x) = skip_ws s @ x"
  unfolding skip_ws_def by (induction s) auto

lemma skip_ws_delim: "delim x \<Longrightarrow> skip_ws (s @ x) = skip_ws s @ x"
  using delim_simps(1) [of x] unfolding skip_ws_def by (induction s) auto

lemma scan_str_cases:
  assumes "scan_str (c # cs) = Some (k, r)"
  obtains (stop) "c = CHR 0x22" "k = []" "r = cs"
  | (piece) x rest i where "c # cs = x @ rest" "x \<noteq> []" "scans x" "scan_str rest = Some (i, r)" "k = x @ i"
proof (cases "c = CHR 0x22")
  case True
  with assms stop show thesis by simp
next
  case quote: False
  show thesis
  proof (cases "c = CHR 0x5C")
    case False
    with assms quote have "scans [c]" "\<exists>i. scan_str cs = Some (i, r) \<and> k = [c] @ i"
      by (auto intro!: scans_char split: if_splits)
    then show thesis using piece [of "[c]" cs] by auto
  next
    case True
    with assms obtain d ds where cs: "cs = d # ds" by (cases cs) (auto split: if_splits)
    show thesis
    proof (cases "simple_escape d = None")
      case False
      with assms True cs have "\<exists>i. scan_str ds = Some (i, r) \<and> k = [c, d] @ i" by auto
      then show thesis using piece [of "[c, d]" ds] scans_escape [OF False] True cs by auto
    next
      case no: True
      then obtain g h i j es where ds: "d = CHR ''u''" "ds = g # h # i # j # es" "is_hex g" "is_hex h" "is_hex i" "is_hex j"
        using assms True cs by (auto split: if_splits list.splits)
      with assms True cs no have "\<exists>y. scan_str es = Some (y, r) \<and> k = [c, d, g, h, i, j] @ y" by auto
      then show thesis using piece [of "[c, d, g, h, i, j]" es] scans_u [OF ds(3-6)] True cs ds by auto
    qed
  qed
qed

lemma scan_str_split: "scan_str s = Some (k, r) \<Longrightarrow> s = k @ CHR 0x22 # r \<and> scans k"
proof (induction "length s" arbitrary: s k r rule: less_induct)
  case less
  then obtain c cs where s: "s = c # cs" by (cases s) auto
  from less.prems [unfolded s] show ?case
  proof (cases rule: scan_str_cases)
    case (piece x rest i)
    have "length rest < length s" using piece(1,2) by (simp add: s)
    from less.hyps [OF this piece(4)] piece show ?thesis by (simp add: s)
  qed (simp add: s)
qed

lemma scan_str_append: "scan_str s = Some (k, r) \<Longrightarrow> scan_str (s @ x) = Some (k, r @ x)"
  by (drule scan_str_split) (auto simp: scans_def)

lemma scan_exp_append: "delim x \<Longrightarrow> scan_exp s = Some r \<Longrightarrow> scan_exp (s @ x) = Some (r @ x)"
proof -
  assume d: "delim x" and s: "scan_exp s = Some r"
  have body: "(case t @ x of d # t \<Rightarrow> if is_digit d then Some (dropWhile is_digit t) else None | [] \<Rightarrow> None) = Some (r @ x)"
    if "(case t of d # t \<Rightarrow> if is_digit d then Some (dropWhile is_digit t) else None | [] \<Rightarrow> None) = Some r" for t
    using that delim_simps(6) [OF d] by (cases t) (auto split: if_splits)
  show ?thesis
  proof (cases s)
    case Nil
    with s delim_simps(3) [OF d] show ?thesis by (simp add: scan_exp_def)
  next
    case (Cons c t)
    show ?thesis
    proof (cases "c = CHR ''e'' \<or> c = CHR ''E''")
      case True
      then have "t \<noteq> []" using s Cons by (auto simp: scan_exp_def)
      then obtain e u where "t = e # u" by (cases t) auto
      then show ?thesis using True s Cons body [of t] body [of u] by (auto simp: scan_exp_def Let_def split: if_splits)
    next
      case False
      with s Cons show ?thesis by (auto simp: scan_exp_def)
    qed
  qed
qed

lemma scan_frac_append: "delim x \<Longrightarrow> scan_frac s = Some r \<Longrightarrow> scan_frac (s @ x) = Some (r @ x)"
proof -
  assume d: "delim x" and s: "scan_frac s = Some r"
  show ?thesis
  proof (cases s)
    case Nil
    with s delim_simps(4) [OF d] show ?thesis by (simp add: scan_frac_def)
  next
    case (Cons c t)
    then show ?thesis
      using s scan_exp_append [OF d, of s r] scan_exp_append [OF d, of "dropWhile is_digit (tl t)" r] delim_simps(6) [OF d, of "tl t"]
      by (cases t) (auto simp: scan_frac_def split: if_splits)
  qed
qed

lemma scan_number_append: "delim x \<Longrightarrow> scan_number s = Some r \<Longrightarrow> scan_number (s @ x) = Some (r @ x)"
proof -
  assume d: "delim x" and s: "scan_number s = Some r"
  have body: "(case t @ x of [] \<Rightarrow> None | c # u \<Rightarrow> if c = CHR ''0'' then scan_frac u else if is_digit c then scan_frac (dropWhile is_digit u) else None)
      = Some (r @ x)"
    if "(case t of [] \<Rightarrow> None | c # u \<Rightarrow> if c = CHR ''0'' then scan_frac u else if is_digit c then scan_frac (dropWhile is_digit u) else None)
      = Some r" for t
    using that scan_frac_append [OF d] delim_simps(6) [OF d]
    by (cases t) (auto split: if_splits)
  from s obtain c u where "s = c # u" by (cases s) (auto simp: scan_number_def)
  then show ?thesis using s body [of s] body [of u] by (auto simp: scan_number_def split: if_splits)
qed

lemma HasPrefix_grow: "HasPrefix s p \<Longrightarrow> HasPrefix (s @ x) p \<and> drop (length p) (s @ x) = drop (length p) s @ x"
proof -
  assume p: "HasPrefix s p"
  then have "length p \<le> length s" by (metis HasPrefix_def length_take min.cobounded1)
  with p show ?thesis by (simp add: HasPrefix_def)
qed

lemma take1_append: "take 1 s = [c] \<Longrightarrow> take 1 (s @ x) = [c] \<and> drop 1 (s @ x) = drop 1 s @ x"
  by (cases s) auto

lemma ws_step:
  assumes "take 1 (skip_ws r) = [c]"
  shows "take 1 (skip_ws (r @ x)) = [c]" "drop 1 (skip_ws (r @ x)) = drop 1 (skip_ws r) @ x"
  using assms skip_ws_append [of r x] take1_append [of "skip_ws r" c x] by (cases "skip_ws r"; simp)+

lemma skip_Nil: "skip_value n d [] = None" "skip_members n d [] = None" "skip_elems n d [] = None"
proof -
  show v: "skip_value n d [] = None" for n d by (cases n) simp_all
  show "skip_members n d [] = None" "skip_elems n d [] = None" by (cases n; simp add: v)+
qed

lemma HasPrefix_split: "HasPrefix s p \<Longrightarrow> \<exists>u. s = p @ u"
  by (metis HasPrefix_def append_take_drop_id)

text \<open>A text keeps its value when a delimiter follows, and when fewer brackets are open.\<close>

text \<open>The values that open no object or array, and the pieces of a list of members.\<close>

lemma literal_skip: "p \<in> {''true'', ''false'', ''null''} \<Longrightarrow> skip_value (Suc n) d (p @ x) = Some x"
  by (auto simp: HasPrefix_def)

lemma number_skip: "c = CHR ''-'' \<or> is_digit c \<Longrightarrow> skip_value (Suc n) d (c # u) = scan_number (c # u)"
proof -
  assume "c = CHR ''-'' \<or> is_digit c"
  then have c: "c \<noteq> CHR ''{'' \<and> c \<noteq> CHR ''['' \<and> c \<noteq> CHR 0x22 \<and> c \<noteq> CHR ''t'' \<and> c \<noteq> CHR ''f'' \<and> c \<noteq> CHR ''n''"
    by (auto simp: is_digit_def)
  then have "\<not> HasPrefix (c # u) ''true'' \<and> \<not> HasPrefix (c # u) ''false'' \<and> \<not> HasPrefix (c # u) ''null''"
    by (simp add: HasPrefix_def)
  with c show ?thesis by simp
qed

lemma scalar_cases:
  assumes "skip_value (Suc n) d s = Some r" and s: "s = c # cs" and "c \<noteq> CHR ''{''" and "c \<noteq> CHR ''[''"
  obtains (str) k where "c = CHR 0x22" "scan_str cs = Some (k, r)"
  | (lit) p where "p \<in> {''true'', ''false'', ''null''}" "s = p @ r"
  | (num) "c = CHR ''-'' \<or> is_digit c" "scan_number s = Some r"
proof -
  have sv: "skip_value (Suc n) d s = (if c = CHR 0x22 then map_option snd (scan_str cs) else if HasPrefix s ''true'' then Some (drop 4 s)
      else if HasPrefix s ''false'' then Some (drop 5 s) else if HasPrefix s ''null'' then Some (drop 4 s) else scan_number s)"
    using assms(3,4) by (simp add: s)
  consider "c = CHR 0x22" | "c \<noteq> CHR 0x22" "HasPrefix s ''true'' \<or> HasPrefix s ''false'' \<or> HasPrefix s ''null''"
    | "c \<noteq> CHR 0x22" "\<not> HasPrefix s ''true''" "\<not> HasPrefix s ''false''" "\<not> HasPrefix s ''null''" by blast
  then show thesis
  proof cases
    case 1
    with sv assms(1) show thesis using str by auto
  next
    case 2
    then obtain p u where p: "p \<in> {''true'', ''false'', ''null''}" and su: "s = p @ u" using HasPrefix_split by blast
    with assms(1) literal_skip [OF p] have "u = r" by (simp del: skip_value.simps)
    with p su show thesis using lit by blast
  next
    case 3
    with sv assms(1) have n: "scan_number s = Some r" by (simp del: skip_value.simps)
    then have "c = CHR ''-'' \<or> is_digit c" by (auto simp: s scan_number_def is_digit_def split: if_splits)
    with n show thesis using num by blast
  qed
qed

lemma skip_members_cases:
  assumes "skip_members (Suc n) d s = Some r"
  obtains k r1 r2 where "take 1 s = [CHR 0x22]" "scan_str (drop 1 s) = Some (k, r1)" "take 1 (skip_ws r1) = '':''"
    "skip_value n d (skip_ws (drop 1 (skip_ws r1))) = Some r2"
    "(take 1 (skip_ws r2) = ''}'' \<and> r = drop 1 (skip_ws r2))
      \<or> (take 1 (skip_ws r2) \<noteq> ''}'' \<and> take 1 (skip_ws r2) = '','' \<and> skip_members n d (skip_ws (drop 1 (skip_ws r2))) = Some r)"
  using assms by (auto split: if_splits option.splits)

lemma skip_append:
  assumes "delim x"
  shows "skip_value n d s = Some r \<Longrightarrow> skip_value n d (s @ x) = Some (r @ x)"
    and "skip_members n d s = Some r \<Longrightarrow> skip_members n d (s @ x) = Some (r @ x)"
    and "skip_elems n d s = Some r \<Longrightarrow> skip_elems n d (s @ x) = Some (r @ x)"
proof (induction n d s and n d s and n d s arbitrary: r and r and r rule: skip_value_skip_members_skip_elems.induct)
  case (2 n d s)
  from 2(3) obtain c cs where s: "s = c # cs" by (cases s) auto
  have ws: "take 1 (skip_ws cs) = [b] \<Longrightarrow> take 1 (skip_ws (cs @ x)) = [b] \<and> drop 1 (skip_ws (cs @ x)) = drop 1 (skip_ws cs) @ x" for b
    using ws_step [of cs b x] by simp
  have ws': "skip_ws (cs @ x) = skip_ws cs @ x" by (rule skip_ws_delim [OF assms])
  show ?case
  proof (cases "c = CHR ''{'' \<or> c = CHR ''[''")
    case True
    show ?thesis
    proof (cases "skip_ws cs = []")
      case True
      with 2(3) \<open>c = CHR ''{'' \<or> c = CHR ''[''\<close> have False by (auto simp: s skip_Nil split: if_splits)
      then show ?thesis ..
    next
      case False
      then have t: "take 1 (skip_ws cs @ x) = take 1 (skip_ws cs)" "drop 1 (skip_ws cs @ x) = drop 1 (skip_ws cs) @ x"
        by (cases "skip_ws cs"; simp)+
      show ?thesis using 2(1,2) [OF s] 2(3) True ws' t by (auto simp: s simp del: One_nat_def split: if_splits)
    qed
  next
    case False
    then have "c \<noteq> CHR ''{''" "c \<noteq> CHR ''[''" by simp_all
    from 2(3) s this show ?thesis
    proof (cases rule: scalar_cases)
      case (str k)
      then show ?thesis using scan_str_append [of cs k r x] by (simp add: s)
    next
      case (lit p)
      then show ?thesis using literal_skip [OF lit(1), of n d "r @ x"] by (simp del: skip_value.simps)
    next
      case num
      then show ?thesis using number_skip [OF num(1), of n d "cs @ x"] scan_number_append [OF assms num(2)] by (simp add: s del: skip_value.simps)
    qed
  qed
next
  case (4 n d s)
  from 4(3) obtain k r1 r2 where t: "take 1 s = [CHR 0x22]" and k: "scan_str (drop 1 s) = Some (k, r1)" and c: "take 1 (skip_ws r1) = '':''"
    and v: "skip_value n d (skip_ws (drop 1 (skip_ws r1))) = Some r2"
    by (rule skip_members_cases)
  have "scan_str (drop 1 (s @ x)) = Some (k, r1 @ x)" "take 1 (s @ x) = [CHR 0x22]"
    using take1_append [OF t, of x] scan_str_append [OF k, of x] by simp_all
  moreover have "skip_value n d (skip_ws (drop 1 (skip_ws (r1 @ x)))) = Some (r2 @ x)"
    using ws_step [OF c, of x] 4(1) [OF t k refl c v] skip_ws_delim [OF assms] by simp
  ultimately show ?case
    using 4(2) [OF t k refl c v] 4(3) t k c v ws_step [of r2 _ x] skip_ws_delim [OF assms] ws_step [OF c, of x]
    by (auto simp: skip_ws_delim [OF assms] simp del: One_nat_def split: if_splits)
next
  case (6 n d s)
  from 6(3) obtain r2 where v: "skip_value n d s = Some r2" by (auto split: option.splits)
  show ?case
    using 6(1) [OF v] 6(2) [OF v] 6(3) v ws_step [of r2 _ x] skip_ws_delim [OF assms]
    by (auto simp del: One_nat_def split: if_splits)
qed simp_all

lemma skip_depth:
  "skip_value n d s = Some r \<Longrightarrow> d' \<le> d \<Longrightarrow> skip_value n d' s = Some r"
  "skip_members n d s = Some r \<Longrightarrow> d' \<le> d \<Longrightarrow> skip_members n d' s = Some r"
  "skip_elems n d s = Some r \<Longrightarrow> d' \<le> d \<Longrightarrow> skip_elems n d' s = Some r"
proof (induction n d s and n d s and n d s arbitrary: r d' and r d' and r d' rule: skip_value_skip_members_skip_elems.induct)
  case (2 n d s)
  from 2(3) obtain c cs where s: "s = c # cs" by (cases s) auto
  show ?case using 2(1,2) [OF s, of r "d' + 1"] 2(3,4) by (auto simp: s split: if_splits)
next
  case (4 n d s)
  from 4(3) obtain k r1 r2 where t: "take 1 s = [CHR 0x22]" and k: "scan_str (drop 1 s) = Some (k, r1)" and c: "take 1 (skip_ws r1) = '':''"
    and v: "skip_value n d (skip_ws (drop 1 (skip_ws r1))) = Some r2"
    by (rule skip_members_cases)
  have "skip_members (Suc n) e s = (if take 1 (skip_ws r2) = ''}'' then Some (drop 1 (skip_ws r2))
      else if take 1 (skip_ws r2) = '','' then skip_members n e (skip_ws (drop 1 (skip_ws r2))) else None)"
    if "skip_value n e (skip_ws (drop 1 (skip_ws r1))) = Some r2" for e
    by (simp add: t k c that del: One_nat_def)
  note step = this [OF v] this [OF 4(1) [OF t k refl c v 4(4)]]
  show ?case
  proof (cases "take 1 (skip_ws r2) = ''}''")
    case True
    with step 4(3) show ?thesis by (simp del: skip_members.simps)
  next
    case False
    with step 4(3) have comma: "take 1 (skip_ws r2) = '',''" and m: "skip_members n d (skip_ws (drop 1 (skip_ws r2))) = Some r"
      by (simp_all del: skip_members.simps split: if_splits)
    from 4(2) [OF t k refl c v False comma m 4(4)] step False comma show ?thesis by (simp del: skip_members.simps)
  qed
next
  case (6 n d s)
  from 6(3) obtain r2 where v: "skip_value n d s = Some r2" by (auto split: option.splits)
  have "skip_elems (Suc n) e s = (if take 1 (skip_ws r2) = '']'' then Some (drop 1 (skip_ws r2))
      else if take 1 (skip_ws r2) = '','' then skip_elems n e (skip_ws (drop 1 (skip_ws r2))) else None)"
    if "skip_value n e s = Some r2" for e
    by (simp add: that)
  note step = this [OF v] this [OF 6(1) [OF v 6(4)]]
  show ?case
  proof (cases "take 1 (skip_ws r2) = '']''")
    case True
    with step 6(3) show ?thesis by (simp del: skip_elems.simps)
  next
    case False
    with step 6(3) have comma: "take 1 (skip_ws r2) = '',''" and m: "skip_elems n d (skip_ws (drop 1 (skip_ws r2))) = Some r"
      by (simp_all del: skip_elems.simps split: if_splits)
    from 6(2) [OF v False comma m 6(4)] step False comma show ?thesis by (simp del: skip_elems.simps)
  qed
qed simp_all

section \<open>Objects\<close>

text \<open>A value text that fits into an object: one value, nothing before or after it.\<close>

definition value_ok :: "string \<Rightarrow> bool" where
  "value_ok v \<longleftrightarrow> v \<noteq> [] \<and> \<not> is_ws (hd v) \<and> skip_value (2 * length v + 1) 1 v = Some []"

lemma skip_ws_hd: "v \<noteq> [] \<Longrightarrow> \<not> is_ws (hd v) \<Longrightarrow> skip_ws (v @ x) = v @ x"
  by (cases v) (simp_all add: skip_ws_def)

lemma skip_ws_Cons: "\<not> is_ws c \<Longrightarrow> skip_ws (c # x) = c # x"
  by (simp add: skip_ws_def)

lemma not_ws: "\<not> is_ws (CHR 0x22)" "\<not> is_ws (CHR ''{'')" "\<not> is_ws (CHR ''}'')" "\<not> is_ws (CHR '','')" "\<not> is_ws (CHR '':'')"
  by (simp_all add: is_ws_def)

lemma value_in_context:
  assumes "value_ok v" and "delim x" and "d \<le> 1" and "2 * length v < n"
  shows "skip_value n d (v @ x) = Some x"
proof -
  have "skip_value n 1 v = Some []" using assms(1) skip_value_fuel [OF assms(4)] by (simp add: value_ok_def)
  from skip_append(1) [OF assms(2) skip_depth(1) [OF this assms(3)]] show ?thesis by simp
qed

lemma value_text_in_context: "value_ok v \<Longrightarrow> delim x \<Longrightarrow> value_text (v @ x) = Some (v, x)"
  using value_in_context [of v x 0 "2 * length (v @ x) + 1"] by (simp add: value_text_def del: skip_value.simps)

lemma value_ok_string: "value_ok (Marshal_string s)"
  using scan_Marshal_string [of s "[]"] by (simp add: value_ok_def Marshal_string_def not_ws)

lemma value_Marshal_string: "take 1 (Marshal_string s) = [CHR 0x22]" "unquote (butlast (drop 1 (Marshal_string s))) = to_valid s"
  "Marshal_string s \<noteq> ''null''"
  by (simp_all add: Marshal_string_def unquote_escape_string)

lemma join_members_Cons:
  "join_members ((k, v) # ms) = Marshal_string k @ CHR '':'' # v @ (if ms = [] then [] else CHR '','' # join_members ms)"
  by (cases ms) auto

lemma scan_member: "scan_str (drop 1 (Marshal_string k @ x)) = Some (escape_string k, x)" "take 1 (Marshal_string k @ x) = [CHR 0x22]"
  by (simp_all add: Marshal_string_def scan_Marshal_string)

lemma skip_ws_member: "ms \<noteq> [] \<Longrightarrow> skip_ws (join_members ms @ x) = join_members ms @ x"
  by (cases ms) (auto simp: join_members_Cons Marshal_string_def skip_ws_Cons not_ws)

lemma take1_Cons: "take 1 (c # x) = [c]" "drop 1 (c # x) = x"
  by simp_all

lemma skip_members_step:
  assumes "skip_value n 1 (v @ x) = Some x" and "value_ok v"
  shows "skip_members (Suc n) 1 (Marshal_string k @ CHR '':'' # v @ x) =
      (if take 1 (skip_ws x) = ''}'' then Some (drop 1 (skip_ws x))
       else if take 1 (skip_ws x) = '','' then skip_members n 1 (skip_ws (drop 1 (skip_ws x))) else None)"
  using assms skip_ws_hd [of v x]
  by (simp only: skip_members.simps scan_member skip_ws_Cons [OF not_ws(5)] take1_Cons value_ok_def simp_thms if_True
      option.case prod.case)

lemma members_step:
  assumes "value_text (v @ x) = Some (v, x)" and "value_ok v"
  shows "members (Suc n) (Marshal_string k @ CHR '':'' # v @ x) =
      (to_valid k, v) # (if take 1 (skip_ws x) = '','' then members n (skip_ws (drop 1 (skip_ws x))) else [])"
  using assms skip_ws_hd [of v x]
  by (simp only: members.simps scan_member skip_ws_Cons [OF not_ws(5)] take1_Cons value_ok_def simp_thms if_True
      option.case prod.case unquote_escape_string)

lemma skip_join_members:
  assumes "ms \<noteq> []" and "\<And>k v. (k, v) \<in> set ms \<Longrightarrow> value_ok v \<and> 2 * length v + length ms < n"
  shows "skip_members n 1 (join_members ms @ CHR ''}'' # t) = Some t"
  using assms
proof (induction ms arbitrary: n)
  case (Cons m ms)
  obtain k v where m: "m = (k, v)" by (cases m)
  have v: "value_ok v" "2 * length v + length (m # ms) < n" using Cons.prems(2) [of k v] by (simp_all add: m)
  then obtain n' where n: "n = Suc n'" by (cases n) auto
  let ?x = "(if ms = [] then [] else CHR '','' # join_members ms) @ CHR ''}'' # t"
  have "delim ?x" by simp
  have "skip_value n' 1 (v @ ?x) = Some ?x"
    using value_in_context [OF v(1) \<open>delim ?x\<close>, of 1 n'] v(2) by (simp add: n del: skip_value.simps)
  from skip_members_step [OF this v(1), of k]
  have "skip_members n 1 (join_members (m # ms) @ CHR ''}'' # t) =
      (if take 1 (skip_ws ?x) = ''}'' then Some (drop 1 (skip_ws ?x))
       else if take 1 (skip_ws ?x) = '','' then skip_members n' 1 (skip_ws (drop 1 (skip_ws ?x))) else None)"
    by (simp only: m n join_members_Cons append_assoc append_Cons append_Nil)
  also have "\<dots> = Some t"
  proof (cases "ms = []")
    case True
    then show ?thesis by (simp add: skip_ws_Cons not_ws)
  next
    case False
    have "skip_members n' 1 (join_members ms @ CHR ''}'' # t) = Some t"
      using Cons.IH [OF False, of n'] Cons.prems(2) by (fastforce simp: n)
    with False show ?thesis by (simp add: skip_ws_Cons not_ws skip_ws_member del: skip_members.simps)
  qed
  finally show ?case .
qed simp

lemma members_join:
  assumes "ms \<noteq> []" and "\<And>k v. (k, v) \<in> set ms \<Longrightarrow> value_ok v" and "length ms \<le> n"
  shows "members n (join_members ms @ CHR ''}'' # t) = map (\<lambda>(k, v). (to_valid k, v)) ms"
  using assms
proof (induction ms arbitrary: n)
  case (Cons m ms)
  obtain k v where m: "m = (k, v)" by (cases m)
  obtain n' where n: "n = Suc n'" using Cons.prems(3) by (cases n) auto
  have v: "value_ok v" using Cons.prems(2) [of k v] by (simp add: m)
  let ?x = "(if ms = [] then [] else CHR '','' # join_members ms) @ CHR ''}'' # t"
  have "delim ?x" by simp
  from members_step [OF value_text_in_context [OF v \<open>delim ?x\<close>] v, of n' k]
  have "members n (join_members (m # ms) @ CHR ''}'' # t) =
      (to_valid k, v) # (if take 1 (skip_ws ?x) = '','' then members n' (skip_ws (drop 1 (skip_ws ?x))) else [])"
    by (simp only: m n join_members_Cons append_assoc append_Cons append_Nil)
  also have "\<dots> = map (\<lambda>(k, v). (to_valid k, v)) (m # ms)"
  proof (cases "ms = []")
    case True
    then show ?thesis by (simp add: m skip_ws_Cons not_ws)
  next
    case False
    have "members n' (join_members ms @ CHR ''}'' # t) = map (\<lambda>(k, v). (to_valid k, v)) ms"
      using Cons.IH [OF False, of n'] Cons.prems(2,3) by (fastforce simp: n)
    with False show ?thesis by (simp add: m skip_ws_Cons not_ws skip_ws_member del: members.simps)
  qed
  finally show ?case .
qed simp

lemma length_join_members:
  "(k, v) \<in> set ms \<Longrightarrow> length v + length ms \<le> length (join_members ms)"
  "length ms \<le> length (join_members ms)"
  by (induction ms) (auto simp: join_members_Cons Marshal_string_def split: if_splits)

text \<open>An object of well-formed members is valid JSON and decodes to its members.\<close>

lemma Marshal_object_decodes:
  assumes "ms \<noteq> []" and "\<And>k v. (k, v) \<in> set ms \<Longrightarrow> value_ok v"
  shows "Valid (Marshal_object ms)" and "skip_ws (Marshal_object ms) = Marshal_object ms"
    and "object_members (Marshal_object ms) = map (\<lambda>(k, v). (to_valid k, v)) ms"
    and "take 1 (Marshal_object ms) = ''{''"
proof -
  let ?j = "join_members ms @ ''}''"
  have j: "take 1 (skip_ws ?j) \<noteq> ''}''" "skip_ws ?j = ?j"
    using assms(1) skip_ws_member [OF assms(1)] by (cases ms, auto simp: join_members_Cons Marshal_string_def)+
  show s: "skip_ws (Marshal_object ms) = Marshal_object ms" "take 1 (Marshal_object ms) = ''{''"
    by (simp_all add: Marshal_object_def skip_ws_Cons not_ws)
  have "skip_members (2 * length (Marshal_object ms)) 1 (join_members ms @ CHR ''}'' # []) = Some []"
    using assms length_join_members(1) [of _ _ ms] by (intro skip_join_members) (force simp: Marshal_object_def)+
  then have "skip_value (Suc (2 * length (Marshal_object ms))) 0 (Marshal_object ms) = Some []"
    using j by (simp add: Marshal_object_def maxNestingDepth_def del: skip_members.simps)
  then show "Valid (Marshal_object ms)"
    by (simp add: Valid_def s Let_def skip_ws_def [of "[]"] del: skip_value.simps)
  show "object_members (Marshal_object ms) = map (\<lambda>(k, v). (to_valid k, v)) ms"
    using j members_join [OF assms, where n = "length (Marshal_object ms)" and t = "[]"] length_join_members(2) [of ms]
    by (simp add: object_members_def Marshal_object_def)
qed

end
