(* ===== verification/Json_Time.thy ===== *)
theory Json_Time
  imports Json
begin

text \<open>
  RFC 3339 timestamps: the civil date of a day number is the inverse of the day count of a date, and
  formatting a time and parsing the text gives the time back.
\<close>

section \<open>Times\<close>

lemma month_of_spec:
  "month_of ls d = (m, e) \<Longrightarrow> 0 \<le> d \<Longrightarrow> d < sum_list ls \<Longrightarrow>
   1 \<le> m \<and> m \<le> length ls \<and> 0 \<le> e \<and> e < ls ! (m - 1) \<and> sum_list (take (m - 1) ls) + e = d"
proof (induction ls arbitrary: d m e)
  case (Cons l ls)
  show ?case
  proof (cases "d < l")
    case True
    with Cons.prems show ?thesis by auto
  next
    case False
    then obtain m' where m: "month_of ls (d - l) = (m', e)" "m = Suc m'" using Cons.prems(1) by (auto split: prod.splits)
    from Cons.IH [OF m(1)] Cons.prems(2,3) False have "1 \<le> m' \<and> m' \<le> length ls \<and> 0 \<le> e \<and> e < ls ! (m' - 1)
        \<and> sum_list (take (m' - 1) ls) + e = d - l" by auto
    then show ?thesis by (cases m') (auto simp: m(2))
  qed
qed simp

text \<open>The position of a day in the cycles of 400, 100, 4 and 1 years.\<close>

lemma day_cycles:
  fixes n :: int
  obtains a b c e r where
    "n div 146097 = a" "min 3 (n mod 146097 div 36524) = b" "(n mod 146097 - 36524 * b) div 1461 = c"
    "min 3 ((n mod 146097 - 36524 * b - 1461 * c) div 365) = e" "n mod 146097 - 36524 * b - 1461 * c - 365 * e = r"
    "0 \<le> b" "b \<le> 3" "0 \<le> c" "c \<le> 24" "0 \<le> e" "e \<le> 3" "0 \<le> r" "r \<le> 365"
    "r = 365 \<longrightarrow> e = 3 \<and> (c = 24 \<longrightarrow> b = 3)" "n = 146097 * a + 36524 * b + 1461 * c + 365 * e + r"
proof -
  define a b where "a = n div 146097" and "b = min 3 (n mod 146097 div 36524)"
  define r1 where "r1 = n mod 146097 - 36524 * b"
  have n: "n = 146097 * a + 36524 * b + r1" by (simp add: a_def r1_def)
  have "0 \<le> n mod 146097" "n mod 146097 < 146097" by simp_all
  then have b: "0 \<le> b" "b \<le> 3" and r1: "0 \<le> r1" "r1 \<le> 36524" "r1 = 36524 \<longrightarrow> b = 3" unfolding b_def r1_def by linarith+
  define c r2 where "c = r1 div 1461" and "r2 = r1 - 1461 * c"
  have c: "0 \<le> c" "c \<le> 24" and r2: "0 \<le> r2" "r2 \<le> 1460" "c = 24 \<longrightarrow> r2 = 1460 \<longrightarrow> r1 = 36524"
    using r1 unfolding c_def r2_def by linarith+
  define e r where "e = min 3 (r2 div 365)" and "r = r2 - 365 * e"
  have e: "0 \<le> e" "e \<le> 3" and r: "0 \<le> r" "r \<le> 365" "r = 365 \<longrightarrow> e = 3 \<and> r2 = 1460"
    using r2 unfolding e_def r_def by linarith+
  have eqs: "n div 146097 = a" "min 3 (n mod 146097 div 36524) = b" "(n mod 146097 - 36524 * b) div 1461 = c"
    "min 3 ((n mod 146097 - 36524 * b - 1461 * c) div 365) = e" "n mod 146097 - 36524 * b - 1461 * c - 365 * e = r"
    by (simp_all add: a_def b_def c_def e_def r_def r1_def r2_def)
  have last: "r = 365 \<longrightarrow> e = 3 \<and> (c = 24 \<longrightarrow> b = 3)" using r(3) r2(3) r1(3) by blast
  have sum: "n = 146097 * a + 36524 * b + 1461 * c + 365 * e + r" using n by (simp add: r_def r2_def)
  show thesis by (rule that [OF eqs b c e r(1,2) last sum])
qed

lemma sum_month_days: "sum_list (month_days y) = (if leap y then 366 else 365)" "length (month_days y) = 12"
  by (simp_all add: month_days_def)

lemma civil_spec:
  assumes "civil n = (y, m, d)"
  shows "1 \<le> m" and "m \<le> 12" and "1 \<le> d" and "d \<le> month_days y ! nat (m - 1)"
    and "days_before_year y + days_before_month y (nat m) + d - 1 = n"
proof -
  obtain a b c e r where k: "n div 146097 = a" "min 3 (n mod 146097 div 36524) = b" "(n mod 146097 - 36524 * b) div 1461 = c"
    "min 3 ((n mod 146097 - 36524 * b - 1461 * c) div 365) = e" "n mod 146097 - 36524 * b - 1461 * c - 365 * e = r"
    and bounds: "0 \<le> b" "b \<le> 3" "0 \<le> c" "c \<le> 24" "0 \<le> e" "e \<le> 3" "0 \<le> r" "r \<le> 365"
    and last: "r = 365 \<longrightarrow> e = 3 \<and> (c = 24 \<longrightarrow> b = 3)" and n: "n = 146097 * a + 36524 * b + 1461 * c + 365 * e + r"
    by (rule day_cycles [of n])
  obtain m' e' where mo: "month_of (month_days y) r = (m', e')" by fastforce
  have y: "y = 400 * a + 100 * b + 4 * c + e + 1" and md: "m = int m'" "d = e' + 1"
    using assms mo by (auto simp: civil_def Let_def k split: prod.splits)
  have div: "(y - 1) div 4 = 100 * a + 25 * b + c" "(y - 1) div 100 = 4 * a + b" "(y - 1) div 400 = a"
    using bounds unfolding y by linarith+
  have dby: "days_before_year y = 146097 * a + 36524 * b + 1461 * c + 365 * e"
    using div y by (simp add: days_before_year_def)
  have "r = 365 \<Longrightarrow> leap y"
  proof -
    assume "r = 365"
    with last have e: "e = 3" and cb: "c = 24 \<longrightarrow> b = 3" by simp_all
    have y4: "y = 4 * (100 * a + 25 * b + c + 1)" using y e by simp
    show "leap y"
    proof (cases "c = 24")
      case True
      with cb have "y = 400 * (a + 1)" using y e by simp
      then show ?thesis by (simp add: leap_def)
    next
      case False
      have "y = (4 * c + 4) + (4 * a + b) * 100" using y e by simp
      then have "y mod 100 = (4 * c + 4) mod 100" by (simp only: mod_mult_self1)
      also have "\<dots> = 4 * c + 4" using bounds False by (intro mod_pos_pos_trivial) linarith+
      finally have "y mod 100 \<noteq> 0" using bounds by linarith
      moreover have "y mod 4 = 0" using y4 by simp
      ultimately show ?thesis by (simp only: leap_def simp_thms)
    qed
  qed
  then have "r < sum_list (month_days y)" using bounds by (cases "r = 365") (auto simp: sum_month_days)
  from month_of_spec [OF mo bounds(7) this]
  have s: "1 \<le> m'" "m' \<le> 12" "0 \<le> e'" "e' < month_days y ! (m' - 1)" "sum_list (take (m' - 1) (month_days y)) + e' = r"
    by (simp_all add: sum_month_days)
  then show "1 \<le> m" "m \<le> 12" "1 \<le> d" by (simp_all add: md)
  have "nat (m - 1) = m' - 1" using s(1) md by simp
  with s show "d \<le> month_days y ! nat (m - 1)" by (simp add: md)
  show "days_before_year y + days_before_month y (nat m) + d - 1 = n"
    using s n dby by (simp add: md days_before_month_def)
qed

text \<open>Padded decimal fields.\<close>

lemma length_format_nat: "n < 10 ^ w \<Longrightarrow> 0 < w \<Longrightarrow> length (format_nat n) \<le> w"
proof (induction n arbitrary: w rule: format_nat.induct)
  case (1 n)
  show ?case
  proof (cases "n < 10")
    case True
    with 1(3) show ?thesis by (subst format_nat.simps) simp
  next
    case False
    obtain v where v: "w = Suc v" using 1(3) by (cases w) auto
    with False 1(2) have "v \<noteq> 0" by (cases v) simp_all
    with v have w: "w = Suc v" "0 < v" by simp_all
    have "n div 10 < 10 ^ v" using 1(2) w(1) by (simp add: less_mult_imp_div_less)
    from 1(1) [OF False this w(2)] False show ?thesis by (subst format_nat.simps) (simp add: w(1))
  qed
qed

lemma decimal_zeros: "decimal (replicate k (CHR ''0'') @ ds) = decimal ds"
proof -
  have "decimal_from 0 (replicate k (CHR ''0'')) = 0" by (induction k) (simp_all add: digit_value_def)
  then show ?thesis
    by (induction ds rule: rev_induct) (simp_all add: decimal_from_0 append_assoc [symmetric] del: append_assoc)
qed

lemma pad:
  assumes "0 \<le> n" and "n < 10 ^ w" and "0 < w"
  shows "length (pad w n) = w" "list_all is_digit (pad w n)" "int (decimal (pad w n)) = n"
proof -
  have "nat n < 10 ^ w" using assms(1,2) by (simp add: nat_less_iff)
  from length_format_nat [OF this assms(3)] show "length (pad w n) = w" by (simp add: pad_def Let_def)
  have "list_all is_digit (replicate k (CHR ''0''))" for k by (induction k) (simp_all add: is_digit_def)
  then show "list_all is_digit (pad w n)" by (simp add: pad_def Let_def format_nat_digits)
  show "int (decimal (pad w n)) = n" using assms(1) by (simp add: pad_def Let_def decimal_zeros)
qed

lemma dec_field_pad: "0 \<le> n \<Longrightarrow> n < 10 ^ w \<Longrightarrow> 0 < w \<Longrightarrow> lo \<le> n \<Longrightarrow> n \<le> hi \<Longrightarrow> dec_field (pad w n) lo hi = Some n"
  by (simp add: dec_field_def pad)

lemma pad2: "0 \<le> n \<Longrightarrow> n < 100 \<Longrightarrow> \<exists>a b. pad 2 n = [a, b]"
  using pad(1) [of n 2] by (auto simp: numeral_2_eq_2 length_Suc_conv)

lemma pad4: "0 \<le> n \<Longrightarrow> n < 10000 \<Longrightarrow> \<exists>a b c d. pad 4 n = [a, b, c, d]"
  using pad(1) [of n 4] by (auto simp: eval_nat_numeral length_Suc_conv)

lemma strip_zeros: "\<exists>k. s = rev (dropWhile (\<lambda>c. c = CHR ''0'') (rev s)) @ replicate k (CHR ''0'')"
proof -
  have "takeWhile (\<lambda>c. c = CHR ''0'') t = replicate (length (takeWhile (\<lambda>c. c = CHR ''0'') t)) (CHR ''0'')" for t
    by (induction t) auto
  then show ?thesis by (metis rev_append rev_replicate rev_rev_ident takeWhile_dropWhile_id)
qed

lemma format_frac_parses:
  assumes "0 \<le> ns" and "ns < 1000000000" and z: "z \<noteq> []" "\<not> is_digit (hd z)" "hd z \<noteq> CHR ''.''"
    and fr: "fr = (if take 1 (format_frac ns @ z) = ''.'' then takeWhile is_digit (drop 1 (format_frac ns @ z)) else [])"
  shows "frac_ns fr = ns" and "(if fr = [] then format_frac ns @ z else drop (Suc (length fr)) (format_frac ns @ z)) = z"
proof -
  define ds where "ds = rev (dropWhile (\<lambda>c. c = CHR ''0'') (rev (pad 9 ns)))"
  have p: "length (pad 9 ns) = 9" "list_all is_digit (pad 9 ns)" "int (decimal (pad 9 ns)) = ns" using assms(1,2) by (simp_all add: pad)
  obtain k where k: "pad 9 ns = ds @ replicate k (CHR ''0'')" using strip_zeros [of "pad 9 ns"] unfolding ds_def by blast
  have len: "length ds + k = 9" using p(1) k by simp
  have "list_all is_digit ds" using p(2) k by simp
  then have tw: "takeWhile is_digit (ds @ z) = ds" using z(1,2) by (cases z) (auto simp: list_all_iff)
  have "take 9 (ds @ replicate 9 (CHR ''0'')) = ds @ replicate k (CHR ''0'')"
    using len by simp
  then have ns: "frac_ns ds = ns" using p(3) k by (simp add: frac_ns_def)
  have f: "format_frac ns = (if ds = [] then [] else CHR ''.'' # ds)" by (simp add: format_frac_def ds_def Let_def)
  have "take 1 z \<noteq> ''.''" using z(1,3) by (cases z) auto
  then have "fr = ds" using fr tw by (auto simp: f)
  with ns f show "frac_ns fr = ns" "(if fr = [] then format_frac ns @ z else drop (Suc (length fr)) (format_frac ns @ z)) = z" by auto
qed

lemma format_zone_parses:
  assumes "\<bar>off\<bar> < 86400" and "off mod 60 = 0"
  shows "parse_zone (format_zone off) = Some off" and "format_zone off \<noteq> []"
    and "\<not> is_digit (hd (format_zone off))" and "hd (format_zone off) \<noteq> CHR ''.''"
proof -
  define m where "m = \<bar>off\<bar> div 60"
  obtain q where q: "off = 60 * q" using assms(2) by (auto simp: mod_eq_0_iff_dvd dvd_def)
  then have "m = \<bar>q\<bar>" by (simp add: m_def abs_mult)
  with q assms(1) have m: "\<bar>off\<bar> = m * 60" "0 \<le> m" "m < 1440" by (simp_all add: abs_mult)
  then have h: "0 \<le> m div 60" "m div 60 \<le> 23" and mi: "0 \<le> m mod 60" "m mod 60 \<le> 59" by simp_all
  obtain a b where ab: "pad 2 (m div 60) = [a, b]" using pad2 [of "m div 60"] h by auto
  obtain c d where cd: "pad 2 (m mod 60) = [c, d]" using pad2 [of "m mod 60"] mi by auto
  have fields: "dec_field [a, b] 0 23 = Some (m div 60)" "dec_field [c, d] 0 59 = Some (m mod 60)"
    using dec_field_pad [of "m div 60" 2 0 23] dec_field_pad [of "m mod 60" 2 0 59] h mi ab cd by simp_all
  have total: "m div 60 * 3600 + m mod 60 * 60 = \<bar>off\<bar>" using m(1) div_mult_mod_eq [of m 60] by linarith
  have "parse_zone [sg, a, b, CHR '':'', c, d] = Some ((if sg = CHR ''-'' then -1 else 1) * \<bar>off\<bar>)"
    if "sg = CHR ''+'' \<or> sg = CHR ''-''" for sg
    using that fields total by (auto simp: parse_zone_def nth_Cons')
  moreover have "format_zone off = [if off < 0 then CHR ''-'' else CHR ''+'', a, b, CHR '':'', c, d]" if "off \<noteq> 0"
    using that ab cd by (simp add: format_zone_def Let_def m_def [symmetric])
  moreover have "parse_zone (format_zone 0) = Some 0" by (simp add: parse_zone_def format_zone_def)
  ultimately show "parse_zone (format_zone off) = Some off" by (cases "off = 0") simp_all
  show "format_zone off \<noteq> []" "\<not> is_digit (hd (format_zone off))" "hd (format_zone off) \<noteq> CHR ''.''"
    by (auto simp: format_zone_def Let_def is_digit_def)
qed

lemma parse_rfc3339_shape:
  assumes "dec_field [y1, y2, y3, y4] 0 9999 = Some y" "dec_field [m1, m2] 1 12 = Some mo"
    "dec_field [d1, d2] 1 (month_days y ! nat (mo - 1)) = Some d" "dec_field [h1, h2] 0 23 = Some h"
    "dec_field [i1, i2] 0 59 = Some mi" "dec_field [s1, s2] 0 59 = Some se"
    and "fr = (if take 1 r = ''.'' then takeWhile is_digit (drop 1 r) else [])"
    and "parse_zone (if fr = [] then r else drop (Suc (length fr)) r) = Some off"
  shows "parse_rfc3339 (y1 # y2 # y3 # y4 # CHR ''-'' # m1 # m2 # CHR ''-'' # d1 # d2 # CHR ''T'' # h1 # h2 # CHR '':''
      # i1 # i2 # CHR '':'' # s1 # s2 # r) =
    Some \<lparr>ns_since_zero = ((days_before_year y + days_before_month y (nat mo) + d - 1) * 86400
       + h * 3600 + mi * 60 + se - off) * 1000000000 + frac_ns fr, zone_offset = off\<rparr>"
proof -
  let ?s = "y1 # y2 # y3 # y4 # CHR ''-'' # m1 # m2 # CHR ''-'' # d1 # d2 # CHR ''T'' # h1 # h2 # CHR '':''
      # i1 # i2 # CHR '':'' # s1 # s2 # r"
  have s: "\<not> (length ?s < 19 \<or> ?s ! 4 \<noteq> CHR ''-'' \<or> ?s ! 7 \<noteq> CHR ''-'' \<or> ?s ! 10 \<noteq> CHR ''T''
      \<or> ?s ! 13 \<noteq> CHR '':'' \<or> ?s ! 16 \<noteq> CHR '':'')"
    "take 4 ?s = [y1, y2, y3, y4]" "take 2 (drop 5 ?s) = [m1, m2]" "take 2 (drop 8 ?s) = [d1, d2]"
    "take 2 (drop 11 ?s) = [h1, h2]" "take 2 (drop 14 ?s) = [i1, i2]" "take 2 (drop 17 ?s) = [s1, s2]" "drop 19 ?s = r"
    by simp_all
  show ?thesis
    unfolding parse_rfc3339_def s assms(1-6)
    by (simp only: s(1) assms(3) if_False option.case prod.case Let_def assms(7) [symmetric] assms(8))
qed

lemma parse_format_rfc3339:
  assumes "Marshal_time t = Inr s" and "zone_offset t mod 60 = 0"
  shows "s = CHR 0x22 # format_rfc3339 t @ [CHR 0x22]" and "parse_rfc3339 (format_rfc3339 t) = Some t"
proof -
  define off loc where "off = zone_offset t" and "loc = ns_since_zero t + off * 1000000000"
  define secs days tod where "secs = loc div 1000000000" and "days = secs div 86400" and "tod = secs mod 86400"
  define h mi se ns where "h = tod div 3600" and "mi = tod div 60 mod 60" and "se = tod mod 60" and "ns = loc mod 1000000000"
  obtain y mo d where civ: "civil days = (y, mo, d)" by (cases "civil days")
  have "loc div 86400000000000 = days" by (simp add: days_def secs_def zdiv_zmult2_eq [symmetric])
  with assms(1) civ have y: "0 \<le> y" "y \<le> 9999" and off: "\<bar>off\<bar> < 86400"
    and s: "s = CHR 0x22 # format_rfc3339 t @ [CHR 0x22]"
    by (auto simp: Marshal_time_def off_def [symmetric] loc_def [symmetric] Let_def split: if_splits)
  from s show "s = CHR 0x22 # format_rfc3339 t @ [CHR 0x22]" .
  note cs = civil_spec [OF civ]
  have "month_days y ! nat (mo - 1) \<in> set (month_days y)" using cs(1,2) by (intro nth_mem) (simp add: sum_month_days)
  then have d: "d \<le> 31" using cs(4) by (auto simp: month_days_def split: if_splits)
  have tod: "0 \<le> tod" "tod < 86400" by (simp_all add: tod_def)
  then have hms: "0 \<le> h" "h \<le> 23" "0 \<le> mi" "mi \<le> 59" "0 \<le> se" "se \<le> 59" and sum: "h * 3600 + mi * 60 + se = tod"
  proof -
    have "h = tod div 60 div 60" by (simp add: h_def zdiv_zmult2_eq [symmetric])
    moreover have "tod div 60 div 60 * 60 + tod div 60 mod 60 = tod div 60" "tod div 60 * 60 + tod mod 60 = tod" by simp_all
    ultimately show "h * 3600 + mi * 60 + se = tod" unfolding mi_def se_def by linarith
    show "0 \<le> h" "h \<le> 23" "0 \<le> mi" "mi \<le> 59" "0 \<le> se" "se \<le> 59"
      using tod by (simp_all add: h_def mi_def se_def pos_imp_zdiv_nonneg_iff)
  qed
  have ns: "0 \<le> ns" "ns < 1000000000" by (simp_all add: ns_def)
  obtain y1 y2 y3 y4 where Y: "pad 4 y = [y1, y2, y3, y4]" using pad4 [of y] y by auto
  obtain m1 m2 where M: "pad 2 mo = [m1, m2]" using pad2 [of mo] cs(1,2) by auto
  obtain d1 d2 where D: "pad 2 d = [d1, d2]" using pad2 [of d] cs(3) d by auto
  obtain h1 h2 where H: "pad 2 h = [h1, h2]" using pad2 [of h] hms by auto
  obtain i1 i2 where I: "pad 2 mi = [i1, i2]" using pad2 [of mi] hms by auto
  obtain s1 s2 where S: "pad 2 se = [s1, s2]" using pad2 [of se] hms by auto
  have fields: "dec_field [y1, y2, y3, y4] 0 9999 = Some y" "dec_field [m1, m2] 1 12 = Some mo"
    "dec_field [d1, d2] 1 (month_days y ! nat (mo - 1)) = Some d" "dec_field [h1, h2] 0 23 = Some h"
    "dec_field [i1, i2] 0 59 = Some mi" "dec_field [s1, s2] 0 59 = Some se"
    using dec_field_pad [of y 4 0 9999] dec_field_pad [of mo 2 1 12] dec_field_pad [of d 2 1 "month_days y ! nat (mo - 1)"]
      dec_field_pad [of h 2 0 23] dec_field_pad [of mi 2 0 59] dec_field_pad [of se 2 0 59] y cs(1-4) d hms Y M D H I S
    by simp_all
  let ?z = "format_zone off" and ?r = "format_frac ns @ format_zone off"
  have shown: "format_rfc3339 t = y1 # y2 # y3 # y4 # CHR ''-'' # m1 # m2 # CHR ''-'' # d1 # d2 # CHR ''T'' # h1 # h2 # CHR '':''
      # i1 # i2 # CHR '':'' # s1 # s2 # ?r"
    by (simp add: format_rfc3339_def Let_def off_def [symmetric] loc_def [symmetric] secs_def [symmetric] days_def [symmetric]
        tod_def [symmetric] h_def [symmetric] mi_def [symmetric] se_def [symmetric] ns_def [symmetric] civ Y M D H I S)
  note z = format_zone_parses [OF off assms(2) [folded off_def]]
  define fr where "fr = (if take 1 ?r = ''.'' then takeWhile is_digit (drop 1 ?r) else [])"
  note f = format_frac_parses [OF ns z(2-4) fr_def]
  have total: "((days_before_year y + days_before_month y (nat mo) + d - 1) * 86400 + h * 3600 + mi * 60 + se - off) * 1000000000 + ns
      = ns_since_zero t"
  proof -
    have "days * 86400 + tod = secs" "secs * 1000000000 + ns = loc" by (simp_all add: days_def tod_def secs_def ns_def)
    with sum cs(5) show ?thesis by (simp add: loc_def algebra_simps)
  qed
  have "parse_zone (if fr = [] then ?r else drop (Suc (length fr)) ?r) = Some off" by (simp only: f(2) z(1))
  from parse_rfc3339_shape [OF fields fr_def this]
  have "parse_rfc3339 (format_rfc3339 t) = Some \<lparr>ns_since_zero = ns_since_zero t, zone_offset = off\<rparr>"
    unfolding shown f(1) total .
  then show "parse_rfc3339 (format_rfc3339 t) = Some t" by (simp add: off_def)
qed

end
