(* ===== verification/Json_Roundtrip.thy ===== *)
theory Json_Roundtrip
  imports Json_Syntax Json_Time
begin

text \<open>
  What \<open>json.Unmarshal\<close> makes of an envelope \<open>json.Marshal\<close> wrote.
\<close>

section \<open>Encoded times and envelopes\<close>

definition plain :: "char \<Rightarrow> bool" where
  "plain c \<longleftrightarrow> c \<noteq> CHR 0x22 \<and> c \<noteq> CHR 0x5C \<and> 32 \<le> ord c"

lemma scans_plain: "list_all plain x \<Longrightarrow> scans x"
proof (induction x)
  case (Cons c x)
  then have "scans [c]" "scans x" by (auto simp: plain_def intro: scans_char)
  then show ?case using scans_append [of "[c]" x] by simp
qed simp

lemma plain_digits: "list_all is_digit s \<Longrightarrow> list_all plain s"
  by (auto simp: list_all_iff plain_def is_digit_def)

lemma plain_pad: "list_all plain (pad w n)"
proof -
  have "list_all is_digit (replicate k (CHR ''0''))" for k by (induction k) (simp_all add: is_digit_def)
  then show ?thesis by (intro plain_digits) (simp add: pad_def Let_def format_nat_digits)
qed

lemma plain_format_rfc3339: "list_all plain (format_rfc3339 t)"
proof -
  have "list_all plain (format_frac ns)" for ns
    using plain_pad [of 9 ns]
    by (auto simp: format_frac_def Let_def list_all_iff dest!: set_dropWhileD) (simp_all add: plain_def)
  moreover have "list_all plain (format_zone off)" for off
    by (simp add: format_zone_def Let_def plain_pad) (simp add: plain_def)
  ultimately show ?thesis
    by (simp add: format_rfc3339_def Let_def plain_pad split: prod.split) (simp add: plain_def)
qed

lemma value_ok_quoted:
  assumes "scans x"
  shows "value_ok (CHR 0x22 # x @ [CHR 0x22])"
proof -
  have "scan_str (x @ [CHR 0x22]) = Some (x, [])" using assms by (simp add: scans_def)
  then show ?thesis by (simp add: value_ok_def not_ws)
qed

lemma time_decodes:
  assumes "Marshal_time t = Inr s" and "zone_offset t mod 60 = 0"
  shows "value_ok s" and "decode_time s old = Inr t"
  using value_ok_quoted [OF scans_plain [OF plain_format_rfc3339], of t] parse_format_rfc3339 [OF assms]
  by (simp_all add: decode_time_def)

lemma decode_Marshal_string: "decode_string (Marshal_string s) old = Inr (to_valid s)"
  using value_Marshal_string [of s] by (simp add: decode_string_def)

text \<open>The names in \<open>json\<close> tags are ASCII.\<close>

lemma find_name_own: "k \<in> set names \<Longrightarrow> find_name names k = Some k"
  by (simp add: find_name_def)

lemma to_valid_ascii: "list_all (\<lambda>c. ord c < 128) k \<Longrightarrow> to_valid k = k"
  by (simp add: to_valid_id ascii_utf8)

lemma Unmarshal_object:
  assumes "ms \<noteq> []" and "\<And>k v. (k, v) \<in> set ms \<Longrightarrow> value_ok v"
    and "\<And>k v. (k, v) \<in> set ms \<Longrightarrow> list_all (\<lambda>c. ord c < 128) k"
  shows "Unmarshal_struct names set_one zero (Marshal_object ms) = set_members names set_one ms zero"
proof -
  note d = Marshal_object_decodes [OF assms(1,2)]
  have "\<not> HasPrefix (Marshal_object ms) ''null''" by (simp add: Marshal_object_def HasPrefix_def)
  moreover have "map (\<lambda>(k, v). (to_valid k, v)) ms = ms" using assms(3) to_valid_ascii by (intro map_idI) fastforce
  ultimately show ?thesis using d by (simp add: Unmarshal_struct_def Let_def)
qed

text \<open>What a reader makes of an envelope: the same fields, the payload as encoded.\<close>

definition as_read :: "bytes \<Rightarrow> 'p Envelope \<Rightarrow> bytes Envelope" where
  "as_read p e =
     \<lparr>ev_EventID = to_valid (ev_EventID e), ev_EventType = to_valid (ev_EventType e), ev_Timestamp = ev_Timestamp e,
      ev_SchemaVersion = to_valid (ev_SchemaVersion e), ev_CorrelationID = to_valid (ev_CorrelationID e),
      ev_Source = to_valid (ev_Source e), ev_Payload = p\<rparr>"

lemma Unmarshal_Marshal_envelope:
  assumes m: "Marshal_envelope (Inr p) e = Inr body" and z: "zone_offset (ev_Timestamp e) mod 60 = 0" and p: "value_ok p"
  shows "Unmarshal_envelope body = Inr (as_read p e)" and "Valid body"
proof -
  obtain ts where ts: "Marshal_time (ev_Timestamp e) = Inr ts" using m by (auto simp: Marshal_envelope_def split: sum.splits)
  let ?ms = "[(''event_id'', Marshal_string (ev_EventID e)), (''event_type'', Marshal_string (ev_EventType e)), (''timestamp'', ts),
      (''schema_version'', Marshal_string (ev_SchemaVersion e)), (''correlation_id'', Marshal_string (ev_CorrelationID e)),
      (''source'', Marshal_string (ev_Source e)), (''payload'', p)]"
  have body: "body = Marshal_object ?ms" using m ts by (simp add: Marshal_envelope_def)
  have ok: "value_ok v" if "(k, v) \<in> set ?ms" for k v
    using that time_decodes(1) [OF ts z] p value_ok_string by auto
  show "Valid body" unfolding body by (rule Marshal_object_decodes(1)) (simp, rule ok)
  have "Unmarshal_envelope body = set_members envelope_fields set_field ?ms zero_envelope"
    unfolding body Unmarshal_envelope_def by (intro Unmarshal_object ok) auto
  also have "\<dots> = Inr (as_read p e)"
    by (simp add: find_name_own envelope_fields_def set_field_def decode_Marshal_string time_decodes(2) [OF ts z] zero_envelope_def as_read_def)
  finally show "Unmarshal_envelope body = Inr (as_read p e)" .
qed

end
