(* ===== verification/Messagingtest_Publisher.thy ===== *)
theory Messagingtest_Publisher
  imports Messagingtest Json_Roundtrip Run
begin

text \<open>
  \<open>testing/publisher.go\<close>: the publisher that records instead of publishing, and the round trip of a
  published event through the wire form.
\<close>

section \<open>The recording publisher\<close>

text \<open>
  The recorder behind \<open>messagingtest.Publisher\<close>, a component of the outside state. \<open>tp_ctxPayload\<close> is
  the value \<open>Publish\<close> puts on the context of its call for \<open>record\<close> to read.
\<close>

record 'p recorder =
  tp_events :: "'p Event list"
  tp_failErr :: "goerr option"
  tp_ctxPayload :: "'p option"

type_synonym ('p, 'v) studio = "'p recorder \<times> 'v"

record ('p, 'v) Publisher =
  tp_real :: "('p, 'v) studio publisher"
  tp_prefix :: string

definition record_publish :: "string \<Rightarrow> ('p, 'v) studio stream_publisher" where
  "record_publish prefix ctx stream i body md w =
     (case tp_failErr (fst w) of
        Some e \<Rightarrow> (Some e, w)
      | None \<Rightarrow>
          (case Unmarshal_envelope body of
             Inl err \<Rightarrow> (Some (WrapError [Lit ''messagingtest: decoding recorded envelope: ''] err), w)
           | Inr env \<Rightarrow>
               (None, ((fst w)\<lparr>tp_events := tp_events (fst w) @
                         [\<lparr>te_Topic = TrimPrefix stream (prefix @ '':''), te_Envelope = env,
                           te_Payload = tp_ctxPayload (fst w)\<rparr>]\<rparr>, snd w))))"

text \<open>The options are the arguments of the \<open>WithPublisherSource\<close> values passed, in order.\<close>

definition test_NewPublisher ::
    "(collaborator \<Rightarrow> meter) \<Rightarrow> int \<Rightarrow> (ClientOptions \<Rightarrow> goerr + ('p, 'v) studio wm_publish) \<Rightarrow> string list
     \<Rightarrow> ('p, 'v) studio world \<Rightarrow> (goerr + ('p, 'v) Publisher) \<times> ('p, 'v) studio world" where
  "test_NewPublisher meter_of gomaxprocs new_wm sources w =
     (case NewRecordingPublisher meter_of gomaxprocs new_wm (fold (\<lambda>s _. s) sources defaultSource) defaultStreamPrefix
             (record_publish defaultStreamPrefix) w of
        (Inl err, w) \<Rightarrow> (Inl (WrapError [Lit ''messagingtest: building recording publisher: ''] err), w)
      | (Inr p, w) \<Rightarrow> (Inr \<lparr>tp_real = p, tp_prefix = defaultStreamPrefix\<rparr>, w))"

definition test_Publish ::
    "('p, 'v) studio runtime \<Rightarrow> ('p, 'v) Publisher \<Rightarrow> ('p, 'v) studio ctx \<Rightarrow> EventDef \<Rightarrow> 'p \<Rightarrow> goerr + string
     \<Rightarrow> string list \<Rightarrow> ('p, 'v) studio world \<Rightarrow> (goerr + PublishResult) \<times> ('p, 'v) studio world" where
  "test_Publish rt tp ctx def payload encoded opts w =
     Publish rt (tp_real tp) ctx def payload encoded opts
       (w\<lparr>outside := ((fst (outside w))\<lparr>tp_ctxPayload := Some payload\<rparr>, snd (outside w))\<rparr>)"

definition Published_events :: "('p, 'v) studio world \<Rightarrow> 'p Event list" where
  "Published_events w = tp_events (fst (outside w))"

definition Reset :: "('p, 'v) studio world \<Rightarrow> ('p, 'v) studio world" where
  "Reset w = w\<lparr>outside := ((fst (outside w))\<lparr>tp_events := []\<rparr>, snd (outside w))\<rparr>"

definition FailWith :: "goerr option \<Rightarrow> ('p, 'v) studio world \<Rightarrow> ('p, 'v) studio world" where
  "FailWith err w = w\<lparr>outside := ((fst (outside w))\<lparr>tp_failErr := err\<rparr>, snd (outside w))\<rparr>"

definition test_Close ::
    "(ClientOptions \<Rightarrow> ('p, 'v) studio \<Rightarrow> goerr option \<times> ('p, 'v) studio) \<Rightarrow> ('p, 'v) Publisher \<Rightarrow> ('p, 'v) studio
     \<Rightarrow> goerr option \<times> ('p, 'v) studio" where
  "test_Close close_wm tp w = Publisher_Close close_wm (tp_real tp) w"

lemma test_NewPublisher_ok:
  assumes "test_NewPublisher meter_of g new_wm sources w = (Inr tp, w')"
  shows "cfg_StreamPrefix (pb_cfg (tp_real tp)) = ''foi'' \<and> pb_publishFn (tp_real tp) = record_publish ''foi''"
  using assms
  by (auto simp: test_NewPublisher_def NewRecordingPublisher_def NewPublisher_def wm_NewPublisher_def recording_config_def Validate_def
      defaultStreamPrefix_def Let_def split: prod.splits sum.splits if_splits)

lemma test_NewPublisher_empty_source:
  "fst (test_NewPublisher meter_of g new_wm [[]] w) =
     Inl (WrapError [Lit ''messagingtest: building recording publisher: ''] (WrapError [Lit ''building recording publisher: '']
       (WrapError [Lit ''invalid config: ''] (cfg_error ''config: Source is required''))))"
  by (simp add: test_NewPublisher_def NewRecordingPublisher_def NewPublisher_def wm_NewPublisher_def recording_config_def Validate_def)

text \<open>The clock, the ids and the tracer leave the recorder alone.\<close>

definition recorder_untouched :: "('p, 'v) studio runtime \<Rightarrow> bool" where
  "recorder_untouched rt \<longleftrightarrow>
     (\<forall>w. fst (snd (os_now rt w)) = fst w) \<and> (\<forall>w. fst (snd (os_uuid rt w)) = fst w)
     \<and> (\<forall>t w. fst (snd (otel_start rt t w)) = fst w)"

lemma out_recorder: "out f w = (a, w') \<Longrightarrow> (\<And>x. fst (snd (f x)) = fst x) \<Longrightarrow> fst (outside w') = fst (outside w)"
  by (metis out_calls [where calls = fst])

lemma recorder_kept:
  assumes "recorder_untouched rt"
  shows "out (os_now rt) w = (n, w') \<Longrightarrow> fst (outside w') = fst (outside w)"
    and "out (os_uuid rt) w = (u, w') \<Longrightarrow> fst (outside w') = fst (outside w)"
    and "out (otel_start rt t) w = (s, w') \<Longrightarrow> fst (outside w') = fst (outside w)"
  by (erule out_recorder, use assms in \<open>simp only: recorder_untouched_def\<close>)+

lemma Publish_recorded:
  assumes "Publish rt p ctx def payload encoded opts w = (Inr res, w')" and "def_Topic def \<noteq> []"
    and "recorder_untouched rt" and "cfg_StreamPrefix (pb_cfg p) = ''foi''"
  obtains ctx' at v where "publish_envelope rt p ctx' def (''foi:'' @ def_Topic def) at payload encoded
      (apply_options opts) v = (Inr res, w')" "fst (outside v) = fst (outside w)"
proof -
  obtain started v where s: "out (otel_start rt (ctx_trace ctx)) w = (started, v)" by fastforce
  have "fst (outside v) = fst (outside w)" by (rule recorder_kept(3) [OF assms(3) s])
  then show thesis using assms(1,2,4) s by (auto simp: Publish_def Let_def intro: that)
qed

lemma resolveCorrelationID_recorded:
  "resolveCorrelationID rt ctx opt w = (res, w') \<Longrightarrow> recorder_untouched rt \<Longrightarrow> fst (outside w') = fst (outside w)"
  by (auto simp: resolveCorrelationID_def split: if_splits option.splits prod.splits sum.splits dest: recorder_kept(2))

lemma publish_envelope_recorded:
  assumes "publish_envelope rt p ctx def stream at payload encoded opt w = (Inr res, w')" and quiet: "recorder_untouched rt"
  obtains env body v where "validateEnvelope env = None" "Marshal_envelope encoded env = Inr body"
    "ev_EventType env = def_Type def" "ev_SchemaVersion env = def_Version def" "ev_Source env = cfg_Source (pb_cfg p)"
    "ev_Payload env = payload" "zone_offset (ev_Timestamp env) = 0"
    "publish_transport rt p ctx stream at env body v = (Inr res, w')" "fst (outside v) = fst (outside w)"
proof -
  obtain cor w1 where c: "resolveCorrelationID rt ctx opt w = (Inr cor, w1)"
    using assms(1) by (auto simp: publish_envelope_def publish_fail_def Let_def split: sum.splits prod.splits)
  obtain uuid w2 where u: "out (os_uuid rt) w1 = (uuid, w2)" by fastforce
  obtain now w3 where n: "(if isl uuid then (zero_time, w2) else out (os_now rt) w2) = (now, w3)" by fastforce
  from assms(1) obtain env where e: "newEnvelope uuid now def (cfg_Source (pb_cfg p)) cor payload = Inr env" "validateEnvelope env = None"
    and body: "\<exists>body. Marshal_envelope encoded env = Inr body \<and> publish_transport rt p ctx stream at env body
       (span_op (SpanSetAttributes [(''messaging.message.id'', AStr (ev_EventID env)),
                    (''messaging.foi.correlation_id'', AStr (ev_CorrelationID env))]) w3) = (Inr res, w')"
    by (auto simp: publish_envelope_def publish_fail_def c u n Let_def split: sum.splits option.splits)
  have "fst (outside w3) = fst (outside w2)"
    using n recorder_kept(1) [OF quiet] by (auto split: if_splits)
  moreover have "fst (outside w2) = fst (outside w1)" by (rule recorder_kept(2) [OF quiet u])
  moreover have "zone_offset (ev_Timestamp env) = 0" using e(1) by (auto simp: newEnvelope_def UTC_def split: sum.splits)
  ultimately show thesis
    using that body e(2) newEnvelope_fields [OF e(1)] resolveCorrelationID_recorded [OF c quiet] by fastforce
qed

lemma publish_transport_recorded:
  assumes "publish_transport rt p ctx stream at env body w = (Inr res, w')" and "pb_publishFn p = f"
    and quiet: "recorder_untouched rt"
  obtains cx i md v where "f cx stream i body md v = (None, outside w')" "fst v = fst (outside w)"
    "ev_EventID env = pr_EventID res" "ev_Timestamp env = pr_Timestamp res"
proof -
  obtain now w1 where n: "out (os_now rt) w = (now, w1)" by fastforce
  have "fst (outside w1) = fst (outside w)" by (rule recorder_kept(1) [OF quiet n])
  then show thesis
    using assms(1,2) n that
    by (auto simp: publish_transport_def publish_fail_def out_def Let_def split: option.splits prod.splits)
qed

text \<open>
  C18. What a service publishes under test is what it would have written, read back. A successful
  \<open>Publish\<close> on the recording publisher appends exactly one event: on the definition's topic, with the
  payload value given, and with the envelope a reader decodes from the written bytes, which is the
  valid envelope built for that definition, source and payload, under the id and time returned.
\<close>

theorem recorded_publish_roundtrip:
  assumes "test_NewPublisher meter_of g new_wm sources w0 = (Inr tp, w1)"
    and "test_Publish rt tp ctx def payload (Inr p) opts w = (Inr res, w')"
    and "value_ok p" and "recorder_untouched rt"
  shows "\<exists>env. Published_events w' = Published_events w @
       [\<lparr>te_Topic = def_Topic def, te_Envelope = as_read p env, te_Payload = Some payload\<rparr>]
     \<and> validateEnvelope env = None \<and> ev_EventID env = pr_EventID res \<and> ev_Timestamp env = pr_Timestamp res
     \<and> ev_EventType env = def_Type def \<and> ev_SchemaVersion env = def_Version def
     \<and> ev_Source env = cfg_Source (pb_cfg (tp_real tp)) \<and> ev_Payload env = payload"
proof -
  note tp = test_NewPublisher_ok [OF assms(1)]
  define v where "v = w\<lparr>outside := ((fst (outside w))\<lparr>tp_ctxPayload := Some payload\<rparr>, snd (outside w))\<rparr>"
  have pub: "Publish rt (tp_real tp) ctx def payload (Inr p) opts v = (Inr res, w')"
    using assms(2) by (simp add: test_Publish_def v_def)
  then have "def_Topic def \<noteq> []" by (auto simp: Publish_def)
  with pub obtain ctx' at v1 where pe: "publish_envelope rt (tp_real tp) ctx' def (''foi:'' @ def_Topic def) at payload (Inr p)
      (apply_options opts) v1 = (Inr res, w')" and v1: "fst (outside v1) = fst (outside v)"
    by (rule Publish_recorded [OF _ _ assms(4)]) (simp add: tp)
  from pe obtain env body v2 where env: "validateEnvelope env = None" "Marshal_envelope (Inr p) env = Inr body"
      "ev_EventType env = def_Type def" "ev_SchemaVersion env = def_Version def"
      "ev_Source env = cfg_Source (pb_cfg (tp_real tp))" "ev_Payload env = payload" "zone_offset (ev_Timestamp env) = 0"
    and pt: "publish_transport rt (tp_real tp) ctx' (''foi:'' @ def_Topic def) at env body v2 = (Inr res, w')"
    and v2: "fst (outside v2) = fst (outside v1)"
    by (rule publish_envelope_recorded [OF _ assms(4)])
  from pt obtain cx i md v3 where rec: "record_publish ''foi'' cx (''foi:'' @ def_Topic def) i body md v3 = (None, outside w')"
    and v3: "fst v3 = fst (outside v2)" and res: "ev_EventID env = pr_EventID res" "ev_Timestamp env = pr_Timestamp res"
    by (rule publish_transport_recorded [OF _ _ assms(4)]) (simp add: tp)
  have "Unmarshal_envelope body = Inr (as_read p env)"
    by (rule Unmarshal_Marshal_envelope(1) [OF env(2) _ assms(3)]) (simp add: env(7))
  with rec have "tp_events (fst (outside w')) = tp_events (fst v3) @
      [\<lparr>te_Topic = def_Topic def, te_Envelope = as_read p env, te_Payload = tp_ctxPayload (fst v3)\<rparr>]"
    by (auto simp: record_publish_def TrimPrefix_def HasPrefix_def dest!: sym [of _ "outside w'"] split: option.splits)
  moreover have "fst v3 = (fst (outside w))\<lparr>tp_ctxPayload := Some payload\<rparr>" by (simp add: v1 v2 v3 v_def)
  ultimately show ?thesis using env res by (intro exI [of _ env]) (simp add: Published_events_def)
qed

definition quiet_studio :: "(unit, nat) studio world" where
  "quiet_studio = start_world (\<lparr>tp_events = [], tp_failErr = None, tp_ctxPayload = None\<rparr>, 0)"

definition accepting_wm :: "ClientOptions \<Rightarrow> goerr + (unit, nat) studio wm_publish" where
  "accepting_wm opts = Inr (\<lambda>ctx topic msg w. (None, w))"

definition published_envelope :: "unit Envelope" where
  "published_envelope =
     \<lparr>ev_EventID = ''0197-id'', ev_EventType = ''a.b'', ev_Timestamp = \<lparr>ns_since_zero = 63900000000000000000, zone_offset = 0\<rparr>,
      ev_SchemaVersion = ''1.0.0'', ev_CorrelationID = ''0197-id'', ev_Source = ''messagingtest'', ev_Payload = ()\<rparr>"

lemma published_envelope_ok: "validateEnvelope published_envelope = None"
proof -
  have "event_type_ok ''a.b'' \<and> version_ok ''1.0.0''"
    using sample_def_ok(1) by (simp add: validateEventDef_None sample_def_def)
  then show ?thesis by (simp add: validateEnvelope_None envelope_ok_def published_envelope_def IsZero_def)
qed

lemma value_ok_1: "value_ok ''1''"
  by code_simp

lemma published_envelope_marshals: "\<exists>body. Marshal_envelope (Inr ''1'') published_envelope = Inr body"
proof -
  have "isl (Marshal_envelope (Inr ''1'') published_envelope) = False" by code_simp
  then show ?thesis by (cases "Marshal_envelope (Inr ''1'') published_envelope") auto
qed

lemma test_NewPublisher_default:
  "\<exists>tp w1. test_NewPublisher (\<lambda>c i u. None) 8 accepting_wm [] w = (Inr tp, w1) \<and> outside w1 = outside w
     \<and> cfg_Source (pb_cfg (tp_real tp)) = ''messagingtest''"
  by (simp add: test_NewPublisher_def NewRecordingPublisher_def NewPublisher_def wm_NewPublisher_def recording_config_def Validate_def
      accepting_wm_def defaultSource_def Let_def newInstruments_outside split: prod.split)

theorem recorded_publish_roundtrip_witness:
  "\<exists>tp w1 res w' (env :: unit Envelope). test_NewPublisher (\<lambda>c i u. None) 8 accepting_wm [] quiet_studio = (Inr tp, w1)
     \<and> test_Publish sample_runtime tp sample_context sample_def () (Inr ''1'') [] w1 = (Inr res, w')
     \<and> Published_events w' = Published_events w1 @ [\<lparr>te_Topic = ''t'', te_Envelope = as_read ''1'' env, te_Payload = Some ()\<rparr>]
     \<and> validateEnvelope env = None"
proof -
  obtain tp w1 where n: "test_NewPublisher (\<lambda>c i u. None) 8 accepting_wm [] quiet_studio = (Inr tp, w1)"
    and o: "outside w1 = outside quiet_studio" and src: "cfg_Source (pb_cfg (tp_real tp)) = ''messagingtest''"
    using test_NewPublisher_default by blast
  note tp = test_NewPublisher_ok [OF n]
  obtain body where body: "Marshal_envelope (Inr ''1'') published_envelope = Inr body" using published_envelope_marshals by blast
  have read: "Unmarshal_envelope body = Inr (as_read ''1'' published_envelope)"
    by (rule Unmarshal_Marshal_envelope(1) [OF body _ value_ok_1]) (simp add: published_envelope_def)
  obtain res w' where p: "test_Publish sample_runtime tp sample_context sample_def () (Inr ''1'') [] w1 = (Inr res, w')"
    using published_envelope_ok body read
    by (auto simp: test_Publish_def Publish_def publish_envelope_def resolveCorrelationID_def publish_transport_def
        sample_context_def correlationIDFromContext_def apply_options_def sample_runtime_def out_def newEnvelope_def UTC_def
        src tp o quiet_studio_def start_world_def sample_def_def published_envelope_def record_publish_def Let_def)
  have "recorder_untouched sample_runtime" by (simp add: recorder_untouched_def sample_runtime_def)
  from recorded_publish_roundtrip [OF n p value_ok_1 this] obtain env :: "unit Envelope" where
    "Published_events w' = Published_events w1 @ [\<lparr>te_Topic = ''t'', te_Envelope = as_read ''1'' env, te_Payload = Some ()\<rparr>]"
    "validateEnvelope env = None" by (auto simp: sample_def_def)
  with n p show ?thesis by blast
qed

end
