(* ===== verification/Wire.thy ===== *)
theory Wire
  imports System Messagingtest_Publisher
begin

text \<open>
  What crosses the wire: an event from a publisher to a handler, and the time it was published.
\<close>

section \<open>From a publisher to a handler\<close>

lemma ascii_segment: "segment s \<Longrightarrow> list_all (\<lambda>c. ord c < 128) s"
proof -
  assume "segment s"
  then obtain c t where s: "s = c # t" "lower c" "list_all word_char t" by (auto simp: segment_def)
  have "ord c < 128" using s(2) by (simp add: lower_def)
  moreover have "ord d < 128" if "d \<in> set t" for d
    using s(3) that by (fastforce simp: list_all_iff word_char_def lower_def is_digit_def)
  ultimately show ?thesis by (simp add: s(1) list_all_iff)
qed

lemma ascii_number: "number s \<Longrightarrow> list_all (\<lambda>c. ord c < 128) s"
  by (auto simp: number_def is_digit_def list_all_iff)

lemma valid_envelope_ascii:
  assumes "envelope_ok e"
  shows "to_valid (ev_EventType e) = ev_EventType e" and "to_valid (ev_SchemaVersion e) = ev_SchemaVersion e"
  using assms
  by (auto simp: envelope_ok_def event_type_ok_def version_ok_def dest!: ascii_segment ascii_number
      intro!: to_valid_id ascii_utf8)

text \<open>The envelope a handler is given for a published one: every field, and the payload as encoded.\<close>

definition received :: "bytes \<Rightarrow> 'p Envelope \<Rightarrow> raw_envelope" where
  "received p env =
     \<lparr>ev_EventID = ev_EventID env, ev_EventType = ev_EventType env, ev_Timestamp = ev_Timestamp env,
      ev_SchemaVersion = ev_SchemaVersion env, ev_CorrelationID = ev_CorrelationID env, ev_Source = ev_Source env,
      ev_Payload = p\<rparr>"

lemma as_read_received:
  assumes "envelope_ok env" and "utf8 (ev_EventID env)" and "utf8 (ev_CorrelationID env)" and "utf8 (ev_Source env)"
  shows "as_read p env = received p env"
  using assms valid_envelope_ascii [OF assms(1)] by (simp add: as_read_def received_def to_valid_id)

text \<open>
  C11. Producer and consumer agree on the wire. Take any valid envelope with a UTC timestamp and UTF-8
  fields and the bytes \<open>Publish\<close> writes for it: a consumer with a handler registered for its topic,
  type and major version runs that handler, within the attempt cap, on exactly that envelope, under a
  context from which a follow-on \<open>Publish\<close> without an explicit id takes the same correlation id.
\<close>

theorem published_event_reaches_handler:
  assumes "Marshal_envelope (Inr p) env = Inr body" and "validateEnvelope env = None"
    and "zone_offset (ev_Timestamp env) = 0" and "value_ok p"
    and "utf8 (ev_EventID env)" and "utf8 (ev_CorrelationID env)" and "utf8 (ev_Source env)"
    and "majorVersion (ev_SchemaVersion env) = Inr major"
    and "lookup (co_registry c) topic (ev_EventType env) major = (Some h, k)"
    and "deliveryAttempt md \<le> cc_MaxDeliveryAttempts (cfg_Consumer (co_cfg c))"
  shows "(\<exists>w1. dispatch_body rt c ctx topic body md lg r w =
      runWithRetry rt c (contextWithCorrelationID ctx (ev_CorrelationID env)) topic body (deliveryAttempt md) h (received p env) lg
        (if k = MatchTyped then setEventType (ev_EventType env) r else r) w1)
    \<and> resolveCorrelationID rt (contextWithCorrelationID ctx (ev_CorrelationID env)) (apply_options []) v
      = (Inr (ev_CorrelationID env), v)"
proof -
  have ok: "envelope_ok env" using assms(2) by (simp add: validateEnvelope_None)
  have "Unmarshal_envelope body = Inr (as_read p env)"
    by (rule Unmarshal_Marshal_envelope(1) [OF assms(1) _ assms(4)]) (simp add: assms(3))
  then have read: "Unmarshal_envelope body = Inr (received p env)" by (simp only: as_read_received [OF ok assms(5-7)])
  have "validateEnvelope (received p env) = None" using ok by (simp add: validateEnvelope_None envelope_ok_def received_def)
  with read assms(8-10) have "decide c topic body md = Invoke h k (received p env)"
    by (simp add: decide_def received_def)
  then have "\<exists>w1. dispatch_body rt c ctx topic body md lg r w =
      runWithRetry rt c (contextWithCorrelationID ctx (ev_CorrelationID env)) topic body (deliveryAttempt md) h (received p env) lg
        (if k = MatchTyped then setEventType (ev_EventType env) r else r) w1"
    by (auto simp: dispatch_body_decide Let_def received_def)
  moreover have "resolveCorrelationID rt (contextWithCorrelationID ctx (ev_CorrelationID env)) (apply_options []) v = (Inr (ev_CorrelationID env), v)"
    using ok by (simp add: resolveCorrelationID_def apply_options_def envelope_ok_def)
  ultimately show ?thesis by blast
qed

theorem published_event_reaches_handler_witness:
  "\<exists>body w1. Marshal_envelope (Inr ''1'') published_envelope = Inr body
     \<and> dispatch_body sample_runtime (sample_consumer always_ok) sample_context ''t'' body (attempt_md 1) [] sample_recorder start =
        runWithRetry sample_runtime (sample_consumer always_ok) (contextWithCorrelationID sample_context ''0197-id'') ''t'' body 1
          (scripted always_ok) (received ''1'' published_envelope) [] (setEventType ''a.b'' sample_recorder) w1"
proof -
  obtain body where m: "Marshal_envelope (Inr ''1'') published_envelope = Inr body" using published_envelope_marshals by blast
  have "utf8 (ev_EventID published_envelope)" "utf8 (ev_CorrelationID published_envelope)" "utf8 (ev_Source published_envelope)"
    by (simp_all add: published_envelope_def)
  moreover have "zone_offset (ev_Timestamp published_envelope) = 0" "majorVersion (ev_SchemaVersion published_envelope) = Inr 1"
    "lookup (co_registry (sample_consumer always_ok)) ''t'' (ev_EventType published_envelope) 1 = (Some (scripted always_ok), MatchTyped)"
    using sample_version by (simp_all add: published_envelope_def)
  moreover have "deliveryAttempt (attempt_md 1) = 1" by simp
  ultimately show ?thesis
    using published_event_reaches_handler [OF m published_envelope_ok _ value_ok_1, where major = 1 and c = "sample_consumer always_ok"
        and topic = "''t''" and h = "scripted always_ok" and k = MatchTyped and md = "attempt_md 1" and rt = sample_runtime
        and ctx = sample_context and lg = "[]" and r = sample_recorder and w = start] m
    by (auto simp: published_envelope_def)
qed

text \<open>
  C20. The queue latency is the true one, as far as a \<open>time.Duration\<close> can hold it. The consumer parses
  exactly the time the publisher stamped as \<open>published_at\<close>, for every year RFC 3339 can write, and
  records one received event and the difference of the two clocks: zero when the consumer's is behind,
  and the largest duration when more than about 292 years lie between them.
\<close>

theorem queue_latency_exact:
  assumes "0 \<le> fst (civil (ns_since_zero t div 86400000000000))" and "fst (civil (ns_since_zero t div 86400000000000)) \<le> 9999"
    and "inst_live (co_inst c)"
  shows "parsePublishedAt (md(''published_at'' \<mapsto> publishedAtNow t)) = Some (UTC t)
    \<and> metrics (dispatch_received rt c topic (md(''published_at'' \<mapsto> publishedAtNow t)) w) = metrics w @
      [\<lparr>pt_instrument = Received, pt_value = 1, pt_attrs = [(''topic'', topic)]\<rparr>,
       \<lparr>pt_instrument = QueueLatency,
        pt_value = max 0 (min (2 ^ 63 - 1) (ns_since_zero (fst (os_now rt (outside w))) - ns_since_zero t)), pt_attrs = [(''topic'', topic)]\<rparr>]"
proof -
  have "\<exists>s. Marshal_time (UTC t) = Inr s" using assms(1,2) by (simp add: Marshal_time_def UTC_def Let_def)
  then have "parse_rfc3339 (format_rfc3339 (UTC t)) = Some (UTC t)"
    by (auto intro: parse_format_rfc3339(2) simp: UTC_def)
  then have p: "parsePublishedAt (md(''published_at'' \<mapsto> publishedAtNow t)) = Some (UTC t)"
    by (simp add: parsePublishedAt_def publishedAtNow_def)
  have "metrics (dispatch_received rt c topic (md(''published_at'' \<mapsto> publishedAtNow t)) w) = metrics w @
      [\<lparr>pt_instrument = Received, pt_value = 1, pt_attrs = [(''topic'', topic)]\<rparr>,
       \<lparr>pt_instrument = QueueLatency,
        pt_value = max 0 (min (2 ^ 63 - 1) (ns_since_zero (fst (os_now rt (outside w))) - ns_since_zero t)), pt_attrs = [(''topic'', topic)]\<rparr>]"
    unfolding dispatch_received_def p
    using assms(3) by (simp add: Let_def out_def UTC_def Since_def split: prod.split)
  with p show ?thesis by simp
qed

theorem queue_latency_exact_witness:
  "parsePublishedAt (Map.empty(''published_at'' \<mapsto> publishedAtNow \<lparr>ns_since_zero = 63900000000123000000, zone_offset = 3600\<rparr>))
     = Some \<lparr>ns_since_zero = 63900000000123000000, zone_offset = 0\<rparr>"
proof -
  have "fst (civil (63900000000123000000 div 86400000000000)) = 2025"
    by (simp add: civil_def month_days_def leap_def Let_def)
  then show ?thesis
    using queue_latency_exact [of "\<lparr>ns_since_zero = 63900000000123000000, zone_offset = 3600\<rparr>" "sample_consumer always_ok" Map.empty]
    by (simp add: UTC_def)
qed

end
