(* ===== verification/Json_Literal.thy ===== *)
theory Json_Literal
  imports Json_Syntax
begin

text \<open>
  Compacting a string literal, as \<open>json.Marshal\<close> does inside a \<open>json.RawMessage\<close>: it stays a literal
  and decodes to the same string, though \<open><\<close>, \<open>>\<close>, \<open>&\<close> and the line separators become escapes.
\<close>

section \<open>Tokens\<close>

text \<open>A literal's characters are not touched.\<close>

definition kept :: "char \<Rightarrow> bool" where
  "kept c \<longleftrightarrow> 32 \<le> ord c \<and> ord c < 128 \<and> c \<noteq> CHR ''<'' \<and> c \<noteq> CHR ''>'' \<and> c \<noteq> CHR ''&'' \<and> c \<noteq> CHR 0x22 \<and> c \<noteq> CHR 0x5C \<and> \<not> is_ws c"

lemma not_line_sep: "ord c < 128 \<Longrightarrow> \<not> is_line_sep (c # cs)"
  by (auto simp: is_line_sep_def)

lemma compact_kept: "kept c \<Longrightarrow> compact b (c # cs) = c # compact b cs"
  by (cases b) (simp_all add: kept_def not_line_sep)

lemma compact_kept_append: "list_all kept t \<Longrightarrow> compact b (t @ r) = t @ compact b r"
  by (induction t) (simp_all add: compact_kept del: compact.simps)

lemma compact_ws: "is_ws c \<Longrightarrow> compact False (c # cs) = compact False cs"
  by (auto simp: is_ws_def not_line_sep)

lemma compact_skip_ws: "compact False (skip_ws s) = compact False s"
  unfolding skip_ws_def by (induction s) (simp_all add: compact_ws del: compact.simps(2))

lemma compact_quote: "compact False (CHR 0x22 # cs) = CHR 0x22 # compact True cs" "compact True (CHR 0x22 # cs) = CHR 0x22 # compact False cs"
  by (simp_all add: not_line_sep is_ws_def)

lemma compact_punct:
  "c \<in> {CHR ''{'', CHR ''}'', CHR ''['', CHR '']'', CHR '','', CHR '':''} \<Longrightarrow> compact False (c # cs) = c # compact False cs"
  by (rule compact_kept) (auto simp: kept_def is_ws_def)

section \<open>String literals\<close>

lemma kept_hex: "is_hex c \<Longrightarrow> kept c"
  by (auto simp: is_hex_def hex_value_def kept_def is_digit_def ord_in_def is_ws_def split: if_splits)

text \<open>The pieces of a literal: a character, an escape, a code unit, a byte of a longer rune.\<close>

lemma scan_rest: "scan_str (k @ [CHR 0x22]) = Some (i, []) \<Longrightarrow> i = k \<and> scans k"
  by (drule scan_str_split) auto

lemma literal_cases:
  assumes "scans k"
  obtains (nil) "k = []"
  | (plain) c k2 where "k = c # k2" "32 \<le> ord c" "ord c < 128" "c \<noteq> CHR 0x22" "c \<noteq> CHR 0x5C" "scans k2"
  | (escape) d k2 where "k = CHR 0x5C # d # k2" "simple_escape d \<noteq> None" "scans k2"
  | (unit) g h i j k2 where "k = CHR 0x5C # CHR ''u'' # g # h # i # j # k2" "is_hex g" "is_hex h" "is_hex i" "is_hex j" "scans k2"
  | (byte) c k2 where "k = c # k2" "128 \<le> ord c" "scans k2"
proof (cases k)
  case (Cons c cs)
  have "scan_str (k @ CHR 0x22 # []) = Some (k, [])" using assms unfolding scans_def by simp
  then have s: "scan_str (c # cs @ [CHR 0x22]) = Some (c # cs, [])" by (simp only: Cons append_Cons)
  have c: "c \<noteq> CHR 0x22" using s by auto
  show thesis
  proof (cases "c = CHR 0x5C")
    case True
    with s obtain d k2 where cs: "cs = d # k2" by (cases cs) (auto simp: simple_escape_def)
    show thesis
    proof (cases "simple_escape d = None")
      case False
      with s True have "scan_str (k2 @ [CHR 0x22]) = Some (k2, [])" by (auto simp: cs)
      with False True show thesis using escape [of d k2] scan_rest by (auto simp: Cons cs)
    next
      case none: True
      have q: "\<not> is_hex (CHR 0x22)" by (simp add: is_hex_def hex_value_def is_digit_def ord_in_def)
      have u: "scan_str (CHR 0x5C # CHR ''u'' # g # h # i # j # es) = (if is_hex g \<and> is_hex h \<and> is_hex i \<and> is_hex j
          then map_option (\<lambda>(x, r). (CHR 0x5C # CHR ''u'' # g # h # i # j # x, r)) (scan_str es) else None)" for g h i j es
        by (simp add: simple_escape_def)
      from s True none have d: "d = CHR ''u''" by (auto simp: cs split: if_splits)
      note s' = s [unfolded cs d True append_Cons]
      obtain g h i j k3 where k2: "k2 = g # h # i # j # k3"
      proof -
        have "\<exists>g h i j es. k2 @ [CHR 0x22] = g # h # i # j # es \<and> is_hex g \<and> is_hex h \<and> is_hex i \<and> is_hex j"
          using s' by (auto simp: simple_escape_def split: list.splits if_splits)
        then show thesis using q that by (auto simp: append_eq_Cons_conv Cons_eq_append_conv)
      qed
      note s'' = s' [unfolded k2 append_Cons u]
      from s'' have hex: "is_hex g" "is_hex h" "is_hex i" "is_hex j" by (simp_all split: if_splits)
      with s'' have "scan_str (k3 @ [CHR 0x22]) = Some (k3, [])" by auto
      then have k3: "scans k3" by (blast dest: scan_rest)
      show thesis by (rule unit [OF _ hex k3]) (simp add: Cons cs d k2 True)
    qed
  next
    case False
    with s c have "32 \<le> ord c" "scan_str (cs @ [CHR 0x22]) = Some (cs, [])" by (auto split: if_splits)
    with c False show thesis using plain [of c cs] byte [of c cs] scan_rest Cons by fastforce
  qed
qed (rule nil)

text \<open>
  What a reader decodes from a literal depends, beyond its pieces, on the continuation bytes it starts
  with and on whether it starts with the second half of a surrogate pair; compaction keeps both.
\<close>

lemma cont_ranges:
  "ord_in 160 191 b \<Longrightarrow> is_cont b" "ord_in 128 159 b \<Longrightarrow> is_cont b" "ord_in 144 191 b \<Longrightarrow> is_cont b"
  "ord_in 128 143 b \<Longrightarrow> is_cont b"
  by (simp_all add: is_cont_def ord_in_def)

lemma rune_len_conts: "rune_len (c # s) = rune_len (c # takeWhile is_cont s)"
  by (cases s; cases "tl s"; cases "tl (tl s)") (simp_all add: rune_len.simps(2), auto dest: cont_ranges)

definition low_half :: "string \<Rightarrow> nat option" where
  "low_half s = (case next_u4 s of Some r \<Rightarrow> if 0xDC00 \<le> r \<and> r \<le> 0xDFFF then Some r else None | None \<Rightarrow> None)"

lemma unquote_unit:
  "unquote (CHR 0x5C # CHR ''u'' # g # h # i # j # t) =
     (let r = hex4 g h i j in
      if 0xD800 \<le> r \<and> r \<le> 0xDFFF then
        (case low_half t of
           Some r2 \<Rightarrow> if r \<le> 0xDBFF then encode_rune (0x10000 + (r - 0xD800) * 0x400 + (r2 - 0xDC00)) @ unquote (drop 6 t)
                       else rune_error @ unquote t
         | None \<Rightarrow> rune_error @ unquote t)
      else encode_rune r @ unquote t)"
  by (auto simp: low_half_def Let_def split: option.split)

definition same_literal :: "string \<Rightarrow> string \<Rightarrow> bool" where
  "same_literal k k' \<longleftrightarrow> scans k' \<and> unquote k' = unquote k \<and> takeWhile is_cont k' = takeWhile is_cont k \<and> low_half k' = low_half k
     \<and> (low_half k \<noteq> None \<longrightarrow> unquote (drop 6 k') = unquote (drop 6 k))
     \<and> (\<forall>r. compact True (k @ CHR 0x22 # r) = k' @ CHR 0x22 # compact False r)"

lemma ascii_not_cont: "ord c < 128 \<Longrightarrow> \<not> is_cont c"
  by (simp add: is_cont_def)

lemma low_half_not_u: "c \<noteq> CHR 0x5C \<Longrightarrow> low_half (c # s) = None"
  by (simp add: low_half_def next_u4_def split: list.split)

lemma low_half_u: "low_half (CHR 0x5C # CHR ''u'' # g # h # i # j # t) =
    (let r = hex4 g h i j in if 0xDC00 \<le> r \<and> r \<le> 0xDFFF then Some r else None)"
  by (simp add: low_half_def next_u4_def Let_def)

lemma same_plain:
  assumes "32 \<le> ord c" "ord c < 128" "c \<noteq> CHR 0x22" "c \<noteq> CHR 0x5C" and k: "same_literal k k'"
  shows "\<exists>l. same_literal (c # k) l"
proof (cases "c = CHR ''<'' \<or> c = CHR ''>'' \<or> c = CHR ''&''")
  case True
  have "low_half (u00 c @ k') = None" using assms(2) by (simp add: u00_shape low_half_u hex4_u00 Let_def)
  moreover have "unquote (u00 c @ k') = c # unquote k'"
    using unquote_escape_char [OF assms(2), of k'] True by (auto simp: escape_char_def)
  moreover have "takeWhile is_cont (u00 c @ k') = []" by (simp add: u00_shape is_cont_def)
  ultimately have "same_literal (c # k) (u00 c @ k')"
    using k True scans_u00 [of c] ascii_not_cont [OF assms(2)] low_half_not_u [OF assms(4)] unquote_plain [OF assms(2,4)]
    by (auto simp: same_literal_def simp del: unquote.simps)
  then show ?thesis ..
next
  case False
  have "same_literal (c # k) (c # k')"
    using k False assms scans_append [OF scans_char [OF assms(3,4,1)], of k'] ascii_not_cont [OF assms(2)] low_half_not_u [OF assms(4)]
      unquote_plain [OF assms(2,4)]
    by (simp add: same_literal_def not_line_sep del: unquote.simps)
  then show ?thesis ..
qed

lemma same_escape:
  assumes "simple_escape d \<noteq> None" and k: "same_literal k k'"
  shows "same_literal (CHR 0x5C # d # k) (CHR 0x5C # d # k')"
proof -
  have "d \<noteq> CHR ''u''" using assms(1) by (auto simp: simple_escape_def)
  moreover from this have "low_half (CHR 0x5C # d # t) = None" for t
    by (simp add: low_half_def next_u4_def split: list.split)
  ultimately show ?thesis
    using k assms(1) scans_append [OF scans_escape [OF assms(1)], of k']
    by (auto simp: same_literal_def not_line_sep is_cont_def split: option.split)
qed

lemma same_unit:
  assumes hex: "is_hex g" "is_hex h" "is_hex i" "is_hex j" and k: "same_literal k k'"
  shows "same_literal (CHR 0x5C # CHR ''u'' # g # h # i # j # k) (CHR 0x5C # CHR ''u'' # g # h # i # j # k')"
proof -
  have "compact True (CHR 0x5C # CHR ''u'' # g # h # i # j # t) = CHR 0x5C # CHR ''u'' # g # h # i # j # compact True t" for t
    using compact_kept_append [of "[g, h, i, j]" True t] hex by (simp add: kept_hex not_line_sep)
  moreover have "\<not> is_cont (CHR 0x5C)" by (simp add: is_cont_def)
  ultimately show ?thesis
    using k scans_append [OF scans_u [OF hex], of k']
    by (simp add: same_literal_def unquote_unit low_half_u Let_def del: unquote.simps compact.simps split: option.split)
qed

lemma is_line_sep_quote: "is_line_sep (k @ CHR 0x22 # r) \<longleftrightarrow> is_line_sep k"
  by (cases k; cases "tl k"; cases "tl (tl k)") (auto simp: is_line_sep_def)

lemma high_facts:
  assumes "128 \<le> ord c"
  shows "c \<noteq> CHR ''<''" "c \<noteq> CHR ''>''" "c \<noteq> CHR ''&''" "c \<noteq> CHR 0x22" "c \<noteq> CHR 0x5C" "low_half (c # s) = None"
  using assms by (auto intro!: low_half_not_u)

lemma compact_high: "128 \<le> ord c \<Longrightarrow> \<not> is_line_sep (c # t) \<Longrightarrow> compact True (c # t) = c # compact True t"
  using high_facts [of c] by simp

lemma compact_conts: "list_all is_cont x \<Longrightarrow> compact True (x @ t) = x @ compact True t"
proof (induction x)
  case (Cons c x)
  then have "128 \<le> ord c" "\<not> is_line_sep (c # x @ t)" by (auto simp: is_cont_def is_line_sep_def)
  then show ?case using Cons compact_high [of c "x @ t"] by (simp del: compact.simps)
qed simp

lemma rune_conts: "list_all is_cont (take (rune_len (c # s) - 1) s)"
  by (cases s; cases "tl s"; cases "tl (tl s)") (simp_all add: rune_len.simps(2), auto dest: cont_ranges)

lemma scans_rest:
  assumes "scans x" and "scans (x @ k)"
  shows "scans k"
proof -
  have "scan_str ((x @ k) @ CHR 0x22 # []) = Some (x @ k, [])" using assms(2) unfolding scans_def by simp
  then have "map_option (\<lambda>(i, r). (x @ i, r)) (scan_str (k @ [CHR 0x22])) = Some (x @ k, [])"
    using assms(1) unfolding scans_def by simp
  then have "scan_str (k @ [CHR 0x22]) = Some (k, [])" by auto
  then show ?thesis by (blast dest: scan_rest)
qed

lemma same_line_sep:
  assumes "is_line_sep (c # k2)" and k: "same_literal (drop 2 k2) k'"
  shows "same_literal (c # k2) (line_sep_escape (c # k2) @ k')"
proof -
  from line_sep_shape [OF assms(1)] obtain d k3
    where cs: "c = CHR 0xE2" "k2 = CHR 0x80 # d # k3" "d = CHR 0xA8 \<or> d = CHR 0xA9" by blast
  have n: "rune_len (c # k2) = 3" by (rule unquote_line_sep(2) [OF assms(1)])
  have u: "unquote (c # k2) = take 3 (c # k2) @ unquote k3"
    using unquote_rune [of "c # k2" k3] n by (simp add: cs numeral_3_eq_3 del: unquote.simps)
  have h: "hex4 (CHR ''2'') (CHR ''0'') (CHR ''2'') (CHR ''8'') = 0x2028" "hex4 (CHR ''2'') (CHR ''0'') (CHR ''2'') (CHR ''9'') = 0x2029"
    by (simp_all add: hex4_def hex_literal)
  have "low_half (line_sep_escape (c # k2) @ k') = None" "scans (line_sep_escape (c # k2))"
    "takeWhile is_cont (line_sep_escape (c # k2) @ k') = []" "takeWhile is_cont (c # k2) = []" "low_half (c # k2) = None"
    using cs scans_u [of "CHR ''2''" "CHR ''0''" "CHR ''2''"] high_facts(6) [of c]
    by (auto simp: line_sep_escape_def low_half_u h Let_def is_cont_def is_hex_def hex_literal)
  moreover have "compact True ((c # k2) @ CHR 0x22 # r) = line_sep_escape (c # k2) @ compact True (k3 @ CHR 0x22 # r)" for r
  proof -
    have "is_line_sep ((c # k2) @ CHR 0x22 # r)" using assms(1) by (simp only: is_line_sep_quote)
    then show ?thesis using high_facts [of c] cs by (simp add: line_sep_escape_def)
  qed
  ultimately show ?thesis
    using k unquote_line_sep(1) [OF assms(1), of k'] u cs(2) by (simp add: same_literal_def del: unquote.simps compact.simps)
qed

lemma same_rune:
  assumes "1 < rune_len k" and "\<not> is_line_sep k" and k: "same_literal (drop (rune_len k) k) k'"
  shows "same_literal k (take (rune_len k) k @ k')"
proof -
  let ?n = "rune_len k"
  obtain c s where s: "k = c # s" using assms(1) by (cases k) auto
  have n: "take ?n k = c # take (?n - 1) s" "drop ?n k = drop (?n - 1) s" using assms(1) by (cases "?n"; simp add: s)+
  have high: "128 \<le> ord c" using rune_len_high [OF assms(1), of c] n(1) by simp
  have cont: "\<not> is_cont c" using assms(1) by (auto simp: s rune_len.simps(2) is_cont_def ord_in_def split: if_splits)
  have u: "unquote (take ?n k @ t) = take ?n k @ unquote t" for t by (rule unquote_rune [OF assms(1)])
  have "compact True (k @ CHR 0x22 # r) = take ?n k @ compact True (drop ?n k @ CHR 0x22 # r)" for r
  proof -
    have "\<not> is_line_sep (c # s @ CHR 0x22 # r)" using assms(2) is_line_sep_quote [of k r] by (simp add: s)
    from compact_high [OF high this] compact_conts [OF rune_conts [of c s, folded s], of "drop (?n - 1) s @ CHR 0x22 # r"]
    show ?thesis unfolding n by (simp add: s del: compact.simps) (metis append.assoc append_take_drop_id)
  qed
  moreover have "scans (take ?n k)" using rune_len_high [OF assms(1)] by (intro scans_high) blast
  moreover have "takeWhile is_cont (take ?n k @ t) = []" "low_half (take ?n k @ t) = None" for t
    using cont high_facts(6) [OF high] by (simp_all add: n(1))
  moreover have "takeWhile is_cont k = []" "low_half k = None" "unquote k = take ?n k @ unquote (drop ?n k)"
    using cont high_facts(6) [OF high] u [of "drop ?n k"] by (simp_all add: s del: unquote.simps)
  ultimately show ?thesis
    using k u [of k'] by (simp add: same_literal_def del: unquote.simps compact.simps)
qed

lemma same_bad_byte:
  assumes "rune_len (c # k2) = 0" and high: "128 \<le> ord c" and k: "same_literal k2 k'"
  shows "same_literal (c # k2) (c # k')"
proof -
  have "rune_len (c # k') = 0"
    using k assms(1) rune_len_conts [of c k'] rune_len_conts [of c k2] by (simp add: same_literal_def)
  moreover have "\<not> is_line_sep ((c # k2) @ CHR 0x22 # r)" for r
    using unquote_line_sep(2) [of c k2] assms(1) by (simp only: is_line_sep_quote) auto
  moreover have "scans (c # k')" using scans_append [OF scans_high [of "[c]"], of k'] high k by (simp add: same_literal_def)
  ultimately show ?thesis
    using k assms(1) high_facts [OF high] compact_high [OF high]
    by (simp add: same_literal_def del: compact.simps)
qed

lemma same_literal_ex: "scans k \<Longrightarrow> \<exists>k'. same_literal k k'"
proof (induction "length k" arbitrary: k rule: less_induct)
  case less
  from less.prems show ?case
  proof (cases rule: literal_cases)
    case nil
    have "same_literal [] []" by (simp add: same_literal_def compact_quote low_half_def next_u4_def del: compact.simps)
    with nil show ?thesis by blast
  next
    case (plain c k2)
    then show ?thesis using less.hyps [of k2] same_plain [of c k2] by auto
  next
    case (escape d k2)
    then show ?thesis using less.hyps [of k2] same_escape [of d k2] by fastforce
  next
    case (unit g h i j k2)
    then show ?thesis using less.hyps [of k2] same_unit [OF unit(2-5), of k2] by fastforce
  next
    case (byte c k2)
    consider "rune_len k = 0" | "is_line_sep k" | "1 < rune_len k" "\<not> is_line_sep k"
      using rune_len_1 [of c k2] byte(1,2) by fastforce
    then show ?thesis
    proof cases
      case 1
      then show ?thesis using less.hyps [of k2] same_bad_byte [of c k2] byte by fastforce
    next
      case 2
      from 2 byte(1) have r: "rune_len k = 3" using unquote_line_sep(2) [of c k2] by simp
      have "scans (take 3 k)" using rune_len_high [of k] r by (intro scans_high) auto
      with less.prems have "scans (drop 3 k)" using scans_rest [of "take 3 k" "drop 3 k"] by simp
      moreover have "length (drop 3 k) < length k" using byte(1) by simp
      ultimately obtain k' where "same_literal (drop 3 k) k'" using less.hyps by blast
      then have "same_literal k (line_sep_escape k @ k')" using same_line_sep [of c k2 k'] 2 byte(1) by (simp add: numeral_3_eq_3 numeral_2_eq_2)
      then show ?thesis ..
    next
      case 3
      have "scans (take (rune_len k) k)" using rune_len_high [OF 3(1)] by (intro scans_high) blast
      with less.prems have "scans (drop (rune_len k) k)"
        using scans_rest [of "take (rune_len k) k" "drop (rune_len k) k"] by simp
      then show ?thesis using less.hyps [of "drop (rune_len k) k"] same_rune [OF 3] 3(1) byte(1) by fastforce
    qed
  qed
qed

end
