(* ===== verification/Json_Compact.thy ===== *)
theory Json_Compact
  imports Json_Literal
begin

text \<open>
  Compacting JSON, as \<open>json.Marshal\<close> does with a \<open>json.RawMessage\<close>, leaves a value a value: every token
  of a text keeps its kind, and the recursion that recognises it its depth.
\<close>

section \<open>Numbers\<close>

lemma kept_digit: "is_digit c \<Longrightarrow> kept c"
  by (auto simp: kept_def is_digit_def is_ws_def)

lemma digits_then: "t = [] \<or> \<not> is_digit (hd t) \<Longrightarrow> dropWhile is_digit (takeWhile is_digit u @ t) = t"
  by (induction u) (cases t; auto)+

lemma digits_all: "Ball (set (takeWhile is_digit u)) is_digit"
  by (blast dest: set_takeWhileD)

lemma kept_digits: "list_all kept (takeWhile is_digit u)"
  by (induction u) (simp_all add: kept_digit)

lemma scan_exp_token:
  assumes "scan_exp s = Some r"
  shows "\<exists>t. s = t @ r \<and> list_all kept t \<and> scan_exp t = Some [] \<and> (t = [] \<or> \<not> is_digit (hd t))"
proof -
  have e: "kept (CHR ''e'')" "kept (CHR ''E'')" "kept (CHR ''+'')" "kept (CHR ''-'')" by (simp_all add: kept_def is_ws_def)
  have split: "takeWhile is_digit u @ dropWhile is_digit u = u" for u by simp
  show ?thesis
  proof (cases "\<exists>c u. s = c # u \<and> (c = CHR ''e'' \<or> c = CHR ''E'')")
    case False
    with assms show ?thesis by (intro exI [of _ "[]"]) (auto simp: scan_exp_def split: list.splits)
  next
    case True
    then obtain c u where s: "s = c # u" "c = CHR ''e'' \<or> c = CHR ''E''" by blast
    have c: "kept c" "\<not> is_digit c" using s(2) e by (auto simp: is_digit_def)
    from assms s obtain d v where u: "u = d # v" by (cases u) (auto simp: scan_exp_def)
    show ?thesis
    proof (cases "d = CHR ''+'' \<or> d = CHR ''-''")
      case True
      with assms s u obtain d' w where v: "v = d' # w" "is_digit d'" "r = dropWhile is_digit w"
        by (cases v) (auto simp: scan_exp_def Let_def split: if_splits)
      have "kept d" using True e by auto
      with c v s(2) True show ?thesis
        by (intro exI [of _ "c # d # d' # takeWhile is_digit w"])
          (simp add: s(1) u kept_digit kept_digits scan_exp_def Let_def split digits_all)
    next
      case False
      with assms s u have "is_digit d" "r = dropWhile is_digit v" by (auto simp: scan_exp_def Let_def split: if_splits)
      with c s(2) False show ?thesis
        by (intro exI [of _ "c # d # takeWhile is_digit v"])
          (simp add: s(1) u kept_digit kept_digits scan_exp_def Let_def split digits_all)
    qed
  qed
qed

lemma scan_frac_token:
  assumes "scan_frac s = Some r"
  shows "\<exists>t. s = t @ r \<and> list_all kept t \<and> scan_frac t = Some [] \<and> (t = [] \<or> \<not> is_digit (hd t))"
proof (cases "\<exists>u. s = CHR ''.'' # u")
  case True
  then obtain u where s: "s = CHR ''.'' # u" by blast
  with assms obtain d v where u: "u = d # v" "is_digit d" "scan_exp (dropWhile is_digit v) = Some r"
    by (cases u) (auto simp: scan_frac_def split: if_splits)
  from scan_exp_token [OF u(3)] obtain t where t: "dropWhile is_digit v = t @ r" "list_all kept t" "scan_exp t = Some []"
    "t = [] \<or> \<not> is_digit (hd t)" by blast
  have "v = takeWhile is_digit v @ t @ r" using takeWhile_dropWhile_id [of is_digit v] by (simp add: t(1))
  moreover have "kept (CHR ''.'')" "\<not> is_digit (CHR ''.'')" by (simp_all add: kept_def is_ws_def is_digit_def)
  ultimately show ?thesis using u(2) t(2,3) digits_then [OF t(4)]
    by (intro exI [of _ "CHR ''.'' # d # takeWhile is_digit v @ t"]) (simp add: s u(1) kept_digit kept_digits scan_frac_def)
next
  case False
  with assms have e: "scan_exp s = Some r" by (cases s) (auto simp: scan_frac_def scan_exp_def)
  from scan_exp_token [OF this] obtain t where t: "s = t @ r" "list_all kept t" "scan_exp t = Some []" "t = [] \<or> \<not> is_digit (hd t)"
    by blast
  moreover have "scan_frac t = Some []" using t(1,3) False by (cases t) (auto simp: scan_frac_def)
  ultimately show ?thesis by blast
qed

lemma scan_number_token:
  assumes "scan_number s = Some r"
  shows "\<exists>t. s = t @ r \<and> list_all kept t \<and> scan_number t = Some [] \<and> t \<noteq> [] \<and> (hd t = CHR ''-'' \<or> is_digit (hd t))"
proof -
  have body: "\<exists>t. u = t @ r \<and> list_all kept t \<and> t \<noteq> [] \<and> is_digit (hd t)
      \<and> (case t of [] \<Rightarrow> None | c # u \<Rightarrow> if c = CHR ''0'' then scan_frac u else if is_digit c then scan_frac (dropWhile is_digit u) else None) = Some []"
    if "(case u of [] \<Rightarrow> None | c # u \<Rightarrow> if c = CHR ''0'' then scan_frac u else if is_digit c then scan_frac (dropWhile is_digit u) else None) = Some r" for u
  proof -
    from that obtain c v where u: "u = c # v" by (cases u) auto
    show ?thesis
    proof (cases "c = CHR ''0''")
      case True
      with that u have "scan_frac v = Some r" by simp
      from scan_frac_token [OF this] obtain t where "v = t @ r" "list_all kept t" "scan_frac t = Some []" by blast
      moreover have "is_digit (CHR ''0'')" by (simp add: is_digit_def)
      ultimately show ?thesis using True by (intro exI [of _ "c # t"]) (simp add: u kept_digit)
    next
      case False
      with that u have "is_digit c" "scan_frac (dropWhile is_digit v) = Some r" by (auto split: if_splits)
      moreover from scan_frac_token [OF this(2)] obtain t where t: "dropWhile is_digit v = t @ r" "list_all kept t" "scan_frac t = Some []"
        "t = [] \<or> \<not> is_digit (hd t)" by blast
      moreover have "v = takeWhile is_digit v @ t @ r" using takeWhile_dropWhile_id [of is_digit v] by (simp add: t(1))
      ultimately show ?thesis using False digits_then [OF t(4)]
        by (intro exI [of _ "c # takeWhile is_digit v @ t"]) (simp add: u kept_digit kept_digits)
    qed
  qed
  show ?thesis
  proof (cases "\<exists>u. s = CHR ''-'' # u")
    case True
    then obtain u where s: "s = CHR ''-'' # u" by blast
    have "kept (CHR ''-'')" by (simp add: kept_def is_ws_def)
    with assms body [of u] show ?thesis by (auto simp: s scan_number_def)
  next
    case False
    then have "(case s of c # r \<Rightarrow> if c = CHR ''-'' then r else s | [] \<Rightarrow> s) = s" by (auto split: list.splits)
    with assms obtain t where t: "s = t @ r" "list_all kept t" "t \<noteq> []" "is_digit (hd t)"
      "(case t of [] \<Rightarrow> None | c # u \<Rightarrow> if c = CHR ''0'' then scan_frac u else if is_digit c then scan_frac (dropWhile is_digit u) else None) = Some []"
      using body [of s] by (auto simp: scan_number_def)
    moreover have "(case t of c # r \<Rightarrow> if c = CHR ''-'' then r else t | [] \<Rightarrow> t) = t"
      using t(4) by (cases t) (auto simp: is_digit_def)
    ultimately show ?thesis by (intro exI [of _ t]) (simp add: scan_number_def)
  qed
qed

section \<open>Values\<close>

text \<open>How a text that is a value, members or elements starts, and where the text after it may start.\<close>

definition starts :: "string \<Rightarrow> bool" where
  "starts v \<longleftrightarrow> v \<noteq> [] \<and> \<not> is_ws (hd v) \<and> hd v \<noteq> CHR ''}'' \<and> hd v \<noteq> CHR '']''"

lemma starts_simps:
  assumes "starts v"
  shows "skip_ws (v @ x) = v @ x" "take 1 (v @ x) \<noteq> ''}''" "take 1 (v @ x) \<noteq> '']''"
  using assms by (cases v; auto simp: starts_def skip_ws_Cons)+

definition value_of :: "nat \<Rightarrow> int \<Rightarrow> string \<Rightarrow> bool" where
  "value_of n d v \<longleftrightarrow> starts v \<and> (\<forall>m\<ge>n. \<forall>x. x = [] \<or> delim x \<longrightarrow> skip_value m d (v @ x) = Some x)"

lemma value_of_delim: "value_of n d v \<Longrightarrow> n \<le> m \<Longrightarrow> delim x \<Longrightarrow> skip_value m d (v @ x) = Some x"
  by (simp add: value_of_def)

lemma value_ofI:
  assumes "starts v" and "\<And>m x. n \<le> m \<Longrightarrow> x = [] \<or> delim x \<Longrightarrow> skip_value (Suc m) d (v @ x) = Some x"
  shows "value_of (Suc n) d v"
proof -
  have "skip_value m d (v @ x) = Some x" if "Suc n \<le> m" "x = [] \<or> delim x" for m x
    using assms(2) [of "m - 1" x] that by (cases m) simp_all
  with assms(1) show ?thesis by (simp add: value_of_def)
qed

lemma compact_take1:
  assumes "take 1 (skip_ws r) = [c]" and "c \<in> {CHR ''{'', CHR ''}'', CHR ''['', CHR '']'', CHR '','', CHR '':''}"
  shows "compact False r = c # compact False (drop 1 (skip_ws r))"
proof -
  from assms(1) have "skip_ws r = c # drop 1 (skip_ws r)" by (cases "skip_ws r") auto
  then show ?thesis using compact_punct [OF assms(2)] compact_skip_ws [of r] by metis
qed

lemma member_step:
  assumes "scans k" and "starts v" and "skip_value m d (v @ y) = Some y"
  shows "take 1 (skip_ws y) = ''}'' \<Longrightarrow> skip_members (Suc m) d (CHR 0x22 # k @ CHR 0x22 # CHR '':'' # v @ y) = Some (drop 1 (skip_ws y))"
    and "take 1 (skip_ws y) = '','' \<Longrightarrow> skip_members (Suc m) d (CHR 0x22 # k @ CHR 0x22 # CHR '':'' # v @ y)
      = skip_members m d (skip_ws (drop 1 (skip_ws y)))"
proof -
  have "scan_str (k @ CHR 0x22 # CHR '':'' # v @ y) = Some (k, CHR '':'' # v @ y)" using assms(1) by (simp add: scans_def)
  moreover have "skip_ws (CHR '':'' # v @ y) = CHR '':'' # v @ y" by (simp add: skip_ws_Cons not_ws)
  ultimately show "take 1 (skip_ws y) = ''}'' \<Longrightarrow> skip_members (Suc m) d (CHR 0x22 # k @ CHR 0x22 # CHR '':'' # v @ y) = Some (drop 1 (skip_ws y))"
    "take 1 (skip_ws y) = '','' \<Longrightarrow> skip_members (Suc m) d (CHR 0x22 # k @ CHR 0x22 # CHR '':'' # v @ y)
      = skip_members m d (skip_ws (drop 1 (skip_ws y)))"
    using assms(3) starts_simps(1) [OF assms(2)] by simp_all
qed

lemma literal_value: "p \<in> {''true'', ''false'', ''null''} \<Longrightarrow> value_of (Suc n) d p"
  by (intro value_ofI literal_skip) (auto simp: starts_def is_ws_def)

lemma number_value:
  assumes "scan_number t = Some []" and "t \<noteq> []" and "hd t = CHR ''-'' \<or> is_digit (hd t)"
  shows "value_of (Suc n) d t"
proof -
  from assms obtain c u where c: "t = c # u" "c = CHR ''-'' \<or> is_digit c" by (cases t) auto
  have "skip_value (Suc m) d (t @ x) = scan_number (t @ x)" for m x using number_skip [OF c(2)] by (simp add: c(1) del: skip_value.simps)
  moreover have "scan_number (t @ x) = Some x" if "x = [] \<or> delim x" for x
    using that assms(1) scan_number_append [of x t "[]"] by auto
  moreover have "starts t" using c(2) by (auto simp: starts_def c(1) is_ws_def is_digit_def)
  ultimately show ?thesis by (intro value_ofI) auto
qed

lemma string_value: "scans k \<Longrightarrow> value_of (Suc n) d (CHR 0x22 # k @ [CHR 0x22])"
  by (intro value_ofI) (auto simp: starts_def not_ws scans_def)

definition members_of :: "nat \<Rightarrow> int \<Rightarrow> string \<Rightarrow> bool" where
  "members_of n d v \<longleftrightarrow> starts v \<and> (\<forall>m\<ge>n. \<forall>x. skip_members m d (v @ x) = Some x)"

definition elems_of :: "nat \<Rightarrow> int \<Rightarrow> string \<Rightarrow> bool" where
  "elems_of n d v \<longleftrightarrow> starts v \<and> (\<forall>m\<ge>n. \<forall>x. skip_elems m d (v @ x) = Some x)"

lemma all_SucI: "(\<And>m. n \<le> m \<Longrightarrow> P (Suc m)) \<Longrightarrow> \<forall>m\<ge>Suc n. P m"
  by (metis Suc_le_D Suc_le_mono)

lemma object_value:
  "d < maxNestingDepth \<Longrightarrow> value_of (Suc n) d ''{}''"
  "d < maxNestingDepth \<Longrightarrow> members_of n (d + 1) v \<Longrightarrow> value_of (Suc n) d (CHR ''{'' # v)"
  "d < maxNestingDepth \<Longrightarrow> value_of (Suc n) d ''[]''"
  "d < maxNestingDepth \<Longrightarrow> elems_of n (d + 1) v \<Longrightarrow> value_of (Suc n) d (CHR ''['' # v)"
proof -
  have ws: "skip_ws (CHR ''}'' # x) = CHR ''}'' # x" "skip_ws (CHR '']'' # x) = CHR '']'' # x" for x
    by (simp_all add: skip_ws_Cons is_ws_def)
  assume d: "d < maxNestingDepth"
  show "value_of (Suc n) d ''{}''" "value_of (Suc n) d ''[]''"
    using d ws by (intro value_ofI; simp add: starts_def is_ws_def)+
  show "members_of n (d + 1) v \<Longrightarrow> value_of (Suc n) d (CHR ''{'' # v)"
    using d starts_simps [of v] by (intro value_ofI) (simp_all add: members_of_def starts_def is_ws_def)
  show "elems_of n (d + 1) v \<Longrightarrow> value_of (Suc n) d (CHR ''['' # v)"
    using d starts_simps [of v] by (intro value_ofI) (simp_all add: elems_of_def starts_def is_ws_def)
qed

lemma members_last:
  assumes "scans k" and "value_of n d w"
  shows "members_of (Suc n) d (CHR 0x22 # k @ CHR 0x22 # CHR '':'' # w @ ''}'')"
proof -
  have "starts w" using assms(2) by (simp add: value_of_def)
  then have "skip_members (Suc m) d (CHR 0x22 # k @ CHR 0x22 # CHR '':'' # w @ CHR ''}'' # x) = Some x" if "n \<le> m" for m x
    using member_step(1) [OF assms(1) _ value_of_delim [OF assms(2) that], of "CHR ''}'' # x"] by (simp add: skip_ws_Cons not_ws)
  then show ?thesis unfolding members_of_def by (intro conjI all_SucI) (simp_all add: starts_def not_ws)
qed

lemma members_more:
  assumes "scans k" and "value_of n d w" and "members_of n d u"
  shows "members_of (Suc n) d (CHR 0x22 # k @ CHR 0x22 # CHR '':'' # w @ CHR '','' # u)"
proof -
  have "starts w" using assms(2) by (simp add: value_of_def)
  then have "skip_members (Suc m) d (CHR 0x22 # k @ CHR 0x22 # CHR '':'' # w @ CHR '','' # u @ x) = Some x" if "n \<le> m" for m x
    using member_step(2) [OF assms(1) _ value_of_delim [OF assms(2) that], of "CHR '','' # u @ x"] assms(3) that starts_simps(1) [of u]
    by (simp add: skip_ws_Cons not_ws members_of_def)
  then show ?thesis unfolding members_of_def by (intro conjI all_SucI) (simp_all add: starts_def not_ws)
qed

lemma elems_last:
  assumes "value_of n d w"
  shows "elems_of (Suc n) d (w @ '']'')"
proof -
  have "starts (w @ y)" for y using assms by (cases w) (auto simp: value_of_def starts_def)
  moreover have "skip_elems (Suc m) d (w @ CHR '']'' # x) = Some x" if "n \<le> m" for m x
    using value_of_delim [OF assms that, of "CHR '']'' # x"] by (simp add: skip_ws_Cons is_ws_def)
  ultimately show ?thesis unfolding elems_of_def by (intro conjI all_SucI) simp_all
qed

lemma elems_more:
  assumes "value_of n d w" and "elems_of n d u"
  shows "elems_of (Suc n) d (w @ CHR '','' # u)"
proof -
  have "starts (w @ y)" for y using assms(1) by (cases w) (auto simp: value_of_def starts_def)
  moreover have "skip_elems (Suc m) d (w @ CHR '','' # u @ x) = Some x" if "n \<le> m" for m x
    using value_of_delim [OF assms(1) that, of "CHR '','' # u @ x"] assms(2) that starts_simps(1) [of u]
    by (simp add: skip_ws_Cons not_ws elems_of_def)
  ultimately show ?thesis unfolding elems_of_def by (intro conjI all_SucI) simp_all
qed

section \<open>Compaction token by token\<close>

text \<open>
  A complete token, and a sequence of them, compacts by itself whatever follows; \<open>reads P s r\<close> says that
  a text \<open>s\<close> goes on with \<open>r\<close> after tokens that compact to a text with property \<open>P\<close>.
\<close>

definition apart :: "string \<Rightarrow> bool" where
  "apart t \<longleftrightarrow> (\<forall>r. compact False (t @ r) = compact False t @ compact False r)"

definition reads :: "(string \<Rightarrow> bool) \<Rightarrow> string \<Rightarrow> string \<Rightarrow> bool" where
  "reads P s r \<longleftrightarrow> (\<exists>t. s = t @ r \<and> apart t \<and> P (compact False t))"

lemma apart_append: "apart t \<Longrightarrow> apart u \<Longrightarrow> apart (t @ u) \<and> compact False (t @ u) = compact False t @ compact False u"
  by (simp add: apart_def)

lemma readsI: "(\<And>r. compact False (t @ r) = v @ compact False r) \<Longrightarrow> P v \<Longrightarrow> reads P (t @ r) r"
  using append_Nil2 [of t] by (metis (no_types, lifting) apart_def append_Nil2 compact.simps(1) reads_def)

lemma reads_mono: "reads P s r \<Longrightarrow> (\<And>v. P v \<Longrightarrow> Q v) \<Longrightarrow> reads Q s r"
  unfolding reads_def by blast

lemma reads_compact: "reads P s r \<Longrightarrow> \<exists>v. P v \<and> compact False s = v @ compact False r"
  unfolding reads_def apart_def by blast

lemma reads_append: "reads P s r \<Longrightarrow> reads Q r q \<Longrightarrow> (\<And>v w. P v \<Longrightarrow> Q w \<Longrightarrow> R (v @ w)) \<Longrightarrow> reads R s q"
  unfolding reads_def by (metis apart_append append.assoc)

lemma reads_kept: "list_all kept t \<Longrightarrow> P t \<Longrightarrow> reads P (t @ r) r"
  by (rule readsI) (rule compact_kept_append)

lemma skip_ws_prefix: "\<exists>t. s = t @ skip_ws s \<and> (\<forall>r. compact False (t @ r) = compact False r)"
proof -
  have "compact False (takeWhile is_ws s @ r) = compact False r" for r
    by (induction s) (simp_all add: compact_ws del: compact.simps)
  moreover have "s = takeWhile is_ws s @ skip_ws s" by (simp add: skip_ws_def)
  ultimately show ?thesis by blast
qed

lemma reads_ws: "reads P (skip_ws s) r \<Longrightarrow> reads P s r"
proof -
  assume "reads P (skip_ws s) r"
  moreover from skip_ws_prefix [of s] obtain t where t: "s = t @ skip_ws s" "\<And>r. compact False (t @ r) = compact False r" by blast
  then have "reads (\<lambda>v. v = []) s (skip_ws s)" by (subst t(1)) (rule readsI, simp_all)
  ultimately show ?thesis by (auto elim: reads_append)
qed

lemma reads_punct:
  assumes "take 1 s = [c]" and "c \<in> {CHR ''{'', CHR ''}'', CHR ''['', CHR '']'', CHR '','', CHR '':''}"
  shows "reads (\<lambda>v. v = [c]) s (drop 1 s)"
proof -
  have "s = [c] @ drop 1 s" using assms(1) by (cases s) auto
  moreover have "reads (\<lambda>v. v = [c]) ([c] @ drop 1 s) (drop 1 s)"
    using compact_punct [OF assms(2)] by (intro readsI) simp_all
  ultimately show ?thesis by simp
qed

lemma reads_string:
  assumes "take 1 s = [CHR 0x22]" and "scan_str (drop 1 s) = Some (k, r)"
  shows "reads (\<lambda>v. \<exists>k'. same_literal k k' \<and> v = CHR 0x22 # k' @ [CHR 0x22]) s r"
proof -
  from scan_str_split [OF assms(2)] have k: "drop 1 s = k @ CHR 0x22 # r" "scans k" by simp_all
  then obtain k' where k': "same_literal k k'" using same_literal_ex by blast
  have s: "s = (CHR 0x22 # k @ [CHR 0x22]) @ r" using assms(1) k(1) by (cases s) auto
  show ?thesis
    unfolding s
  proof (rule readsI)
    show "compact False ((CHR 0x22 # k @ [CHR 0x22]) @ r) = (CHR 0x22 # k' @ [CHR 0x22]) @ compact False r" for r
      using k' by (simp add: same_literal_def compact_quote del: compact.simps)
  qed (use k' in blast)
qed

lemma reads_scalar:
  assumes "skip_value (Suc n) d s = Some r" and s: "s = c # cs" and "c \<noteq> CHR ''{''" and "c \<noteq> CHR ''[''"
  shows "reads (value_of (Suc n) d) s r"
  using assms
proof (cases rule: scalar_cases)
  case (str k)
  then have "take 1 s = [CHR 0x22]" "scan_str (drop 1 s) = Some (k, r)" by (simp_all add: s)
  from reads_string [OF this] show ?thesis
    by (rule reads_mono) (auto simp: same_literal_def intro: string_value)
next
  case (lit p)
  then have "list_all kept p" by (auto simp: kept_def is_ws_def)
  then show ?thesis using reads_kept literal_value [OF lit(1)] by (simp add: lit(2))
next
  case num
  from scan_number_token [OF num(2)] show ?thesis using reads_kept number_value by blast
qed

text \<open>Compacting a text compacts the value it starts with, which remains one within the same recursion depth.\<close>

lemma compact_keeps:
  "skip_value n d s = Some r \<Longrightarrow> reads (value_of n d) s r"
  "skip_members n d s = Some r \<Longrightarrow> reads (members_of n d) s r"
  "skip_elems n d s = Some r \<Longrightarrow> reads (elems_of n d) s r"
proof (induction n d s and n d s and n d s arbitrary: r and r and r rule: skip_value_skip_members_skip_elems.induct)
  case (2 n d s)
  from 2(3) obtain c cs where s: "s = c # cs" by (cases s) auto
  consider (obj) "c = CHR ''{''" | (arr) "c = CHR ''[''" | (scalar) "c \<noteq> CHR ''{''" "c \<noteq> CHR ''[''" by blast
  then show ?case
  proof cases
    case obj
    with 2(3) s have d: "d < maxNestingDepth" by (auto split: if_splits)
    have opens: "reads (\<lambda>v. v = ''{'') s cs" using reads_punct [of s c] obj by (simp add: s)
    show ?thesis
    proof (cases "take 1 (skip_ws cs) = ''}''")
      case True
      with 2(3) s obj d have "r = drop 1 (skip_ws cs)" by simp
      with reads_append [OF opens reads_ws [OF reads_punct [OF True]]] object_value(1) [OF d] show ?thesis by simp
    next
      case False
      with 2(3) s obj d have "skip_members n (d + 1) (skip_ws cs) = Some r" by simp
      from reads_append [OF opens reads_ws [OF 2(1) [OF s obj _ False this]]] d object_value(2) [OF d] show ?thesis by simp
    qed
  next
    case arr
    then have no: "c \<noteq> CHR ''{''" by simp
    from arr 2(3) s have d: "d < maxNestingDepth" by (auto split: if_splits)
    have opens: "reads (\<lambda>v. v = ''['') s cs" using reads_punct [of s c] arr by (simp add: s)
    show ?thesis
    proof (cases "take 1 (skip_ws cs) = '']''")
      case True
      with 2(3) s arr d have "r = drop 1 (skip_ws cs)" by simp
      with reads_append [OF opens reads_ws [OF reads_punct [OF True]]] object_value(3) [OF d] show ?thesis by simp
    next
      case False
      with 2(3) s arr d have "skip_elems n (d + 1) (skip_ws cs) = Some r" by simp
      from reads_append [OF opens reads_ws [OF 2(2) [OF s no arr _ False this]]] d object_value(4) [OF d] show ?thesis by simp
    qed
  next
    case scalar
    with 2(3) s show ?thesis by (intro reads_scalar)
  qed
next
  case (4 n d s)
  from 4(3) obtain k r1 r2 where t: "take 1 s = [CHR 0x22]" and k: "scan_str (drop 1 s) = Some (k, r1)" and c: "take 1 (skip_ws r1) = '':''"
    and v: "skip_value n d (skip_ws (drop 1 (skip_ws r1))) = Some r2" and fin: "(take 1 (skip_ws r2) = ''}'' \<and> r = drop 1 (skip_ws r2))
      \<or> (take 1 (skip_ws r2) \<noteq> ''}'' \<and> take 1 (skip_ws r2) = '','' \<and> skip_members n d (skip_ws (drop 1 (skip_ws r2))) = Some r)"
    by (rule skip_members_cases)
  note name = reads_string [OF t k] and colon = reads_ws [OF reads_punct [OF c]] and val = reads_ws [OF 4(1) [OF t k refl c v]]
  let ?member = "\<lambda>u. \<exists>k' w. scans k' \<and> value_of n d w \<and> u = CHR 0x22 # k' @ CHR 0x22 # CHR '':'' # w"
  have "reads (\<lambda>u. \<exists>w. value_of n d w \<and> u = CHR '':'' # w) r1 r2" by (rule reads_append [OF colon val]) auto
  from reads_append [OF name this, of ?member] have member: "reads ?member s r2" by (force simp: same_literal_def)
  show ?case
  proof (cases "take 1 (skip_ws r2) = ''}''")
    case True
    with fin have r: "r = drop 1 (skip_ws r2)" by simp
    show ?thesis unfolding r by (rule reads_append [OF member reads_ws [OF reads_punct [OF True]]]) (auto intro: members_last)
  next
    case False
    with fin have comma: "take 1 (skip_ws r2) = '',''" and r: "skip_members n d (skip_ws (drop 1 (skip_ws r2))) = Some r" by simp_all
    have "reads (\<lambda>u. \<exists>w. members_of n d w \<and> u = CHR '','' # w) r2 r"
      by (rule reads_append [OF reads_ws [OF reads_punct [OF comma]] reads_ws [OF 4(2) [OF t k refl c v False comma r]]]) auto
    from member this show ?thesis by (rule reads_append) (auto intro: members_more)
  qed
next
  case (6 n d s)
  from 6(3) obtain r2 where v: "skip_value n d s = Some r2" by (auto split: option.splits)
  note elem = 6(1) [OF v]
  show ?case
  proof (cases "take 1 (skip_ws r2) = '']''")
    case True
    with 6(3) v have r: "r = drop 1 (skip_ws r2)" by simp
    show ?thesis unfolding r by (rule reads_append [OF elem reads_ws [OF reads_punct [OF True]]]) (auto intro: elems_last)
  next
    case False
    with 6(3) v have comma: "take 1 (skip_ws r2) = '',''" and r: "skip_elems n d (skip_ws (drop 1 (skip_ws r2))) = Some r"
      by (auto split: if_splits)
    have "reads (\<lambda>u. \<exists>w. elems_of n d w \<and> u = CHR '','' # w) r2 r"
      by (rule reads_append [OF reads_ws [OF reads_punct [OF comma]] reads_ws [OF 6(2) [OF v False comma r]]]) auto
    with elem show ?thesis by (rule reads_append) (auto intro: elems_more)
  qed
qed simp_all

section \<open>A compacted text inside another\<close>

text \<open>Valid JSON with room for one more level of nesting.\<close>

definition embeddable :: "bytes \<Rightarrow> bool" where
  "embeddable p =
     (let s = skip_ws p
      in case skip_value (2 * length s + 1) 1 s of None \<Rightarrow> False | Some r \<Rightarrow> skip_ws r = [])"

lemma value_of_fuel: "value_of n d v \<Longrightarrow> starts v \<and> skip_value (2 * length v + 1) d v = Some []"
proof -
  assume v: "value_of n d v"
  let ?m = "max n (2 * length v + 1)"
  have "skip_value ?m d (v @ []) = Some []" using v unfolding value_of_def by (metis max.cobounded1)
  moreover have "skip_value ?m d v = skip_value (2 * length v + 1) d v" by (rule skip_value_fuel) simp
  ultimately show ?thesis using v by (simp add: value_of_def del: skip_value.simps)
qed

lemma value_ofD: "value_of n 1 v \<Longrightarrow> value_ok v"
  by (drule value_of_fuel) (simp add: value_ok_def starts_def del: skip_value.simps)

lemma compact_document:
  assumes "skip_value n d (skip_ws p) = Some r" and "skip_ws r = []"
  shows "value_of n d (compact False p)"
proof -
  from reads_compact [OF reads_ws [OF compact_keeps(1) [OF assms(1)]]] obtain v
    where v: "value_of n d v" "compact False p = v @ compact False r" by blast
  moreover have "compact False r = []" using compact_skip_ws [of r] assms(2) by simp
  ultimately show ?thesis by simp
qed

lemma compact_value_ok: "embeddable p \<Longrightarrow> value_ok (compact False p)"
  by (auto simp: embeddable_def Let_def simp del: skip_value.simps split: option.splits intro: value_ofD compact_document)

lemma compact_Valid: "Valid p \<Longrightarrow> Valid (compact False p)"
proof -
  assume "Valid p"
  then obtain n r where "skip_value n 0 (skip_ws p) = Some r" "skip_ws r = []"
    unfolding Valid_def Let_def by (auto simp del: skip_value.simps split: option.splits)
  from value_of_fuel [OF compact_document [OF this]] have v: "starts (compact False p)"
    "skip_value (2 * length (compact False p) + 1) 0 (compact False p) = Some []" by simp_all
  then have "skip_ws (compact False p) = compact False p" using starts_simps(1) [of "compact False p" "[]"] by simp
  with v(2) show ?thesis by (simp add: Valid_def Let_def skip_ws_def del: skip_value.simps)
qed

end
