(* ===== verification/Json_Redrive.thy ===== *)
theory Json_Redrive
  imports Json_Compact
begin

text \<open>
  Reading a compacted document: \<open>json.Unmarshal\<close> finds the same members, with compacted values, and
  decodes every field of an envelope to what it decoded from the document before.
\<close>

section \<open>Members\<close>

text \<open>A value text that starts with a quote is one string literal.\<close>

definition quoted :: "string \<Rightarrow> bool" where
  "quoted v \<longleftrightarrow> (\<forall>cs. v = CHR 0x22 # cs \<longrightarrow> (\<exists>k. scans k \<and> cs = k @ [CHR 0x22]))"

lemma value_text_reads:
  assumes sv: "skip_value n 1 u = Some r" and n: "2 * length u < n"
  shows "\<exists>v. u = v @ r \<and> value_text u = Some (v, r) \<and> compact False u = compact False v @ compact False r
    \<and> value_ok (compact False v) \<and> quoted v"
proof -
  from compact_keeps(1) [OF sv] obtain v where v: "u = v @ r" "apart v" "value_of n 1 (compact False v)"
    unfolding reads_def by blast
  have "skip_value (2 * length u + 1) 0 u = Some r"
    using skip_depth(1) [OF sv, of 0] skip_value_fuel [OF n, of 0] by (simp del: skip_value.simps)
  then have "value_text u = Some (v, r)" by (simp add: value_text_def v(1) del: skip_value.simps)
  moreover have "quoted v"
    unfolding quoted_def
  proof (intro allI impI)
    fix cs assume cs: "v = CHR 0x22 # cs"
    obtain n' where "n = Suc n'" using n by (cases n) auto
    with sv v(1) cs obtain k where "scan_str (cs @ r) = Some (k, r)" by auto
    from scan_str_split [OF this] show "\<exists>k. scans k \<and> cs = k @ [CHR 0x22]" by auto
  qed
  ultimately show ?thesis using v value_ofD [OF v(3)] by (auto simp: apart_def)
qed

lemma members_one:
  assumes "scan_str (drop 1 s) = Some (k, r)" and "value_text (skip_ws (drop 1 (skip_ws r))) = Some (v, r')"
  shows "members (Suc n) s =
    (unquote k, v) # (if take 1 (skip_ws r') = '','' then members n (skip_ws (drop 1 (skip_ws r'))) else [])"
  using assms by simp

lemma members_compact:
  "skip_members n 1 s = Some r \<Longrightarrow> 2 * length s < n \<Longrightarrow> length s \<le> m \<Longrightarrow> length (compact False s) \<le> m' \<Longrightarrow>
    members m' (compact False s) = map (apsnd (compact False)) (members m s) \<and> (\<forall>x \<in> set (members m s). quoted (snd x))"
proof (induction n arbitrary: s m m')
  case (Suc n)
  from Suc.prems(1) obtain k r1 r2 where t: "take 1 s = [CHR 0x22]" and k: "scan_str (drop 1 s) = Some (k, r1)"
    and c: "take 1 (skip_ws r1) = '':''" and v: "skip_value n 1 (skip_ws (drop 1 (skip_ws r1))) = Some r2"
    and fin: "(take 1 (skip_ws r2) = ''}'' \<and> r = drop 1 (skip_ws r2))
      \<or> (take 1 (skip_ws r2) \<noteq> ''}'' \<and> take 1 (skip_ws r2) = '','' \<and> skip_members n 1 (skip_ws (drop 1 (skip_ws r2))) = Some r)"
    by (rule skip_members_cases)
  let ?u = "skip_ws (drop 1 (skip_ws r1))" and ?s = "skip_ws (drop 1 (skip_ws r2))"
  have u: "length ?u + 2 \<le> length s" "length ?s < length ?u"
    using scan_str_shrinks [OF k] drop_take1 [OF t] drop_take1 [OF c] skip_shrinks(1) [OF v]
      length_skip_ws [of r1] length_skip_ws [of r2] length_skip_ws [of "drop 1 (skip_ws r1)"] length_skip_ws_drop [of 1 "skip_ws r2"]
    by simp_all
  with Suc.prems(2) have "2 * length ?u < n" by simp
  from value_text_reads [OF v this] obtain w where w: "?u = w @ r2" "value_text ?u = Some (w, r2)"
    "compact False ?u = compact False w @ compact False r2" "value_ok (compact False w)" "quoted w" by blast
  from scan_str_split [OF k] obtain k' where k': "same_literal k k'" using same_literal_ex by blast
  have s: "s = CHR 0x22 # k @ CHR 0x22 # r1" using t scan_str_split [OF k] by (cases s) auto
  let ?x = "compact False r2"
  have cs: "compact False s = CHR 0x22 # k' @ CHR 0x22 # CHR '':'' # compact False w @ ?x"
    using k' compact_take1 [OF c] w(3) by (simp add: s same_literal_def compact_quote compact_skip_ws del: compact.simps)
  have k'': "scan_str (drop 1 (compact False s)) = Some (k', CHR '':'' # compact False w @ ?x)" "unquote k' = unquote k"
    using k' by (simp_all add: cs same_literal_def scans_def)
  obtain m1 where m: "m = Suc m1" "length ?s \<le> m1" using Suc.prems(3) u by (cases m) auto
  obtain m2 where m': "m' = Suc m2" using Suc.prems(4) cs by (cases m') auto
  have members: "members m s = (unquote k, w) # (if take 1 (skip_ws r2) = '','' then members m1 ?s else [])"
    unfolding m(1) by (rule members_one [OF k w(2)])
  have after: "skip_ws (drop 1 (skip_ws (CHR '':'' # compact False w @ ?x))) = compact False w @ ?x"
    using w(4) skip_ws_hd [of "compact False w" ?x] by (simp add: skip_ws_Cons not_ws value_ok_def del: skip_value.simps)
  have compacted: "members m' (compact False s) = (unquote k, compact False w)
      # (if take 1 (skip_ws ?x) = '','' then members m2 (skip_ws (drop 1 (skip_ws ?x))) else [])" if "delim ?x"
    unfolding m' k''(2) [symmetric]
    by (rule members_one [OF k''(1)]) (simp only: after value_text_in_context [OF w(4) that])
  show ?case
  proof (cases "take 1 (skip_ws r2) = ''}''")
    case True
    then have x: "?x = CHR ''}'' # compact False (drop 1 (skip_ws r2))" using compact_take1 by simp
    then have "delim ?x" by simp
    from compacted [OF this] members True x w(5) show ?thesis by (simp add: skip_ws_Cons not_ws)
  next
    case False
    with fin have comma: "take 1 (skip_ws r2) = '',''" and rest: "skip_members n 1 ?s = Some r" by simp_all
    have x: "?x = CHR '','' # compact False ?s" using compact_take1 [OF comma] by (simp add: compact_skip_ws)
    from reads_compact [OF compact_keeps(2) [OF rest]] obtain y where "members_of n 1 y" "compact False ?s = y @ compact False r" by blast
    then have "skip_ws (compact False ?s) = compact False ?s" using starts_simps(1) by (simp add: members_of_def)
    then have "members m' (compact False s) = (unquote k, compact False w) # members m2 (compact False ?s)"
      using compacted x by (simp add: skip_ws_Cons not_ws)
    moreover have "length (compact False ?s) \<le> m2" using Suc.prems(4) cs x by (simp add: m')
    ultimately show ?thesis
      using Suc.IH [OF rest _ m(2)] Suc.prems(2) u members comma w(5) by simp
  qed
qed simp

text \<open>A document whose fields a reader sets by name: compacting it compacts what the reader sets.\<close>

lemma set_members_compact:
  assumes "\<And>f v e e'. quoted v \<Longrightarrow> set_one f v e = Inr e' \<Longrightarrow> set_one f (compact False v) (h e) = Inr (h e')"
  shows "\<forall>x \<in> set ms. quoted (snd x) \<Longrightarrow> set_members names set_one ms e = Inr e' \<Longrightarrow>
    set_members names set_one (map (apsnd (compact False)) ms) (h e) = Inr (h e')"
proof (induction ms arbitrary: e)
  case (Cons m ms)
  then show ?case using assms by (cases m) (fastforce split: option.splits sum.splits)
qed simp

lemma Unmarshal_struct_compact:
  assumes set_one: "\<And>f v e e'. quoted v \<Longrightarrow> set_one f v e = Inr e' \<Longrightarrow> set_one f (compact False v) (h e) = Inr (h e')"
    and zero: "h zero = zero" and p: "Unmarshal_struct names set_one zero p = Inr e"
  shows "Unmarshal_struct names set_one zero (compact False p) = Inr (h e)"
proof -
  let ?s = "skip_ws p"
  from p have valid: "Valid p" by (auto simp: Unmarshal_struct_def split: if_splits)
  then obtain r where r: "skip_value (Suc (2 * length ?s)) 0 ?s = Some r" "skip_ws r = []"
    unfolding Valid_def Let_def by (auto simp del: skip_value.simps split: option.splits)
  from value_of_fuel [OF compact_document [OF r]] have ws: "skip_ws (compact False p) = compact False p"
    using starts_simps(1) [of "compact False p" "[]"] by simp
  consider (null) u where "?s = ''null'' @ u" "e = zero"
    | (obj) cs where "?s = CHR ''{'' # cs" "set_members names set_one (object_members ?s) zero = Inr e"
  proof (cases "HasPrefix ?s ''null''")
    case True
    with p valid null show thesis using HasPrefix_split [of ?s "''null''"] by (auto simp: Unmarshal_struct_def)
  next
    case False
    with p valid obj show thesis by (cases ?s) (auto simp: Unmarshal_struct_def split: if_splits)
  qed
  then show ?thesis
  proof cases
    case null
    have "compact False p = ''null'' @ compact False u"
      using compact_skip_ws [of p] compact_kept_append [of "''null''" False u] null(1) by (simp add: kept_def is_ws_def)
    then show ?thesis using compact_Valid [OF valid] ws null(2) zero by (simp add: Unmarshal_struct_def HasPrefix_def)
  next
    case obj
    have cp: "compact False p = CHR ''{'' # compact False (skip_ws cs)"
      using compact_skip_ws [of p] compact_punct [of "CHR ''{''" cs] obj(1) by (simp add: compact_skip_ws)
    have members: "object_members (compact False p) = map (apsnd (compact False)) (object_members ?s)
        \<and> (\<forall>x \<in> set (object_members ?s). quoted (snd x))"
    proof (cases "take 1 (skip_ws cs) = ''}''")
      case True
      then have "compact False (skip_ws cs) = CHR ''}'' # compact False (drop 1 (skip_ws cs))"
        using compact_take1 [OF True] by (simp add: compact_skip_ws)
      with True cp obj(1) show ?thesis by (simp add: object_members_def skip_ws_Cons not_ws)
    next
      case False
      with r(1) obj(1) have m: "skip_members (2 * length ?s) 1 (skip_ws cs) = Some r" by (simp add: maxNestingDepth_def)
      from reads_compact [OF compact_keeps(2) [OF m]] obtain y
        where y: "members_of (2 * length ?s) 1 y" "compact False (skip_ws cs) = y @ compact False r" by blast
      then have st: "skip_ws (compact False (skip_ws cs)) = compact False (skip_ws cs)" "take 1 (compact False (skip_ws cs)) \<noteq> ''}''"
        using starts_simps(1,2) by (simp_all add: members_of_def)
      have "2 * length (skip_ws cs) < 2 * length ?s" "length (skip_ws cs) \<le> length ?s"
        using length_skip_ws [of cs] by (simp_all add: obj(1))
      from members_compact [OF m this, of "length (compact False p)"] have "members (length (compact False p)) (compact False (skip_ws cs))
          = map (apsnd (compact False)) (members (length ?s) (skip_ws cs)) \<and> (\<forall>x \<in> set (members (length ?s) (skip_ws cs)). quoted (snd x))"
        by (simp add: cp del: members.simps)
      with st False show ?thesis by (simp add: object_members_def cp obj(1) del: members.simps)
    qed
    have "set_members names set_one (object_members (compact False p)) (h zero) = Inr (h e)"
      using members obj(2) by (simp add: set_members_compact [where h = h and set_one = set_one] set_one)
    then show ?thesis
      using compact_Valid [OF valid] ws cp zero by (simp add: Unmarshal_struct_def HasPrefix_def)
  qed
qed

section \<open>Fields\<close>

lemma quoted_compact:
  assumes "quoted v" and "take 1 v = [CHR 0x22]"
  obtains k k' where "v = CHR 0x22 # k @ [CHR 0x22]" "same_literal k k'" "compact False v = CHR 0x22 # k' @ [CHR 0x22]"
proof -
  from assms obtain cs where v: "v = CHR 0x22 # cs" by (cases v) auto
  with assms(1) obtain k where k: "scans k" "cs = k @ [CHR 0x22]" by (auto simp: quoted_def)
  then obtain k' where k': "same_literal k k'" using same_literal_ex by blast
  then have "compact True (k @ CHR 0x22 # []) = k' @ CHR 0x22 # compact False []" unfolding same_literal_def by blast
  then show thesis using that [of k k'] k' by (simp add: v k(2) compact_quote del: compact.simps(2))
qed

lemma compact_null: "compact False ''null'' = ''null''"
  using compact_kept_append [of "''null''" False "[]"] by (simp add: kept_def is_ws_def del: compact.simps(2))

lemma decode_string_compact: "quoted v \<Longrightarrow> decode_string v old = Inr x \<Longrightarrow> decode_string (compact False v) old = Inr x"
proof (cases "v = ''null''")
  case False
  assume v: "quoted v" "decode_string v old = Inr x"
  with False have "take 1 v = [CHR 0x22]" by (auto simp: decode_string_def split: if_splits)
  from quoted_compact [OF v(1) this] obtain k k' where "v = CHR 0x22 # k @ [CHR 0x22]" "same_literal k k'"
    "compact False v = CHR 0x22 # k' @ [CHR 0x22]" by blast
  with v(2) show ?thesis by (simp add: decode_string_def same_literal_def)
qed (simp add: decode_string_def compact_null del: compact.simps)

text \<open>A time's text is of characters compaction does not touch.\<close>

lemma dec_field_kept:
  assumes "dec_field (take w (drop k s)) lo hi = Some n" and "k \<le> i" and "i < k + w" and "i < length s"
  shows "kept (s ! i)"
proof -
  have "take w (drop k s) ! (i - k) = s ! i" "i - k < length (take w (drop k s))" using assms(2-4) by (auto simp: nth_drop)
  then have "s ! i \<in> set (take w (drop k s))" by (metis nth_mem)
  with assms(1) show ?thesis by (auto simp: dec_field_def list_all_iff kept_digit split: if_splits)
qed

lemma kept_punct: "kept (CHR ''-'')" "kept (CHR '':'')" "kept (CHR ''T'')" "kept (CHR ''Z'')" "kept (CHR ''+'')" "kept (CHR ''.'')"
  by (simp_all add: kept_def is_ws_def)

lemma parse_zone_kept: "parse_zone z = Some off \<Longrightarrow> list_all kept z"
proof (cases "z = ''Z''")
  case False
  assume "parse_zone z = Some off"
  with False have len: "length z = 6" and sign: "z ! 0 = CHR ''+'' \<or> z ! 0 = CHR ''-''" "z ! 3 = CHR '':''"
    and "\<exists>h. dec_field (take 2 (drop 1 z)) 0 23 = Some h" "\<exists>m. dec_field (drop 4 z) 0 59 = Some m"
    by (auto simp: parse_zone_def split: if_splits option.splits)
  then obtain h m where f: "dec_field (take 2 (drop 1 z)) 0 23 = Some h" "dec_field (take 2 (drop 4 z)) 0 59 = Some m"
    using len by auto
  have "kept (z ! i)" if "i < 6" for i
  proof -
    have "i = 0 \<or> (1 \<le> i \<and> i < 1 + 2) \<or> i = 3 \<or> (4 \<le> i \<and> i < 4 + 2)" using that by linarith
    then consider "i = 0" | "1 \<le> i" "i < 1 + 2" | "i = 3" | "4 \<le> i" "i < 4 + 2" by blast
    then show ?thesis using sign kept_punct dec_field_kept [OF f(1)] dec_field_kept [OF f(2)] len by cases auto
  qed
  then show ?thesis using len by (simp add: list_all_length)
qed (simp add: kept_punct)

lemma parse_rfc3339_kept:
  assumes "parse_rfc3339 s = Some t"
  shows "list_all kept s"
proof -
  let ?r = "drop 19 s"
  let ?fr = "if take 1 ?r = ''.'' then takeWhile is_digit (drop 1 ?r) else []"
  let ?z = "if ?fr = [] then ?r else drop (Suc (length ?fr)) ?r"
  from assms have len: "19 \<le> length s"
    and p: "s ! 4 = CHR ''-''" "s ! 7 = CHR ''-''" "s ! 10 = CHR ''T''" "s ! 13 = CHR '':''" "s ! 16 = CHR '':''"
    by (auto simp: parse_rfc3339_def split: if_splits)
  have "\<exists>n. dec_field (take 4 s) 0 9999 = Some n" "\<exists>n. dec_field (take 2 (drop 5 s)) 1 12 = Some n"
    "\<exists>y n. dec_field (take 2 (drop 8 s)) 1 y = Some n" "\<exists>n. dec_field (take 2 (drop 11 s)) 0 23 = Some n"
    "\<exists>n. dec_field (take 2 (drop 14 s)) 0 59 = Some n" "\<exists>n. dec_field (take 2 (drop 17 s)) 0 59 = Some n"
    and "\<exists>off. parse_zone ?z = Some off"
    using assms len p by (auto simp: parse_rfc3339_def Let_def split: option.splits)
  then obtain y mo d h mi se l off where f: "dec_field (take 4 (drop 0 s)) 0 9999 = Some y" "dec_field (take 2 (drop 5 s)) 1 12 = Some mo"
    "dec_field (take 2 (drop 8 s)) 1 l = Some d" "dec_field (take 2 (drop 11 s)) 0 23 = Some h"
    "dec_field (take 2 (drop 14 s)) 0 59 = Some mi" "dec_field (take 2 (drop 17 s)) 0 59 = Some se" and z: "parse_zone ?z = Some off"
    unfolding drop_0 by blast
  have first: "kept (s ! i)" if "i < 19" for i
  proof -
    have "i < length s" using that len by simp
    note k = dec_field_kept [OF f(1) _ _ this] dec_field_kept [OF f(2) _ _ this] dec_field_kept [OF f(3) _ _ this]
      dec_field_kept [OF f(4) _ _ this] dec_field_kept [OF f(5) _ _ this] dec_field_kept [OF f(6) _ _ this]
    consider "i < 4" | "5 \<le> i" "i < 7" | "8 \<le> i" "i < 10" | "11 \<le> i" "i < 13" | "14 \<le> i" "i < 16" | "17 \<le> i"
      | "i \<in> {4, 7, 10, 13, 16}" using that by force
    then show ?thesis using k that p kept_punct by cases auto
  qed
  have rest: "list_all kept ?r"
  proof (cases "?fr = []")
    case True
    with parse_zone_kept [OF z] show ?thesis by simp
  next
    case False
    then have dot: "take 1 ?r = ''.''" by (auto split: if_splits)
    then obtain q where q: "?r = CHR ''.'' # q" by (cases ?r) auto
    with dot have fr: "?fr = takeWhile is_digit q" by simp
    with False q parse_zone_kept [OF z] have "list_all kept (drop (length (takeWhile is_digit q)) q)" by simp
    then have "list_all kept (dropWhile is_digit q)" by (simp add: dropWhile_eq_drop)
    then have "list_all kept q" using kept_digits [of q] takeWhile_dropWhile_id [of is_digit q] list_all_append by metis
    then show ?thesis by (simp add: q kept_punct)
  qed
  have "kept (s ! i)" if "i < length s" for i
  proof (cases "i < 19")
    case False
    then have "s ! i = ?r ! (i - 19)" "i - 19 < length ?r" using that by (auto simp: nth_drop)
    with rest show ?thesis by (simp add: list_all_length)
  qed (rule first)
  then show ?thesis by (simp add: list_all_length)
qed

lemma decode_time_compact: "quoted v \<Longrightarrow> decode_time v old = Inr x \<Longrightarrow> decode_time (compact False v) old = Inr x"
proof (cases "v = ''null''")
  case False
  assume v: "quoted v" "decode_time v old = Inr x"
  with False have t: "take 1 v = [CHR 0x22]" by (auto simp: decode_time_def split: if_splits)
  from quoted_compact [OF v(1) this] obtain k k' where k: "v = CHR 0x22 # k @ [CHR 0x22]" "same_literal k k'"
    "compact False v = CHR 0x22 # k' @ [CHR 0x22]" by blast
  with v(2) have "list_all kept k" by (intro parse_rfc3339_kept) (auto simp: decode_time_def split: option.splits)
  from compact_kept_append [OF this, of True "CHR 0x22 # []"] have "compact True (k @ CHR 0x22 # []) = k @ CHR 0x22 # compact False []"
    by (simp only: compact_quote)
  moreover have "compact True (k @ CHR 0x22 # []) = k' @ CHR 0x22 # compact False []" using k(2) unfolding same_literal_def by blast
  ultimately have "compact False v = v" using k(1,3) by simp
  with v(2) show ?thesis by simp
qed (simp add: decode_time_def compact_null del: compact.simps)

lemma map_sum_InrE: "map_sum id f r = Inr y \<Longrightarrow> (\<And>x. r = Inr x \<Longrightarrow> y = f x \<Longrightarrow> thesis) \<Longrightarrow> thesis"
  by (cases r) auto

lemma set_field_compact:
  assumes "quoted v" and "set_field f v e = Inr e'"
  shows "set_field f (compact False v) (e\<lparr>ev_Payload := compact False (ev_Payload e)\<rparr>)
    = Inr (e'\<lparr>ev_Payload := compact False (ev_Payload e')\<rparr>)"
  using assms
  by (auto simp: set_field_def decode_string_compact decode_time_compact simp del: compact.simps split: if_splits
      elim!: map_sum_InrE)

theorem Unmarshal_envelope_compact:
  assumes "Unmarshal_envelope p = Inr e"
  shows "Unmarshal_envelope (compact False p) = Inr (e\<lparr>ev_Payload := compact False (ev_Payload e)\<rparr>)"
  using assms unfolding Unmarshal_envelope_def
  by (intro Unmarshal_struct_compact [where h = "\<lambda>e. e\<lparr>ev_Payload := compact False (ev_Payload e)\<rparr>"] set_field_compact)
    (simp_all add: zero_envelope_def)

end
