(* ===== verification/Dead_Letters.thy ===== *)
theory Dead_Letters
  imports Messagingtest Json_Roundtrip Json_Redrive Delivery_Sink
begin

text \<open>
  The dead-letter document of \<open>dlq.go\<close> written and read back: base64, the numbers and the compacted event.
\<close>

section \<open>Base64\<close>

lemma ord_b64_char:
  "n < 26 \<Longrightarrow> ord (b64_char n) = 65 + n" "26 \<le> n \<Longrightarrow> n < 52 \<Longrightarrow> ord (b64_char n) = 71 + n"
  "52 \<le> n \<Longrightarrow> n < 62 \<Longrightarrow> ord (b64_char n) = n - 4" "n = 62 \<Longrightarrow> ord (b64_char n) = 43" "n = 63 \<Longrightarrow> ord (b64_char n) = 47"
  by (simp_all add: b64_char_def)

lemma ord_neq: "ord c \<noteq> ord d \<Longrightarrow> c \<noteq> d"
  by blast

lemma b64_char:
  assumes "n < 64"
  shows "b64_value (b64_char n) = Some n" "kept (b64_char n)" "b64_char n \<noteq> CHR ''=''"
proof -
  have word: "kept c \<and> c \<noteq> CHR ''=''" if "48 \<le> ord c" "ord c \<noteq> 92" "ord c < 128" "ord c < 60 \<or> 62 < ord c" for c
    using that by (auto simp: kept_def is_ws_def)
  consider "n < 26" | "26 \<le> n" "n < 52" | "52 \<le> n" "n < 62" | "n = 62" | "n = 63" using assms by linarith
  then have "b64_value (b64_char n) = Some n \<and> kept (b64_char n) \<and> b64_char n \<noteq> CHR ''=''"
  proof cases
    case 1
    with ord_b64_char(1) [OF 1] word [of "b64_char n"] show ?thesis by (simp add: b64_value_def ord_in_def is_digit_def)
  next
    case 2
    with ord_b64_char(2) [OF 2] word [of "b64_char n"] show ?thesis by (simp add: b64_value_def ord_in_def is_digit_def)
  next
    case 3
    then have "48 \<le> n - 4" "n - 4 \<le> 57" "Suc (Suc (Suc (Suc (n - 4)))) = n" by linarith+
    with 3 ord_b64_char(3) [OF 3] word [of "b64_char n"] show ?thesis by (simp add: b64_value_def ord_in_def is_digit_def)
  next
    case 4
    then show ?thesis by (simp add: b64_char_def b64_value_def ord_in_def is_digit_def kept_def is_ws_def)
  next
    case 5
    then show ?thesis by (simp add: b64_char_def b64_value_def ord_in_def is_digit_def kept_def is_ws_def)
  qed
  then show "b64_value (b64_char n) = Some n" "kept (b64_char n)" "b64_char n \<noteq> CHR ''=''" by simp_all
qed

lemma ord_split: "ord (c :: char) div 4 < 64" "ord c div 16 < 16" "ord c div 64 < 4" "ord c < 256"
  using ord_less_256 [of c] by (simp_all add: less_mult_imp_div_less)

lemma char_of_digits:
  "char_of (4 * (ord a div 4) + ord a mod 4 * 16 div 16) = a"
  "char_of (4 * (ord a div 4) + (ord a mod 4 * 16 + ord b div 16) div 16) = a"
  "char_of ((ord a mod 4 * 16 + ord b div 16) mod 16 * 16 + (ord b mod 16 * 4) div 4) = b"
  "char_of ((ord a mod 4 * 16 + ord b div 16) mod 16 * 16 + (ord b mod 16 * 4 + ord c div 64) div 4) = b"
  "char_of ((ord b mod 16 * 4 + ord c div 64) mod 4 * 64 + ord c mod 64) = c"
proof -
  have id: "char_of (ord x) = x" for x :: char by simp
  have "4 * (ord a div 4) + ord a mod 4 * 16 div 16 = ord a" by simp
  then show "char_of (4 * (ord a div 4) + ord a mod 4 * 16 div 16) = a" by (simp only: id)
  have "(ord a mod 4 * 16 + ord b div 16) div 16 = ord a mod 4" using ord_split(2) [of b] by simp
  then have "4 * (ord a div 4) + (ord a mod 4 * 16 + ord b div 16) div 16 = ord a" by simp
  then show "char_of (4 * (ord a div 4) + (ord a mod 4 * 16 + ord b div 16) div 16) = a" by (simp only: id)
  have m: "(ord a mod 4 * 16 + ord b div 16) mod 16 = ord b div 16" using ord_split(2) [of b] by simp
  then have "(ord a mod 4 * 16 + ord b div 16) mod 16 * 16 + (ord b mod 16 * 4) div 4 = ord b" by simp
  then show "char_of ((ord a mod 4 * 16 + ord b div 16) mod 16 * 16 + (ord b mod 16 * 4) div 4) = b" by (simp only: id)
  have "(ord b mod 16 * 4 + ord c div 64) div 4 = ord b mod 16" using ord_split(3) [of c] by simp
  then have "(ord a mod 4 * 16 + ord b div 16) mod 16 * 16 + (ord b mod 16 * 4 + ord c div 64) div 4 = ord b" by (simp only: m) simp
  then show "char_of ((ord a mod 4 * 16 + ord b div 16) mod 16 * 16 + (ord b mod 16 * 4 + ord c div 64) div 4) = b" by (simp only: id)
  have "(ord b mod 16 * 4 + ord c div 64) mod 4 = ord c div 64" using ord_split(3) [of c] by simp
  then have "(ord b mod 16 * 4 + ord c div 64) mod 4 * 64 + ord c mod 64 = ord c" by simp
  then show "char_of ((ord b mod 16 * 4 + ord c div 64) mod 4 * 64 + ord c mod 64) = c" by (simp only: id)
qed

lemma sextets:
  "ord a div 4 < 64" "ord a mod 4 * 16 < 64" "ord a mod 4 * 16 + ord b div 16 < 64" "ord b mod 16 * 4 < 64"
  "ord b mod 16 * 4 + ord c div 64 < 64" "ord c mod 64 < 64"
proof -
  have "ord a mod 4 < 4" "ord b mod 16 < 16" by simp_all
  then show "ord a mod 4 * 16 < 64" "ord a mod 4 * 16 + ord b div 16 < 64" "ord b mod 16 * 4 < 64"
    "ord b mod 16 * 4 + ord c div 64 < 64" using ord_split(2) [of b] ord_split(3) [of c] by linarith+
qed (simp_all add: ord_split)

lemma b64_decode_base64: "b64_decode (base64 bs) = Some bs"
proof (induction bs rule: base64.induct)
  case (2 a)
  show ?case using char_of_digits(1) [of a] by (simp add: b64_char sextets Let_def)
next
  case (3 a b)
  show ?case
    using char_of_digits(2) [of a b] char_of_digits(3) [of a b]
    by (simp add: b64_char sextets Let_def)
next
  case (4 a b c r)
  then show ?case
    using char_of_digits(2) [of a b] char_of_digits(4) [of a b c] char_of_digits(5) [of b c]
    by (simp add: b64_char sextets Let_def)
qed simp

lemma base64_kept: "list_all kept (base64 bs)"
  by (induction bs rule: base64.induct) (simp_all add: b64_char sextets, simp_all add: kept_def is_ws_def)

section \<open>The values of a dead letter\<close>

lemma format_nat_hd: "n \<noteq> 0 \<Longrightarrow> hd (format_nat n) \<noteq> CHR ''0''"
proof (induction n rule: format_nat.induct)
  case (1 n)
  show ?case
  proof (cases "n < 10")
    case True
    then have "digit_value (digit_char n) = n" by simp
    then have "digit_char n \<noteq> CHR ''0''" using 1(2) by (auto simp: digit_value_def)
    with True show ?thesis by (simp add: format_nat.simps [of n])
  next
    case False
    with 1 show ?thesis by (simp add: format_nat.simps [of n])
  qed
qed

lemma scan_format_nat: "(case format_nat n of [] \<Rightarrow> None | c # u \<Rightarrow> if c = CHR ''0'' then scan_frac u
      else if is_digit c then scan_frac (dropWhile is_digit u) else None) = Some []"
proof (cases "n = 0")
  case True
  then show ?thesis by (simp add: format_nat.simps digit_char_def scan_frac_def is_digit_def)
next
  case False
  obtain c u where f: "format_nat n = c # u" by (cases "format_nat n") auto
  then have c: "is_digit c" "c \<noteq> CHR ''0''" and u: "dropWhile is_digit u = []"
    using format_nat_digits [of n] format_nat_hd [OF False] by (simp_all add: list_all_iff)
  have "scan_frac (dropWhile is_digit u) = Some []" unfolding u by (simp add: scan_frac_def)
  with c show ?thesis by (simp add: f)
qed

lemma scan_FormatInt: "scan_number (FormatInt i) = Some []"
proof -
  obtain c u where f: "format_nat (nat i) = c # u" by (cases "format_nat (nat i)") auto
  then have "c \<noteq> CHR ''-''" using format_nat_digits [of "nat i"] by (auto simp: is_digit_def)
  then show ?thesis using scan_format_nat [of "nat (- i)"] scan_format_nat [of "nat i"]
    by (auto simp: scan_number_def FormatInt_def f)
qed

lemma FormatInt_value: "value_ok (FormatInt i)" "FormatInt i \<noteq> ''null''"
proof -
  have "FormatInt i \<noteq> [] \<and> (hd (FormatInt i) = CHR ''-'' \<or> is_digit (hd (FormatInt i)))"
    using format_nat_digits [of "nat i"] by (cases "format_nat (nat i)") (auto simp: FormatInt_def)
  then show "value_ok (FormatInt i)" by (blast intro: value_ofD number_value scan_FormatInt)
  show "FormatInt i \<noteq> ''null''"
    using scan_FormatInt [of i] by (auto simp: scan_number_def is_digit_def)
qed

lemma decode_FormatInt: "int64 i \<Longrightarrow> decode_int (FormatInt i) old = Inr i"
  by (simp add: decode_int_def FormatInt_value ParseInt_FormatInt)

lemma kept_plain: "list_all kept s \<Longrightarrow> list_all plain s \<and> unquote s = s"
proof (induction s)
  case (Cons c s)
  then have c: "ord c < 128" "c \<noteq> CHR 0x5C" by (auto simp: kept_def)
  then show ?case using Cons unquote_plain [of c s] by (auto simp: kept_def plain_def)
qed simp

lemma Marshal_bytes_decodes:
  "value_ok (Marshal_bytes bs)" "decode_bytes (Marshal_bytes bs) old = Inr bs"
proof -
  note k = kept_plain [OF base64_kept [of bs]]
  show "value_ok (Marshal_bytes bs)"
    unfolding Marshal_bytes_def by (rule value_ok_quoted [OF scans_plain [OF k [THEN conjunct1]]])
  have "\<forall>c \<in> set (base64 bs). c \<noteq> CHR 0x0A \<and> c \<noteq> CHR 0x0D"
    using base64_kept [of bs] by (auto simp: list_all_iff kept_def is_ws_def)
  then have "filter (\<lambda>c. c \<noteq> CHR 0x0A \<and> c \<noteq> CHR 0x0D) (unquote (base64 bs)) = base64 bs"
    unfolding k [THEN conjunct2] by (rule filter_True)
  then show "decode_bytes (Marshal_bytes bs) old = Inr bs"
    by (simp add: Marshal_bytes_def decode_bytes_def b64_decode_base64)
qed

section \<open>A dead letter read back\<close>

definition letter_as_read :: "DeadLetter \<Rightarrow> DeadLetter" where
  "letter_as_read d =
     d\<lparr>dl_Reason := to_valid (dl_Reason d), dl_Error := to_valid (dl_Error d),
       dl_ConsumerGroup := to_valid (dl_ConsumerGroup d), dl_ConsumerName := to_valid (dl_ConsumerName d),
       dl_OriginalTopic := to_valid (dl_OriginalTopic d), dl_Event := compact False (dl_Event d)\<rparr>"

lemma letter_decodes:
  assumes m: "Marshal_dead_letter dl = Inr body" and z: "zone_offset (dl_DeadLetteredAt dl) mod 60 = 0"
    and n: "int64 (dl_DeliveryAttempts dl)" and e: "dl_Event dl = [] \<or> embeddable (dl_Event dl)"
  shows "Valid body" and "Unmarshal_dead_letter body = Inr (letter_as_read dl)"
proof -
  from m obtain at ev where at: "Marshal_time (dl_DeadLetteredAt dl) = Inr at"
    and ev: "(if dl_Event dl = [] then Inr [] else Marshal_raw (dl_Event dl)) = Inr ev"
    by (auto simp: Marshal_dead_letter_def split: sum.splits)
  let ?ms = "[(''dead_lettered_at'', at), (''reason'', Marshal_string (dl_Reason dl)), (''error'', Marshal_string (dl_Error dl)),
      (''delivery_attempts'', FormatInt (dl_DeliveryAttempts dl)), (''consumer_group'', Marshal_string (dl_ConsumerGroup dl)),
      (''consumer_name'', Marshal_string (dl_ConsumerName dl)), (''original_topic'', Marshal_string (dl_OriginalTopic dl))]
      @ (if dl_Event dl = [] then [] else [(''event'', ev)])
      @ (if dl_EventRaw dl = [] then [] else [(''event_raw'', Marshal_bytes (dl_EventRaw dl))])"
  have body: "body = Marshal_object ?ms" using m at ev by (simp add: Marshal_dead_letter_def)
  have ev': "dl_Event dl \<noteq> [] \<Longrightarrow> ev = compact False (dl_Event dl)" using ev by (auto simp: Marshal_raw_def split: if_splits)
  have ok: "value_ok v" if "(k, v) \<in> set ?ms" for k v
    using that time_decodes(1) [OF at z] e ev' compact_value_ok
    by (auto simp: value_ok_string FormatInt_value Marshal_bytes_decodes split: if_splits)
  show "Valid body" unfolding body by (rule Marshal_object_decodes(1)) (simp, rule ok)
  have "Unmarshal_dead_letter body = set_members letter_fields set_letter_field ?ms zero_letter"
    unfolding body Unmarshal_dead_letter_def by (intro Unmarshal_object ok) (auto split: if_splits)
  also have "\<dots> = Inr (letter_as_read dl)"
    using ev' n by (cases dl; cases "dl_Event dl = []"; cases "dl_EventRaw dl = []")
      (simp_all add: find_name_own letter_fields_def set_letter_field_def decode_Marshal_string time_decodes(2) [OF at z]
        decode_FormatInt Marshal_bytes_decodes zero_letter_def letter_as_read_def)
  finally show "Unmarshal_dead_letter body = Inr (letter_as_read dl)" .
qed

lemma Valid_Nil: "\<not> Valid []"
  by (simp add: Valid_def skip_ws_def)

lemma letter_cause_reason:
  "letter_cause c topic payload md reason cause \<Longrightarrow> to_valid reason = reason"
  by (intro to_valid_ascii) (auto simp: letter_cause_def reason_defs split: decision.splits)

text \<open>The consumer's document read back.\<close>

lemma consumer_letter_read:
  assumes m: "Marshal_dead_letter (consumer_letter c topic payload md reason cause at) = Inr body"
    and "letter_cause c topic payload md reason cause"
    and "Valid payload \<and> reason \<noteq> ReasonDeserializationFailed \<Longrightarrow> embeddable payload"
  shows "Valid body \<and> Unmarshal_dead_letter body = Inr (letter_as_read (consumer_letter c topic payload md reason cause at))"
proof -
  let ?dl = "consumer_letter c topic payload md reason cause at"
  have "int64 (deliveryAttempt md)"
    using ParseInt_bounds [of "md_get md MetadataDeliveryAttempt"] by (auto simp: deliveryAttempt_def int64_def split: sum.split)
  moreover have "zone_offset (dl_DeadLetteredAt ?dl) mod 60 = 0" "dl_DeliveryAttempts ?dl = deliveryAttempt md"
    "dl_Event ?dl = [] \<or> embeddable (dl_Event ?dl)"
    using assms(3) by (simp_all add: consumer_letter_def UTC_def deadLetterBody_def Let_def)
  ultimately show ?thesis using letter_decodes [OF m] by simp
qed

text \<open>
  C8. A dead letter keeps the event. Take any document a dead-letter sink accepts from a delivery. It is
  valid JSON on the topic's \<open>.dlq\<close> stream, and reading it back gives why this message was given up
  (\<open>letter_cause\<close>: reason and error), how often it was delivered, by which group and consumer and on
  which topic, and its bytes: of an event that was read, or over the cap, in \<open>event\<close>, compacted, when
  they are JSON (with a level of nesting to spare), and in \<open>event_raw\<close> unchanged when they are not; of
  one that could not be read always in \<open>event_raw\<close>, unchanged; never in both. And if the consumer could
  decode the event, what \<open>event\<close> holds, published again, decodes to the same envelope.
\<close>

theorem dead_letter_keeps_event:
  assumes "dispatch rt c ctx topic payload md w = (res, w')" and "inst_live (co_inst c)" and "logs_letters log rt c ctx"
    and "log (outside w') = log (outside w) @ ds" and "(stream, body) \<in> set ds" and "Valid payload \<Longrightarrow> embeddable payload"
  shows "stream = streamName c topic @ ''.dlq'' \<and> Valid body
    \<and> (\<exists>l cause. Unmarshal_dead_letter body = Inr l \<and> letter_cause c topic payload md (dl_Reason l) cause
        \<and> dl_Error l = to_valid (Error cause) \<and> dl_DeliveryAttempts l = deliveryAttempt md
        \<and> dl_OriginalTopic l = to_valid topic \<and> dl_ConsumerGroup l = to_valid (cc_Group (cfg_Consumer (co_cfg c)))
        \<and> dl_ConsumerName l = to_valid (cc_ConsumerName (cfg_Consumer (co_cfg c)))
        \<and> (if dl_Reason l \<noteq> ''deserialization_failed'' \<and> Valid payload
           then dl_Event l = compact False payload \<and> dl_EventRaw l = []
             \<and> (\<forall>env. Unmarshal_envelope payload = Inr env \<longrightarrow>
                  Unmarshal_envelope (dl_Event l) = Inr (env\<lparr>ev_Payload := compact False (ev_Payload env)\<rparr>))
           else dl_Event l = [] \<and> dl_EventRaw l = payload))"
proof -
  from dispatch_files [OF assms(1-3)] assms(4,5) have "filed c topic payload md (stream, body)" by auto
  then obtain reason cause at where s: "stream = dlqStream c topic" and cause: "letter_cause c topic payload md reason cause"
    and m: "Marshal_dead_letter (consumer_letter c topic payload md reason cause at) = Inr body"
    by (auto simp: filed_def)
  let ?l = "letter_as_read (consumer_letter c topic payload md reason cause at)"
  have read: "Valid body" "Unmarshal_dead_letter body = Inr ?l"
    using consumer_letter_read [OF m cause] assms(6) by simp_all
  have reason: "dl_Reason ?l = reason"
    using letter_cause_reason [OF cause] by (simp add: letter_as_read_def consumer_letter_def Let_def)
  have fields: "dl_Error ?l = to_valid (Error cause)" "dl_DeliveryAttempts ?l = deliveryAttempt md"
    "dl_OriginalTopic ?l = to_valid topic" "dl_ConsumerGroup ?l = to_valid (cc_Group (cfg_Consumer (co_cfg c)))"
    "dl_ConsumerName ?l = to_valid (cc_ConsumerName (cfg_Consumer (co_cfg c)))"
    by (simp_all add: letter_as_read_def consumer_letter_def Let_def)
  have bytes: "if reason \<noteq> ''deserialization_failed'' \<and> Valid payload
      then dl_Event ?l = compact False payload \<and> dl_EventRaw ?l = [] else dl_Event ?l = [] \<and> dl_EventRaw ?l = payload"
    by (simp add: letter_as_read_def consumer_letter_def deadLetterBody_def reason_defs Let_def)
  have again: "Unmarshal_envelope (compact False payload) = Inr (env\<lparr>ev_Payload := compact False (ev_Payload env)\<rparr>)"
    if "Unmarshal_envelope payload = Inr env" for env
    using that by (rule Unmarshal_envelope_compact)
  have "letter_cause c topic payload md (dl_Reason ?l) cause" using cause reason by simp
  then show ?thesis
    using s read fields bytes again by (intro conjI exI [of _ ?l] exI [of _ cause]) (auto simp: dlqStream_def reason simp del: compact.simps)
qed

lemma braces_ok: "Valid ''{ }'' \<and> embeddable ''{ }'' \<and> compact False ''{ }'' = ''{}''"
proof -
  have v: "Valid ''{ }''" and e: "embeddable ''{ }''" by code_simp+
  moreover have "compact False ''{ }'' = ''{}''" by (simp add: is_line_sep_def is_ws_def)
  ultimately show ?thesis by blast
qed

lemma braces_read: "Unmarshal_envelope ''{ }'' = Inr zero_envelope"
proof -
  have "object_members ''{ }'' = []" by code_simp
  then show ?thesis using braces_ok by (simp add: Unmarshal_envelope_def Unmarshal_struct_def HasPrefix_def skip_ws_Cons not_ws)
qed

text \<open>The sixth delivery of an event, over the cap of five, to a consumer whose sink keeps what it is given.\<close>

theorem dead_letter_keeps_event_witness:
  "\<exists>body l. outside (snd (shelf_run ''{ }'')) = [(streamName shelf_consumer ''t'' @ ''.dlq'', body)]
     \<and> Unmarshal_dead_letter body = Inr l \<and> dl_Event l = ''{}'' \<and> dl_Reason l = ''max_attempts_exceeded''
     \<and> dl_DeliveryAttempts l = 6 \<and> dl_OriginalTopic l = ''t'' \<and> Unmarshal_envelope (dl_Event l) = Inr zero_envelope"
proof -
  obtain body where b: "outside (snd (shelf_run ''{ }'')) = [(dlqStream shelf_consumer ''t'', body)]" using shelf_accepts by blast
  have live: "inst_live (co_inst shelf_consumer)" by (simp add: shelf_consumer_def)
  have logged: "id (outside (snd (shelf_run ''{ }''))) = id (outside (start_world ([] :: shelf))) @ [(dlqStream shelf_consumer ''t'', body)]"
    by (simp add: b start_world_def)
  have "to_valid ''t'' = ''t''" by (intro to_valid_ascii) simp
  with dead_letter_keeps_event [OF prod.collapse [symmetric] live shelf_logs logged [unfolded shelf_run_def], of "dlqStream shelf_consumer ''t''" body]
    braces_ok
  obtain l cause where l: "Unmarshal_dead_letter body = Inr l" "letter_cause shelf_consumer ''t'' ''{ }'' (attempt_md 6) (dl_Reason l) cause"
    "dl_DeliveryAttempts l = 6" "dl_OriginalTopic l = ''t''"
    and bytes: "if dl_Reason l \<noteq> ''deserialization_failed'' \<and> Valid ''{ }''
      then dl_Event l = compact False ''{ }'' \<and> dl_EventRaw l = []
        \<and> (\<forall>env. Unmarshal_envelope ''{ }'' = Inr env \<longrightarrow>
             Unmarshal_envelope (dl_Event l) = Inr (env\<lparr>ev_Payload := compact False (ev_Payload env)\<rparr>))
      else dl_Event l = [] \<and> dl_EventRaw l = ''{ }''"
    by (auto simp del: compact.simps)
  have "dl_Reason l = ''max_attempts_exceeded''"
    using l(2) by (simp add: letter_cause_def shelf_capped reason_defs)
  moreover from this bytes braces_ok have "dl_Event l = ''{}''"
    "\<And>env. Unmarshal_envelope ''{ }'' = Inr env \<Longrightarrow>
       Unmarshal_envelope (dl_Event l) = Inr (env\<lparr>ev_Payload := compact False (ev_Payload env)\<rparr>)"
    by (auto simp del: compact.simps)
  moreover note this(2) [OF braces_read]
  moreover have "zero_envelope\<lparr>ev_Payload := compact False (ev_Payload zero_envelope)\<rparr> = zero_envelope" by (simp add: zero_envelope_def)
  ultimately show ?thesis using b l by (auto simp: dlqStream_def simp del: compact.simps)
qed

end
