(* ===== verification/Examples.thy ===== *)
theory Examples
  imports Undecodable
begin

text \<open>
  The example programs: \<open>examples/consumer\<close>, a service from its configuration to its exit status, and
  \<open>examples/telemetry\<close>, whose lists copy the instrument set of \<open>telemetry.go\<close>.
\<close>

section \<open>examples/consumer\<close>

record DocumentCreatedPayload =
  dc_EntityID :: string
  dc_Name :: string

definition DocumentCreated :: EventDef where
  "DocumentCreated = \<lparr>def_Topic = ''documents'', def_Type = ''document.created'', def_Version = ''1.0.0''\<rparr>"

text \<open>
  What the example does outside the library is in the first component of the outside state: the
  lines of its own logger.
\<close>

type_synonym 'v app = "log_line list \<times> 'v"

definition app_log :: "level \<Rightarrow> string \<Rightarrow> (string \<times> attr_value) list \<Rightarrow> 'v app \<Rightarrow> 'v app" where
  "app_log l msg as a = (fst a @ [\<lparr>ll_level = l, ll_msg = msg, ll_attrs = as\<rparr>], snd a)"

definition documentHandler_Handle :: "(DocumentCreatedPayload, 'v app) Handler" where
  "documentHandler_Handle ctx env a =
     (Ret None, app_log LInfo ''document created''
        [(''event_id'', AStr (ev_EventID env)), (''correlation_id'', AStr (ev_CorrelationID env)),
         (''name'', AStr (dc_Name (ev_Payload env)))] a)"

definition document_fields :: "string list" where
  "document_fields = [''entity_id'', ''name'']"

definition set_document_field :: "string \<Rightarrow> string \<Rightarrow> DocumentCreatedPayload \<Rightarrow> goerr + DocumentCreatedPayload" where
  "set_document_field f v d =
     (if f = ''entity_id'' then map_sum id (\<lambda>x. d\<lparr>dc_EntityID := x\<rparr>) (decode_string v (dc_EntityID d))
      else map_sum id (\<lambda>x. d\<lparr>dc_Name := x\<rparr>) (decode_string v (dc_Name d)))"

definition no_document :: DocumentCreatedPayload where
  "no_document = \<lparr>dc_EntityID = [], dc_Name = []\<rparr>"

definition Unmarshal_document :: "bytes \<Rightarrow> goerr + DocumentCreatedPayload" where
  "Unmarshal_document = Unmarshal_struct document_fields set_document_field no_document"

text \<open>\<open>getenv\<close> is \<open>os.Getenv\<close>.\<close>

definition example_config :: "(string \<Rightarrow> string) \<Rightarrow> Config" where
  "example_config getenv =
     \<lparr>cfg_Source = ''documents.service'', cfg_StreamPrefix = [],
      cfg_Redis = \<lparr>rc_Address = getenv ''REDIS_ADDRESS'', rc_Username = getenv ''REDIS_USER'',
                   rc_Password = getenv ''REDIS_PASSWORD'', rc_TLS = None, rc_DB = 0, rc_PoolSize = 0\<rparr>,
      cfg_Consumer = \<lparr>cc_Group = ''documents-service'', cc_ConsumerName = [], cc_Concurrency = 0,
                      cc_ClaimInterval = 0, cc_ClaimMinIdle = 0, cc_MaxDeliveryAttempts = 0, cc_ShutdownTimeout = 0\<rparr>,
      cfg_Retry = \<lparr>rt_MaxImmediateRetries = 0, rt_InitialBackoff = 0, rt_MaxBackoff = 0\<rparr>,
      cfg_Telemetry = \<lparr>tc_TracerProvider = None, tc_MeterProvider = None, tc_Propagator = None,
                       tc_Logger = None, tc_LogPayloads = False\<rparr>\<rparr>"

text \<open>
  \<open>main\<close>, with the exit status of the process. \<open>os.Exit\<close> skips the deferred \<open>Close\<close>; what \<open>Close\<close>
  would close is numbered as in \<open>Run\<close>.
\<close>

definition exit_1 :: "string \<Rightarrow> goerr \<Rightarrow> 'v app world \<Rightarrow> int \<times> 'v app world" where
  "exit_1 msg err w = (1, w\<lparr>outside := app_log LError msg [(''error'', AErr err)] (outside w)\<rparr>)"

definition close_consumer :: "(nat \<Rightarrow> 'v app \<Rightarrow> goerr option \<times> 'v app) \<Rightarrow> 'v app consumer \<Rightarrow> 'v app world \<Rightarrow> 'v app world" where
  "close_consumer close_client c w =
     (case Close close_client c (outside w) of
        (None, _, a) \<Rightarrow> w\<lparr>outside := a\<rparr>
      | (Some err, _, a) \<Rightarrow> w\<lparr>outside := app_log LError ''closing consumer'' [(''error'', AErr err)] a\<rparr>)"

definition consumer_main ::
    "(collaborator \<Rightarrow> meter) \<Rightarrow> int \<Rightarrow> goerr + string \<Rightarrow> goerr + bytes \<Rightarrow> (string \<Rightarrow> string) \<Rightarrow> 'v app run_env
     \<Rightarrow> 'v app world \<Rightarrow> int \<times> 'v app world" where
  "consumer_main meter_of gomaxprocs hostname suffix getenv re w =
     (case NewConsumer meter_of gomaxprocs hostname suffix (example_config getenv) w of
        (Inl err, w) \<Rightarrow> exit_1 ''creating consumer'' err w
      | (Inr c, w) \<Rightarrow>
          (case RegisterHandler no_document Unmarshal_document DocumentCreated documentHandler_Handle c of
             (Some err, _) \<Rightarrow> exit_1 ''registering handler'' err w
           | (None, c) \<Rightarrow>
               (case Run re c w of
                  (Some err, _, w) \<Rightarrow> exit_1 ''running consumer'' err w
                | (None, c, w) \<Rightarrow> (0, close_consumer (re_close_client re) c w))))"

section \<open>The example service starts and stops\<close>

lemma DocumentCreated_ok:
  "validateEventDef DocumentCreated = None" "majorVersion (def_Version DocumentCreated) = Inr 1"
proof -
  have "segment ''document''" "segment ''created''"
    by (simp_all add: segment_def lower_def word_char_def)
  then have "event_type_ok (''document'' @ ''.'' @ ''created'')" unfolding event_type_ok_def by blast
  then show "validateEventDef DocumentCreated = None"
    using sample_def_ok(1) by (simp add: validateEventDef_None DocumentCreated_def sample_def_def)
  show "majorVersion (def_Version DocumentCreated) = Inr 1"
    using sample_def_ok(2) by (simp add: DocumentCreated_def sample_def_def)
qed

text \<open>A fresh consumer with the example's handler registered.\<close>

definition with_document_handler :: "'v app consumer \<Rightarrow> 'v app consumer" where
  "with_document_handler c =
     c\<lparr>co_registry := \<lparr>reg_typed = [(\<lparr>rk_topic = ''documents'', rk_eventType = ''document.created'', rk_major = 1\<rparr>,
          typedDispatch no_document Unmarshal_document documentHandler_Handle)], reg_raw = [], reg_topics = [''documents'']\<rparr>\<rparr>"

lemma example_registers:
  "co_registry c = newRegistry \<Longrightarrow> \<not> co_running c \<Longrightarrow>
     RegisterHandler no_document Unmarshal_document DocumentCreated documentHandler_Handle c = (None, with_document_handler c)"
  using DocumentCreated_ok
  by (simp add: RegisterHandler_def register_typed_def with_document_handler_def newRegistry_def addTyped_def)
    (simp add: DocumentCreated_def)

lemma example_constructs:
  "(\<exists>c w'. NewConsumer meter_of g h s (example_config getenv) w = (Inr c, w') \<and> outside w' = outside w
      \<and> co_registry c = newRegistry \<and> \<not> co_running c \<and> getenv ''REDIS_ADDRESS'' \<noteq> [] \<and> \<not> isl s)
   \<or> (\<exists>e. NewConsumer meter_of g h s (example_config getenv) w = (Inl e, w) \<and> (getenv ''REDIS_ADDRESS'' = [] \<or> isl s))"
proof (cases "getenv ''REDIS_ADDRESS'' = []")
  case True
  then show ?thesis by (simp add: NewConsumer_def example_config_def Validate_def)
next
  case False
  then obtain c where v: "Validate g (example_config getenv) = (None, c)"
      "cfg_Consumer c = cfg_Consumer (example_config getenv)"
      "cfg_Retry c = \<lparr>rt_MaxImmediateRetries = 3, rt_InitialBackoff = 100000000, rt_MaxBackoff = 5000000000\<rparr>"
    by (simp add: example_config_def go_defs)
  have "case s of Inl e \<Rightarrow> \<exists>d. validateConsumer h s c = (Some d, c\<lparr>cfg_Consumer := validateConsumer_defaults (cfg_Consumer c)\<rparr>)
        | Inr bs \<Rightarrow> \<exists>c'. validateConsumer h s c = (None, c')"
    using v(2,3)
    by (simp add: validateConsumer_def validateConsumer_defaults_fields defaultConsumerName_def example_config_def Let_def
        split: sum.split)
  with v(1) False show ?thesis
    by (auto simp: NewConsumer_def newInstruments_outside Let_def split: sum.splits prod.split)
qed

text \<open>
  C29. The example service does what its comments say. Its event contract is valid and its handler is
  accepted, so the process exits 0 exactly when an address was configured, a consumer name could be
  drawn and \<open>Run\<close> built, served and tore down without an error; every other end is exit 1; and the
  Redis client \<open>Run\<close> opened is closed exactly once, never a second time by the deferred \<open>Close\<close>.
\<close>

theorem consumer_main_exit:
  assumes "consumer_main meter_of g h s getenv re w = (code, w')" and "counts_closes (closes \<circ> snd) re"
  shows "code \<in> {0, 1}
    \<and> (code = 0 \<longleftrightarrow> (\<exists>c pub w0. NewConsumer meter_of g h s (example_config getenv) w = (Inr c, w0)
          \<and> re_router re = None \<and> re_dlq re = Inr pub
          \<and> run_clean re (topic_routes (re_rt re) (run_attach (re_reader re) pub ((with_document_handler c)\<lparr>co_running := True\<rparr>))
                            (re_order re [''documents''])) w0))
    \<and> closes (snd (outside w')) = closes (snd (outside w)) + (if getenv ''REDIS_ADDRESS'' = [] \<or> isl s then 0 else 1)"
  using example_constructs [of meter_of g h s getenv w]
proof
  assume "\<exists>c w'. NewConsumer meter_of g h s (example_config getenv) w = (Inr c, w') \<and> outside w' = outside w
      \<and> co_registry c = newRegistry \<and> \<not> co_running c \<and> getenv ''REDIS_ADDRESS'' \<noteq> [] \<and> \<not> isl s"
  then obtain c w0 where n: "NewConsumer meter_of g h s (example_config getenv) w = (Inr c, w0)" "outside w0 = outside w"
    and c: "co_registry c = newRegistry" "\<not> co_running c" and env: "getenv ''REDIS_ADDRESS'' \<noteq> []" "\<not> isl s" by blast
  let ?c = "with_document_handler c"
  have fresh: "\<not> isEmpty (co_registry ?c)" "\<not> co_running ?c" "topicList (re_order re) (co_registry ?c) = re_order re [''documents'']"
    using c(2) by (simp_all add: with_document_handler_def isEmpty_def topicList_def)
  obtain err c' w1 where run: "Run re ?c w0 = (err, c', w1)" by (cases "Run re ?c w0") auto
  have main: "(code, w') = (case err of Some e \<Rightarrow> exit_1 ''running consumer'' e w1
      | None \<Rightarrow> (0, close_consumer (re_close_client re) c' w1))"
    using assms(1) n(1) example_registers [OF c] run by (simp add: consumer_main_def split: option.splits)
  from run show ?thesis
  proof (cases rule: Run_cases)
    case refused
    with fresh show ?thesis by simp
  next
    case (aborted m e d)
    note a = run_abort_closes [OF assms(2) aborted(3)]
    from a obtain e' where "err = Some e'" by blast
    with a main n env aborted(4) show ?thesis by (auto simp: exit_1_def app_log_def isl_def)
  next
    case (served pub)
    note v = run_serve_closes [OF assms(2) served(4)]
    have running: "co_running c'" using v by (auto simp: run_attach_def dest!: arg_cong [of _ _ co_running])
    show ?thesis
    proof (cases err)
      case None
      with v main n env served fresh(3) running show ?thesis by (auto simp: close_consumer_def Close_def)
    next
      case (Some e')
      with v main n env served fresh(3) show ?thesis by (auto simp: exit_1_def app_log_def)
    qed
  qed
next
  assume "\<exists>e. NewConsumer meter_of g h s (example_config getenv) w = (Inl e, w) \<and> (getenv ''REDIS_ADDRESS'' = [] \<or> isl s)"
  with assms(1) show ?thesis by (auto simp: consumer_main_def exit_1_def app_log_def)
qed

definition app_env :: "nat app run_env" where
  "app_env = \<lparr>re_rt = sample_runtime, re_order = id, re_reader = 7, re_dlq = Inr (\<lambda>ctx topic msg w. (None, w)), re_router = None,
     re_serve = (\<lambda>rs w. (None, w)), re_router_close = (\<lambda>w. (None, w)), re_close_client = (\<lambda>n a. (None, (fst a, Suc (snd a))))\<rparr>"

theorem consumer_main_exit_witness:
  "\<exists>w'. consumer_main (\<lambda>c i u. None) 8 (Inr ''host'') (Inr ''abc'') (\<lambda>k. ''redis:6379'') app_env (start_world ([], 0)) = (0, w')
     \<and> snd (outside w') = 1"
proof -
  let ?main = "consumer_main (\<lambda>c i u. None) 8 (Inr ''host'') (Inr ''abc'') (\<lambda>k. ''redis:6379'') app_env (start_world ([], 0) :: nat app world)"
  let ?new = "NewConsumer (\<lambda>c i u. None) 8 (Inr ''host'') (Inr ''abc'') (example_config (\<lambda>k. ''redis:6379'')) (start_world ([], 0) :: nat app world)"
  obtain code w' where m: "?main = (code, w')" by fastforce
  have "counts_closes (id \<circ> snd) app_env" by (simp add: counts_closes_def app_env_def)
  note exit = consumer_main_exit [OF m this]
  obtain c w0 where "?new = (Inr c, w0)"
    using example_constructs [of "\<lambda>c i u. None" 8 "Inr ''host''" "Inr ''abc''" "\<lambda>k. ''redis:6379''" "start_world ([], 0) :: nat app world"] by auto
  moreover have "run_clean app_env rs w" for rs w by (simp add: run_clean_def app_env_def)
  moreover obtain pub where "re_router app_env = None" "re_dlq app_env = Inr pub" by (simp add: app_env_def)
  ultimately have "code = 0"
    by (intro exit [THEN conjunct2, THEN conjunct1, THEN iffD2] exI [of _ c] exI [of _ pub] exI [of _ w0] conjI) assumption+
  with exit m show ?thesis by (auto simp: start_world_def)
qed

section \<open>examples/telemetry\<close>

definition scopeName :: string where
  "scopeName = ''github.com/bcgov/foi-messaging-go''"

definition counterNames :: "(string \<times> string) list" where
  "counterNames =
     [(''messaging.events.published'', ''{event}''), (''messaging.publish.failures'', ''{event}''),
      (''messaging.events.received'', ''{event}''), (''messaging.events.processed'', ''{event}''),
      (''messaging.events.failed'', ''{event}''), (''messaging.events.skipped'', ''{event}''),
      (''messaging.retries'', ''{retry}''), (''messaging.dlq'', ''{event}''), (''messaging.dlq.publish.failures'', ''{event}'')]"

definition histogramNames :: "string list" where
  "histogramNames = [''messaging.processing.duration'', ''messaging.queue.latency'']"

text \<open>
  The provider the example builds, over the exporter's constructor: the views by instrument name,
  each with its bucket boundaries, here in milliseconds.
\<close>

record provider =
  mp_reader :: nat
  mp_views :: "(string \<times> int list) list"

definition secondsBuckets :: "int list" where
  "secondsBuckets = [5, 10, 25, 50, 100, 250, 500, 1000, 2500, 5000, 10000]"

definition NewMeterProvider :: "goerr + nat \<Rightarrow> goerr + provider" where
  "NewMeterProvider exporter =
     (case exporter of
        Inl err \<Rightarrow> Inl (WrapError [Lit ''creating prometheus exporter: ''] err)
      | Inr e \<Rightarrow> Inr \<lparr>mp_reader = e, mp_views = [(''messaging.processing.duration'', secondsBuckets),
                                                 (''messaging.queue.latency'', secondsBuckets)]\<rparr>)"

text \<open>
  \<open>recordOneOfEach\<close>: the constructor of each instrument, then one value under its name (a histogram's
  in nanoseconds), which are kept when a later constructor fails.
\<close>

type_synonym sample = "string \<times> int \<times> attrs"

fun record_counters :: "meter \<Rightarrow> (string \<times> string) list \<Rightarrow> sample list \<Rightarrow> goerr option \<times> sample list" where
  "record_counters create [] acc = (None, acc)"
| "record_counters create ((name, u) # cs) acc =
     (case create name u of
        Some err \<Rightarrow> (Some (WrapError [Lit ''creating '', Lit name, Lit '': ''] err), acc)
      | None \<Rightarrow> record_counters create cs (acc @ [(name, 1, [(''topic'', ''documents'')])]))"

fun record_histograms :: "meter \<Rightarrow> string list \<Rightarrow> sample list \<Rightarrow> goerr option \<times> sample list" where
  "record_histograms create [] acc = (None, acc)"
| "record_histograms create (name # ns) acc =
     (case create name ''s'' of
        Some err \<Rightarrow> (Some (WrapError [Lit ''creating '', Lit name, Lit '': ''] err), acc)
      | None \<Rightarrow> record_histograms create ns (acc @ [(name, 420000000, [(''topic'', ''documents'')])]))"

definition recordOneOfEach :: "meter \<Rightarrow> goerr option \<times> sample list" where
  "recordOneOfEach create =
     (case record_counters create counterNames [] of
        (Some err, acc) \<Rightarrow> (Some err, acc)
      | (None, acc) \<Rightarrow> record_histograms create histogramNames acc)"

text \<open>
  \<open>main\<close>, with the exit status of the process and the lines of the standard logger in the first
  component of the outside state. \<open>shutdown\<close> is the provider's \<open>Shutdown\<close> and \<open>listen\<close> is
  \<open>http.Server.ListenAndServe\<close> with the address and the path the metrics are served under.
  \<open>log.Fatalf\<close> ends the process with status 1, which skips the deferred \<open>Shutdown\<close>.
\<close>

type_synonym 'v stdlog = "string list \<times> 'v"

definition std_log :: "string \<Rightarrow> 'v stdlog \<Rightarrow> 'v stdlog" where
  "std_log line a = (fst a @ [line], snd a)"

definition log_Fatalf :: "string \<Rightarrow> goerr \<Rightarrow> 'v stdlog \<Rightarrow> int \<times> 'v stdlog" where
  "log_Fatalf doing err a = (1, std_log (doing @ '': '' @ Error err) a)"

definition telemetry_main ::
    "goerr + nat \<Rightarrow> meter \<Rightarrow> (provider \<Rightarrow> 'v stdlog \<Rightarrow> goerr option \<times> 'v stdlog)
     \<Rightarrow> (string \<Rightarrow> string \<Rightarrow> sample list \<Rightarrow> 'v stdlog \<Rightarrow> goerr option \<times> 'v stdlog) \<Rightarrow> 'v stdlog \<Rightarrow> int \<times> 'v stdlog" where
  "telemetry_main exporter create shutdown listen a =
     (case NewMeterProvider exporter of
        Inl err \<Rightarrow> log_Fatalf ''building meter provider'' err a
      | Inr mp \<Rightarrow>
          (case recordOneOfEach create of
             (Some err, _) \<Rightarrow> log_Fatalf ''recording sample metrics'' err a
           | (None, samples) \<Rightarrow>
               (case listen '':2112'' ''/metrics'' samples (std_log ''serving metrics on :2112/metrics'' a) of
                  (Some err, a) \<Rightarrow> log_Fatalf ''serving metrics'' err a
                | (None, a) \<Rightarrow>
                    (case shutdown mp a of
                       (None, a) \<Rightarrow> (0, a)
                     | (Some err, a) \<Rightarrow> (0, std_log (''shutting down meter provider: '' @ Error err) a)))))"

text \<open>
  The deferred \<open>Shutdown\<close> of the example never runs. \<open>ListenAndServe\<close> returns a non-nil error whenever it
  returns, every error of \<open>main\<close> ends in \<open>log.Fatalf\<close>, and so the process always ends with status 1
  without shutting its meter provider down, whatever \<open>Shutdown\<close> would do.
\<close>

lemma telemetry_main_never_shuts_down:
  assumes "\<And>addr path samples v. fst (listen addr path samples v) \<noteq> None"
  shows "fst (telemetry_main exporter create shutdown listen a) = 1
    \<and> telemetry_main exporter create shutdown listen a = telemetry_main exporter create shutdown' listen a"
proof (cases "NewMeterProvider exporter")
  case (Inr mp)
  obtain r samples where rec: "recordOneOfEach create = (r, samples)" by (cases "recordOneOfEach create")
  let ?served = "listen '':2112'' ''/metrics'' samples (std_log ''serving metrics on :2112/metrics'' a)"
  have "fst ?served \<noteq> None" by (rule assms)
  then obtain e v where served: "?served = (Some e, v)" by (cases ?served) auto
  show ?thesis by (cases r) (simp_all add: telemetry_main_def Inr rec served log_Fatalf_def)
qed (simp add: telemetry_main_def log_Fatalf_def)

section \<open>The example's copy of the instrument set\<close>

lemma record_counters_all:
  "fst (record_counters create cs acc) = None \<longleftrightarrow> (\<forall>(n, u) \<in> set cs. create n u = None)"
  "fst (record_counters create cs acc) = None \<Longrightarrow>
     snd (record_counters create cs acc) = acc @ map (\<lambda>(n, u). (n, 1, [(''topic'', ''documents'')])) cs"
  by (induction create cs acc rule: record_counters.induct) (auto split: option.splits)

lemma record_histograms_all:
  "fst (record_histograms create ns acc) = None \<longleftrightarrow> (\<forall>n \<in> set ns. create n ''s'' = None)"
  "fst (record_histograms create ns acc) = None \<Longrightarrow>
     snd (record_histograms create ns acc) = acc @ map (\<lambda>n. (n, 420000000, [(''topic'', ''documents'')])) ns"
  by (induction create ns acc rule: record_histograms.induct) (auto split: option.splits)

lemma create_all_None: "(\<exists>is. create_all create specs = Inr is) \<longleftrightarrow> (\<forall>(i, n, u) \<in> set specs. create n u = None)"
  by (induction create specs rule: create_all.induct) (auto split: option.splits sum.splits)

lemma example_specs: "map snd instrument_specs = counterNames @ map (\<lambda>n. (n, ''s'')) histogramNames"
  by (simp add: instrument_specs_def counterNames_def histogramNames_def)

text \<open>
  C28. The example's copy of the instrument set mirrors the library's, which no test of either module
  checks: same names, same units, same order. So \<open>recordOneOfEach\<close> succeeds on exactly the meters on
  which the library's own instruments are built, records then one value under every instrument name
  and no other, and the views cover precisely the instruments the library measures in seconds.
\<close>

theorem example_mirrors_instruments:
  "scopeName = telemetryScope
   \<and> map (\<lambda>(i, n, u). (n, u)) instrument_specs = counterNames @ map (\<lambda>n. (n, ''s'')) histogramNames
   \<and> (fst (recordOneOfEach create) = None \<longleftrightarrow> \<not> isl (buildInstruments True create))
   \<and> (isl (buildInstruments True create)
      \<or> map fst (snd (recordOneOfEach create)) = map (\<lambda>(i, n, u). n) instrument_specs)
   \<and> (\<exists>p. NewMeterProvider (Inr e) = Inr p \<and> map fst (mp_views p) = [n. (i, n, u) \<leftarrow> instrument_specs, u = ''s''])"
proof -
  have specs: "(\<lambda>(i, n, u). (n, u)) = (snd :: instrument \<times> string \<times> string \<Rightarrow> string \<times> string)" by auto
  have "\<not> isl (buildInstruments True create) \<longleftrightarrow> (\<exists>is. create_all create instrument_specs = Inr is)"
    by (auto simp: buildInstruments_def split: sum.split)
  also have "\<dots> \<longleftrightarrow> (\<forall>(n, u) \<in> set (map snd instrument_specs). create n u = None)"
    unfolding create_all_None by fastforce
  finally have created: "\<not> isl (buildInstruments True create)
      \<longleftrightarrow> (\<forall>(n, u) \<in> set counterNames. create n u = None) \<and> (\<forall>n \<in> set histogramNames. create n ''s'' = None)"
    by (simp add: example_specs ball_Un)
  have one: "fst (recordOneOfEach create) = None \<longleftrightarrow> \<not> isl (buildInstruments True create)"
    unfolding created recordOneOfEach_def
    using record_counters_all [of create counterNames "[]"] record_histograms_all(1) [of create histogramNames]
    by (auto split: prod.split option.split)
  have "map fst (snd (recordOneOfEach create)) = map (\<lambda>(i, n, u). n) instrument_specs" if "\<not> isl (buildInstruments True create)"
  proof -
    have "map (\<lambda>(i, n, u). n) instrument_specs = map fst (map snd instrument_specs)" by (simp add: comp_def split_beta)
    moreover from that have "fst (record_counters create counterNames []) = None"
        "fst (record_histograms create histogramNames acc) = None" for acc
      unfolding created by (simp_all add: record_counters_all(1) record_histograms_all(1))
    ultimately show ?thesis
      by (simp add: recordOneOfEach_def example_specs record_counters_all(2) record_histograms_all(2) comp_def split_beta
          split: prod.split option.split)
  qed
  moreover have "\<exists>p. NewMeterProvider (Inr e) = Inr p \<and> map fst (mp_views p) = [n. (i, n, u) \<leftarrow> instrument_specs, u = ''s'']"
    by (simp add: NewMeterProvider_def instrument_specs_def)
  moreover have "scopeName = telemetryScope" by (simp add: scopeName_def telemetryScope_def)
  ultimately show ?thesis using one example_specs unfolding specs by blast
qed

end
