(* ===== verification/Testsupport.thy ===== *)
theory Testsupport
  imports Errors
begin

text \<open>
  \<open>internal/testsupport/redis.go\<close>: the container and the stream helpers of the integration tests, over
  the operations of \<open>testcontainers\<close> and go-redis they call.
\<close>

section \<open>The container\<close>

text \<open>
  What \<open>testcontainers\<close> offers: running an image (a container, by number), its host, the port mapped
  to 6379, and stopping it.
\<close>

record 'w containers =
  tc_Run :: "'w \<Rightarrow> (goerr + nat) \<times> 'w"
  tc_Host :: "nat \<Rightarrow> 'w \<Rightarrow> (goerr + string) \<times> 'w"
  tc_MappedPort :: "nat \<Rightarrow> 'w \<Rightarrow> (goerr + string) \<times> 'w"
  tc_Terminate :: "nat \<Rightarrow> 'w \<Rightarrow> goerr option \<times> 'w"

text \<open>Giving a started container back after a failure, whose error comes first.\<close>

definition terminate_after :: "'w containers \<Rightarrow> nat \<Rightarrow> string \<Rightarrow> goerr \<Rightarrow> 'w \<Rightarrow> goerr \<times> 'w" where
  "terminate_after tc container doing err w =
     (case tc_Terminate tc container w of
        (None, w) \<Rightarrow> (err, w)
      | (Some termErr, w) \<Rightarrow> (JoinError [CHR 0x0A] [err, WrapError [Lit doing] termErr], w))"

text \<open>The address, and the container that the returned \<open>terminate\<close> stops.\<close>

definition StartRedis :: "'w containers \<Rightarrow> 'w \<Rightarrow> (goerr + string \<times> nat) \<times> 'w" where
  "StartRedis tc w =
     (case tc_Run tc w of
        (Inl err, w) \<Rightarrow> (Inl (WrapError [Lit ''starting redis container: ''] err), w)
      | (Inr container, w) \<Rightarrow>
          (case tc_Host tc container w of
             (Inl err, w) \<Rightarrow>
               map_prod Inl id (terminate_after tc container ''terminating redis container after host resolution failure: ''
                 (WrapError [Lit ''resolving redis container host: ''] err) w)
           | (Inr host, w) \<Rightarrow>
               (case tc_MappedPort tc container w of
                  (Inl err, w) \<Rightarrow>
                    map_prod Inl id (terminate_after tc container ''terminating redis container after port resolution failure: ''
                      (WrapError [Lit ''resolving redis container port: ''] err) w)
                | (Inr port, w) \<Rightarrow> (Inr (host @ '':'' @ port, container), w))))"

section \<open>Looking at a stream\<close>

text \<open>A value go-redis decoded: a string, or anything else.\<close>

datatype any_value = AnyString string | AnyOther

record StreamEntry =
  se_ID :: string
  se_Fields :: "string \<rightharpoonup> string"

text \<open>The commands of a client for one address, and its \<open>Close\<close>.\<close>

record 'w test_client =
  tk_XRange :: "string \<Rightarrow> string \<Rightarrow> string \<Rightarrow> 'w \<Rightarrow> (goerr + (string \<times> (string \<times> any_value) list) list) \<times> 'w"
  tk_XPending :: "string \<Rightarrow> string \<Rightarrow> 'w \<Rightarrow> (goerr + int) \<times> 'w"
  tk_XAdd :: "string \<Rightarrow> (string \<times> any_value) list \<Rightarrow> 'w \<Rightarrow> (goerr + string) \<times> 'w"
  tk_XGroupDestroy :: "string \<Rightarrow> string \<Rightarrow> 'w \<Rightarrow> goerr option \<times> 'w"
  tk_Del :: "string \<Rightarrow> 'w \<Rightarrow> goerr option \<times> 'w"
  tk_Close :: "'w \<Rightarrow> goerr option \<times> 'w"

text \<open>The deferred \<open>Close\<close>, whose error is dropped.\<close>

definition closing :: "'w test_client \<Rightarrow> 'a \<times> 'w \<Rightarrow> 'a \<times> 'w" where
  "closing cl r = (fst r, snd (tk_Close cl (snd r)))"

fun string_fields :: "(string \<times> any_value) list \<Rightarrow> string \<rightharpoonup> string" where
  "string_fields [] = Map.empty"
| "string_fields ((k, AnyString s) # vs) = (string_fields vs)(k \<mapsto> s)"
| "string_fields ((k, AnyOther) # vs) = string_fields vs"

definition ReadStreamEntries :: "(string \<Rightarrow> 'w test_client) \<Rightarrow> string \<Rightarrow> string \<Rightarrow> 'w \<Rightarrow> (goerr + StreamEntry list) \<times> 'w" where
  "ReadStreamEntries new addr stream w =
     closing (new addr)
       (case tk_XRange (new addr) stream ''-'' ''+'' w of
          (Inl err, w) \<Rightarrow> (Inl (WrapError [Lit ''reading stream '', Quoted stream, Lit '': ''] err), w)
        | (Inr raw, w) \<Rightarrow> (Inr (map (\<lambda>(i, vs). \<lparr>se_ID = i, se_Fields = string_fields vs\<rparr>) raw), w))"

definition PendingCount :: "(string \<Rightarrow> 'w test_client) \<Rightarrow> string \<Rightarrow> string \<Rightarrow> string \<Rightarrow> 'w \<Rightarrow> (goerr + int) \<times> 'w" where
  "PendingCount new addr stream grp w =
     closing (new addr)
       (case tk_XPending (new addr) stream grp w of
          (Inl err, w) \<Rightarrow> (Inl (WrapError [Lit ''reading pending entries for stream '', Quoted stream, Lit '' group '', Quoted grp,
                                        Lit '': ''] err), w)
        | (Inr n, w) \<Rightarrow> (Inr n, w))"

definition WriteStreamEntry ::
    "(string \<Rightarrow> 'w test_client) \<Rightarrow> string \<Rightarrow> string \<Rightarrow> (string \<times> any_value) list \<Rightarrow> 'w \<Rightarrow> (goerr + string) \<times> 'w" where
  "WriteStreamEntry new addr stream fs w =
     closing (new addr)
       (case tk_XAdd (new addr) stream fs w of
          (Inl err, w) \<Rightarrow> (Inl (WrapError [Lit ''writing entry to stream '', Quoted stream, Lit '': ''] err), w)
        | (Inr i, w) \<Rightarrow> (Inr i, w))"

definition DestroyGroup :: "(string \<Rightarrow> 'w test_client) \<Rightarrow> string \<Rightarrow> string \<Rightarrow> string \<Rightarrow> 'w \<Rightarrow> goerr option \<times> 'w" where
  "DestroyGroup new addr stream grp w =
     closing (new addr)
       (case tk_XGroupDestroy (new addr) stream grp w of
          (Some err, w) \<Rightarrow> (Some (WrapError [Lit ''destroying group '', Quoted grp, Lit '' on stream '', Quoted stream, Lit '': ''] err), w)
        | (None, w) \<Rightarrow> (None, w))"

definition DeleteKey :: "(string \<Rightarrow> 'w test_client) \<Rightarrow> string \<Rightarrow> string \<Rightarrow> 'w \<Rightarrow> goerr option \<times> 'w" where
  "DeleteKey new addr key w =
     closing (new addr)
       (case tk_Del (new addr) key w of
          (Some err, w) \<Rightarrow> (Some (WrapError [Lit ''deleting key '', Quoted key, Lit '': ''] err), w)
        | (None, w) \<Rightarrow> (None, w))"

section \<open>Nothing is left behind\<close>

text \<open>
  \<open>started\<close> counts the containers that came up, \<open>stopped\<close> the calls of \<open>Terminate\<close> per container,
  \<open>closed\<close> those of a client's \<open>Close\<close>.
\<close>

definition counts_containers :: "('w \<Rightarrow> nat) \<Rightarrow> ('w \<Rightarrow> nat \<Rightarrow> nat) \<Rightarrow> 'w containers \<Rightarrow> bool" where
  "counts_containers started stopped tc \<longleftrightarrow>
     (\<forall>w. started (snd (tc_Run tc w)) = started w + (if isl (fst (tc_Run tc w)) then 0 else 1)
        \<and> stopped (snd (tc_Run tc w)) = stopped w)
     \<and> (\<forall>n w. started (snd (tc_Host tc n w)) = started w \<and> stopped (snd (tc_Host tc n w)) = stopped w)
     \<and> (\<forall>n w. started (snd (tc_MappedPort tc n w)) = started w \<and> stopped (snd (tc_MappedPort tc n w)) = stopped w)
     \<and> (\<forall>n w. started (snd (tc_Terminate tc n w)) = started w
        \<and> stopped (snd (tc_Terminate tc n w)) = (stopped w)(n := Suc (stopped w n)))"

text \<open>
  C39. \<open>StartRedis\<close> leaks no container. When it fails, the container that came up, if one did, has been
  told to terminate exactly once and no other has; when it succeeds none has, and the container the
  caller is given to terminate is the one that came up.
\<close>

theorem StartRedis_no_leak:
  assumes "StartRedis tc w = (res, w')" and "counts_containers started stopped tc"
  shows "case fst (tc_Run tc w) of
      Inl _ \<Rightarrow> isl res \<and> started w' = started w \<and> stopped w' = stopped w
    | Inr n \<Rightarrow> started w' = Suc (started w)
        \<and> (case res of Inl _ \<Rightarrow> stopped w' = (stopped w)(n := Suc (stopped w n))
           | Inr (addr, m) \<Rightarrow> m = n \<and> stopped w' = stopped w)"
proof -
  have c: "tc_Run tc v = (r, v') \<Longrightarrow> started v' = started v + (if isl r then 0 else 1) \<and> stopped v' = stopped v"
    "tc_Host tc n v = (h, v') \<Longrightarrow> started v' = started v \<and> stopped v' = stopped v"
    "tc_MappedPort tc n v = (h, v') \<Longrightarrow> started v' = started v \<and> stopped v' = stopped v"
    "tc_Terminate tc n v = (e, v') \<Longrightarrow> started v' = started v \<and> stopped v' = (stopped v)(n := Suc (stopped v n))"
    for v v' r n h e using assms(2) unfolding counts_containers_def by (metis fst_conv snd_conv)+
  show ?thesis
    using assms(1)
    by (auto simp: StartRedis_def terminate_after_def split: prod.splits sum.splits option.splits dest!: c)
qed

lemma clients_closed:
  assumes "\<And>v. closed (snd (tk_Close (new addr) v)) = Suc (closed v)"
    and "\<And>v. closed (snd (tk_XRange (new addr) stream ''-'' ''+'' v)) = closed v" and "\<And>v. closed (snd (tk_XPending (new addr) stream grp v)) = closed v"
    and "\<And>v. closed (snd (tk_XAdd (new addr) stream fs v)) = closed v" and "\<And>v. closed (snd (tk_XGroupDestroy (new addr) stream grp v)) = closed v"
    and "\<And>v. closed (snd (tk_Del (new addr) stream v)) = closed v"
  shows "closed (snd (ReadStreamEntries new addr stream w)) = Suc (closed w)"
    and "closed (snd (PendingCount new addr stream grp w)) = Suc (closed w)"
    and "closed (snd (WriteStreamEntry new addr stream fs w)) = Suc (closed w)"
    and "closed (snd (DestroyGroup new addr stream grp w)) = Suc (closed w)"
    and "closed (snd (DeleteKey new addr stream w)) = Suc (closed w)"
  using assms(2-6) [of w]
  by (auto simp: ReadStreamEntries_def PendingCount_def WriteStreamEntry_def DestroyGroup_def DeleteKey_def closing_def assms(1)
      split: prod.split sum.split option.split)

definition no_port :: "(nat \<times> (nat \<Rightarrow> nat)) containers" where
  "no_port = \<lparr>tc_Run = (\<lambda>w. (Inr (fst w), (Suc (fst w), snd w))), tc_Host = (\<lambda>n w. (Inr ''localhost'', w)),
     tc_MappedPort = (\<lambda>n w. (Inl (OpaqueError ''port not found''), w)),
     tc_Terminate = (\<lambda>n w. (None, (fst w, (snd w)(n := Suc (snd w n)))))\<rparr>"

theorem StartRedis_no_leak_witness:
  "\<exists>err w'. StartRedis no_port (3, \<lambda>_. 0) = (Inl err, w') \<and> fst w' = 4 \<and> snd w' 3 = 1"
proof -
  have "counts_containers fst snd no_port" by (simp add: counts_containers_def no_port_def)
  moreover obtain err w' where "StartRedis no_port (3, \<lambda>_. 0) = (Inl err, w')"
    by (simp add: StartRedis_def terminate_after_def no_port_def)
  ultimately show ?thesis
    using StartRedis_no_leak [of no_port "(3, \<lambda>_. 0)" "Inl err" w' fst snd] by (simp add: no_port_def)
qed

end
