(* ===== verification/Spec2Isabelle.thy ===== *)
theory Spec2Isabelle
  imports System Subscriber_Pool Redelivery Payload_Confinement Wire Dead_Letters Examples Testsupport
begin

text \<open>
  A verification development of foi-messaging-go, a Go library for publishing and consuming events
  over Redis Streams with at-least-once delivery.

  The program. A \<open>Publisher\<close> (\<open>publisher.go\<close>) turns an event definition and a payload into an
  envelope, validates and encodes it, and hands it to watermill's Redis publisher. A \<open>Consumer\<close>
  (\<open>consumer.go\<close>) collects handlers in a registry (\<open>registry.go\<close>); \<open>Run\<close> builds one subscription per
  topic (\<open>internal/watermill/subscriber.go\<close> over \<open>internal/redis/stream.go\<close>) and a router, and serves
  until its context ends. A subscription reads new entries and claims stale ones, sends each as a
  message, and acknowledges it when its handler, \<open>Consumer.dispatch\<close>, returned nil. \<open>dispatch\<close> decodes
  and validates the envelope, finds the handler, retries it within one delivery, and writes a dead
  letter (\<open>dlq.go\<close>) for what cannot succeed; a recorder (\<open>telemetry.go\<close>) turns the stated outcome into
  metrics, the span status and the verdict a test probe reads. \<open>testing/\<close> drives the same paths without
  Redis.

  Which theory models what:
  \<^item> \<open>Prelude\<close>, \<open>Text\<close>, \<open>Regexp\<close>: integers of 64 bits with wrap-around, strings as lists of bytes,
    \<open>strconv\<close>, UTF-8, \<open>%q\<close>, durations, the patterns the library compiles with a derivative matcher, and
    the locales of inductive invariants and of simulations the state machines below instantiate.
  \<^item> \<open>Errors\<close> (\<open>errors.go\<close>): error trees with wrapping, joining and classification.
  \<^item> \<open>Config\<close> (\<open>config.go\<close>): \<open>Validate\<close>, \<open>validateConsumer\<close>, the backoff arithmetic with its overflow.
  \<^item> \<open>Envelope\<close> (\<open>eventdef.go\<close>, \<open>envelope.go\<close>, \<open>validation.go\<close>), \<open>Context\<close> (\<open>context.go\<close>,
    \<open>internal/testseam\<close>), \<open>Registry\<close> (\<open>registry.go\<close>, \<open>handler.go\<close>).
  \<^item> \<open>Json\<close>: what the library uses of \<open>encoding/json\<close>, \<open>encoding/base64\<close> and \<open>time\<close>. \<open>Json_Syntax\<close>,
    \<open>Json_Time\<close>, \<open>Json_Roundtrip\<close>: encoded text is valid and decodes to what was encoded. \<open>Json_Literal\<close>,
    \<open>Json_Compact\<close>, \<open>Json_Redrive\<close>: a compacted document is valid and decodes to what the document does.
  \<^item> \<open>World\<close>: the runtime the library runs on and what it issues (metric points, log lines, span
    operations, timers). \<open>Telemetry\<close> (\<open>telemetry.go\<close>): instruments, attributes, the delivery recorder.
  \<^item> \<open>Dlq\<close> (\<open>dlq.go\<close>), \<open>Consumer\<close> (state, \<open>NewConsumer\<close>, registration, \<open>Close\<close>), \<open>Delivery\<close> (\<open>deadLetter\<close>,
    \<open>deliveryAttempt\<close>, \<open>runWithRetry\<close>, \<open>sleepWithJitter\<close>, \<open>dispatch\<close>, \<open>handleUndecodable\<close>), \<open>Run\<close>
    (\<open>Consumer.Run\<close> and the life of a consumer), all of \<open>consumer.go\<close>.
  \<^item> \<open>Redis_Stream\<close> (\<open>internal/redis\<close>), \<open>Subscriber\<close> (\<open>internal/watermill/subscriber.go\<close>), \<open>Router\<close>
    (\<open>internal/watermill/router.go\<close>, \<open>logger.go\<close>), \<open>Publisher\<close> (\<open>publisher.go\<close>,
    \<open>internal/watermill/publisher.go\<close>).
  \<^item> \<open>Messagingtest\<close>, \<open>Messagingtest_Publisher\<close> (\<open>testhooks.go\<close>, \<open>testing/\<close>), \<open>Examples\<close> (\<open>examples/\<close>),
    \<open>Testsupport\<close> (\<open>internal/testsupport\<close>).

  How state corresponds. A struct is a record with the source's fields; a method is a function that
  returns the updated record, and each critical section under a mutex is one function. Errors are values
  of \<open>goerr\<close>: a function with results \<open>(T, error)\<close> returns a sum, one with \<open>error\<close> an option, a handler
  that may panic a value of \<open>go\<close>. Code outside the library (handlers, Redis, the clock, random numbers,
  timers, OpenTelemetry, watermill) is an argument: functions on a state \<open>'w\<close> of everything outside,
  about which a theorem assumes only what it names. The goroutines of a subscription are the components
  of its state, and one step of one of them, with the reply of Redis or the choice of a \<open>select\<close> as the
  data of the event, is one step of the machine; the theorems range over all interleavings.

  What the lemmas show:
  \<^item> \<open>Delivery_Props\<close>: every delivery is counted once; handlers only see valid, matching events; the attempt
    cap, undecodable and unrouted events. \<open>Delivery_Sink\<close>: with a log of what the dead-letter sink accepts,
    a delivery is acknowledged exactly when it was processed, skipped or filed there, and as what.
  \<^item> \<open>Delivery_Bounds\<close>: the backoff of one delivery is bounded, transient failures are absorbed, and the
    library itself never panics. \<open>Redelivery\<close>: the invocations over all deliveries of an entry, for any
    attempt numbers, with the restart of the count when the group is recreated. \<open>Delivery_Telemetry\<close>:
    bounded labels, the probe's verdict. \<open>Payload_Confinement\<close>: non-interference of payloads with telemetry.
  \<^item> \<open>Subscriber\<close>: the in-flight bound, exact acknowledgement, with the acks that come after their
    goroutine gave up on \<open>Close\<close> (\<open>sc_left\<close>, \<open>sc_late\<close>), and that closing can finish as a game against
    Redis, the hook and the handlers. \<open>Subscriber_Pool\<close>: a subscription refines a pool of work with ten
    rules (locale \<open>simulation\<close>), and a drain conserves every message. \<open>Undecodable\<close> and \<open>System\<close> compose
    it with the consumer's hook and with \<open>dispatch\<close>; a ledger of every call with the worlds before and
    after it shows that an entry is acknowledged for its own outcome only.
  \<^item> \<open>Run\<close>: what is opened is closed once on every path; no registered handler is left out.
  \<^item> \<open>Wire\<close>, \<open>Dead_Letters\<close>, \<open>Messagingtest_Publisher\<close>: an event published reaches its handler as it was,
    a dead-lettered one can be read back and published again, a recorded one is the one written.
  \<^item> \<open>Samples\<close>: the concrete setting in which these are exercised.

  Recursion. \<open>retry_loop\<close> terminates by the retries left. The JSON recogniser takes a bound that
  \<open>skip_value_fuel\<close> shows irrelevant once it exceeds twice the length of the text, which \<open>Valid\<close> and
  \<open>value_text\<close> pass; \<open>members\<close> takes the length, and each member consumes a character (\<open>members_fuel\<close>).
  All other recursion is structural.

  Assumptions built into the model. In theory \<open>System\<close> a delivery is one step: the interleaving of two
  deliveries inside \<open>dispatch\<close>, which share only the consumer's fields, is not represented.
  \<open>time.Since\<close> is the difference of two wall clock readings, saturated like a \<open>time.Duration\<close>.
  \<open>parsePublishedAt\<close> accepts the grammar of RFC 3339, without the leniencies of \<open>time.Parse\<close>. The recording
  publisher of \<open>testing/\<close> hands the payload to its hook in a field of its state where the code puts it on
  the context, which is the same for publishes that do not overlap. \<open>dispatch\<close>
  reads the consumer's configuration, registry and sink as they are when it starts. The recorders of the
  test helpers are components of the outside state. The texts of errors made by \<open>encoding/json\<close> are
  abbreviated, and of several decoding errors in one document the first is the one reported.

  Not modelled: \<open>doc.go\<close> files, which hold no code; watermill, go-redis, OpenTelemetry
  and testcontainers, which are third-party. The span a logger or a tracer makes of what it is given is
  outside the library.
\<close>

end
